(* ===== verification/Prelude.thy ===== *)
theory Prelude imports Main "HOL-Library.Multiset" "HOL-Library.Word" begin

text \<open>
  Shared vocabulary of the development: the collections the component proofs draw their rewrite
  rules from, the type of error kinds the file operations return, generic facts on runs of a
  state machine over a list of inputs, paths of a step relation, simulation as an interface, and the
  interface of a component that maintains a never-decreasing mark (the trusted clock, the
  stale-message gate and the run loop all do).
\<close>

named_theorems handler_defs \<open>definitions of the operations of the code, unfolded in proofs\<close>

section \<open>Error kinds of std::io\<close>

text \<open>
  \<open>std::io::ErrorKind\<close>, as far as the agent distinguishes it: it matches on \<open>NotFound\<close> and on
  \<open>InvalidData\<close>, and hands every other kind on unchanged.
\<close>

datatype io_kind = NotFound | InvalidData | OtherIo

section \<open>Runs of a state machine\<close>

text \<open>The states a list of inputs leads through is folded from the left, as a loop visits them.\<close>

fun run :: "('s \<Rightarrow> 'i \<Rightarrow> 's) \<Rightarrow> 's \<Rightarrow> 'i list \<Rightarrow> 's" where
  "run step s [] = s"
| "run step s (i # is) = run step (step s i) is"

text \<open>The same run with the outputs of every step, concatenated in order.\<close>

fun run_out :: "('s \<Rightarrow> 'i \<Rightarrow> 'o list \<times> 's) \<Rightarrow> 's \<Rightarrow> 'i list \<Rightarrow> 'o list \<times> 's" where
  "run_out step s [] = ([], s)"
| "run_out step s (i # is) =
     (let (out, s') = step s i; (outs, s'') = run_out step s' is in (out @ outs, s''))"

lemma run_out_Cons [simp]:
  "fst (run_out step s (i # is)) = fst (step s i) @ fst (run_out step (snd (step s i)) is)"
  "snd (run_out step s (i # is)) = snd (run_out step (snd (step s i)) is)"
  by (simp_all add: Let_def split: prod.splits)

declare run_out.simps(2) [simp del]

lemma run_append: "run step s (is @ js) = run step (run step s is) js"
  by (induction "is" arbitrary: s) auto

lemma run_invariant:
  assumes "I s" and "\<And>s i. I s \<Longrightarrow> I (step s i)"
  shows "I (run step s is)"
  using assms(1) by (induction "is" arbitrary: s) (auto intro: assms(2))

lemma run_out_append:
  "fst (run_out step s (is @ js)) = fst (run_out step s is) @ fst (run_out step (snd (run_out step s is)) js)"
  "snd (run_out step s (is @ js)) = snd (run_out step (snd (run_out step s is)) js)"
  by (induction "is" arbitrary: s) auto

lemma run_out_snd: "snd (run_out step s is) = run (\<lambda>s i. snd (step s i)) s is"
  by (induction "is" arbitrary: s) auto

lemma run_out_invariant:
  assumes "I s" and "\<And>s i. I s \<Longrightarrow> I (snd (step s i)) \<and> list_all P (fst (step s i))"
  shows "I (snd (run_out step s is)) \<and> list_all P (fst (run_out step s is))"
  using assms(1) by (induction "is" arbitrary: s) (auto dest: assms(2))

section \<open>Paths of a step relation\<close>

text \<open>Sequences of steps with their labels.\<close>

inductive steps :: "('s \<Rightarrow> 'l \<Rightarrow> 's \<Rightarrow> bool) \<Rightarrow> 's \<Rightarrow> 'l list \<Rightarrow> 's \<Rightarrow> bool" for step where
  here: "steps step s [] s"
| onward: "steps step s ls s1 \<Longrightarrow> step s1 l s2 \<Longrightarrow> steps step s (ls @ [l]) s2"

inductive_simps steps_Nil [simp]: "steps step s [] s'"

lemma path_step: "step s l s' \<Longrightarrow> steps step s [l] s'"
  using steps.onward [OF steps.here, of step s l s'] by simp

lemma path_trans: "steps step s1 ms s2 \<Longrightarrow> steps step s ls s1 \<Longrightarrow> steps step s (ls @ ms) s2"
  by (induction rule: steps.induct) (auto intro: steps.onward simp flip: append_assoc)

lemma path_front: "step s l s1 \<Longrightarrow> steps step s1 ls s2 \<Longrightarrow> steps step s (l # ls) s2"
  using path_trans [OF _ path_step] by fastforce

text \<open>An invariant that the allowed steps keep holds after a path of them, and what it says of the labels
  of the steps holds of all labels of the path.\<close>

lemma path_invariant:
  assumes "steps step s ls s'" and "I s" and "list_all P ls"
    and "\<And>s l s'. step s l s' \<Longrightarrow> I s \<Longrightarrow> P l \<Longrightarrow> I s' \<and> Q l"
  shows "I s' \<and> list_all Q ls"
  using assms(1-3) by (induction rule: steps.induct) (auto dest: assms(4))

section \<open>Simulation\<close>

text \<open>
  A specification that a detailed step relation implements: an abstraction of the states and of the
  labels takes every step, from a state of the invariant, to a step of the specification.
\<close>

locale simulation =
  fixes step :: "'s \<Rightarrow> 'l \<Rightarrow> 's \<Rightarrow> bool" and inv :: "'s \<Rightarrow> bool"
    and spec :: "'a \<Rightarrow> 'o \<Rightarrow> 'a \<Rightarrow> bool" and abs :: "'s \<Rightarrow> 'a" and obs :: "'l \<Rightarrow> 'o"
  assumes inv_step: "inv s \<Longrightarrow> step s l s' \<Longrightarrow> inv s'"
    and sim_step: "inv s \<Longrightarrow> step s l s' \<Longrightarrow> spec (abs s) (obs l) (abs s')"
begin

lemma inv_steps: "steps step s ls s' \<Longrightarrow> inv s \<Longrightarrow> inv s'"
  by (induction rule: steps.induct) (auto intro: inv_step)

lemma sim_steps: "steps step s ls s' \<Longrightarrow> inv s \<Longrightarrow> steps spec (abs s) (map obs ls) (abs s')"
proof (induction rule: steps.induct)
  case (onward s ls s1 l s2)
  then show ?case
    using steps.onward [of spec "abs s" "map obs ls" "abs s1" "obs l" "abs s2"]
      sim_step [OF inv_steps [OF onward.hyps(1)] onward.hyps(2)] by simp
qed (simp add: steps.here)

end

section \<open>Components with a mark that never goes back\<close>

locale forward_mark =
  fixes step :: "'s \<Rightarrow> 'i \<Rightarrow> 's" and mark :: "'s \<Rightarrow> 'm::linorder"
  assumes step_forward: "mark s \<le> mark (step s i)"
begin

lemma run_forward: "mark s \<le> mark (run step s is)"
proof (induction "is" arbitrary: s)
  case Nil
  show ?case by simp
next
  case (Cons i "is")
  show ?case using order_trans [OF step_forward Cons.IH] by simp
qed

text \<open>Between any two points of a run the mark only grows.\<close>

lemma run_prefix_forward: "mark (run step s is) \<le> mark (run step s (is @ js))"
  by (simp add: run_append run_forward)

end

end
