(* ===== verification/Chrono.thy ===== *)
theory Chrono imports Prelude begin

text \<open>
  Time as the agent handles it. \<open>chrono::DateTime<Utc>\<close> is an exact point in time, here the number
  of nanoseconds since the Unix epoch; \<open>chrono::Duration\<close> is a signed number of nanoseconds;
  \<open>std::time::Instant\<close> is a reading of the monotonic clock, a natural number of nanoseconds since
  some fixed origin. The operations below are the documented ones of these types that the agent
  calls, their range limits included: adding a duration to a time past \<open>DateTime::<Utc>::MAX_UTC\<close>
  panics, which is \<open>None\<close> here. Leap-second values (a nanosecond field of a billion or more) are
  not represented.
\<close>

type_synonym datetime = int
type_synonym timedelta = int
type_synonym instant = nat

abbreviation nanos_per_sec :: int where "nanos_per_sec \<equiv> 1000000000"

text \<open>\<open>DateTime::<Utc>::MIN_UTC\<close> is the first instant of the year -262143, \<open>MAX_UTC\<close> the last
  nanosecond of 262142.\<close>

definition dt_min :: datetime where "dt_min = -8334601228800 * nanos_per_sec"
definition dt_max :: datetime where "dt_max = 8210266876799 * nanos_per_sec + 999999999"

definition in_range :: "datetime \<Rightarrow> bool" where
  "in_range t \<longleftrightarrow> dt_min \<le> t \<and> t \<le> dt_max"

text \<open>\<open>DateTime + Duration\<close>: panics (\<open>None\<close>) when the sum leaves the range.\<close>

definition dt_add :: "datetime \<Rightarrow> timedelta \<Rightarrow> datetime option" where
  "dt_add t d = (if in_range (t + d) then Some (t + d) else None)"

text \<open>\<open>Duration::num_seconds\<close>: whole seconds, truncated toward zero.\<close>

definition num_seconds :: "timedelta \<Rightarrow> int" where
  "num_seconds d = sgn d * (\<bar>d\<bar> div nanos_per_sec)"

text \<open>\<open>Duration::seconds\<close> for a constant number of seconds.\<close>

definition secs :: "int \<Rightarrow> timedelta" where
  "secs n = n * nanos_per_sec"

text \<open>
  \<open>Duration::from_std\<close> refuses a standard duration of more than \<open>i64::MAX\<close> milliseconds;
  \<open>unwrap_or_default\<close> then takes the zero duration.
\<close>

definition i64_max :: int where "i64_max = 9223372036854775807"
definition i64_min :: int where "i64_min = -9223372036854775808"

definition from_std_or_default :: "nat \<Rightarrow> timedelta" where
  "from_std_or_default d = (if int d \<le> i64_max * 1000000 then int d else 0)"

text \<open>\<open>Instant::elapsed\<close>: time since an earlier reading, saturating at zero.\<close>

definition elapsed :: "instant \<Rightarrow> instant \<Rightarrow> nat" where
  "elapsed since now = now - since"

lemma from_std_or_default_nonneg [simp]: "0 \<le> from_std_or_default d"
  by (simp add: from_std_or_default_def)

lemma from_std_or_default_le [simp]: "from_std_or_default d \<le> int d"
  by (simp add: from_std_or_default_def)

lemma dt_add_Some_iff: "dt_add t d = Some u \<longleftrightarrow> u = t + d \<and> in_range u"
  by (auto simp: dt_add_def)

section \<open>Whole seconds\<close>

lemma num_seconds_nonneg: "0 \<le> d \<Longrightarrow> num_seconds d = d div nanos_per_sec"
  by (cases "d = 0") (auto simp: num_seconds_def sgn_if)

lemma num_seconds_neg: "d < 0 \<Longrightarrow> num_seconds d = - ((- d) div nanos_per_sec)"
  by (simp add: num_seconds_def sgn_if)

lemma num_seconds_secs [simp]: "num_seconds (n * nanos_per_sec) = n"
  by (cases "0 \<le> n") (auto simp: num_seconds_nonneg num_seconds_neg)

lemma abs_num_seconds: "\<bar>num_seconds d\<bar> = \<bar>d\<bar> div nanos_per_sec"
proof -
  have "0 \<le> \<bar>d\<bar> div nanos_per_sec" by (simp add: pos_imp_zdiv_nonneg_iff)
  then show ?thesis by (cases "d = 0") (auto simp: num_seconds_def abs_mult sgn_if)
qed

lemma num_seconds_mono: "d \<le> e \<Longrightarrow> num_seconds d \<le> num_seconds e"
proof -
  assume le: "d \<le> e"
  consider "0 \<le> d" | "d < 0" "0 \<le> e" | "e < 0" using le by linarith
  then show ?thesis
  proof cases
    case 1
    with le show ?thesis by (simp add: num_seconds_nonneg zdiv_mono1)
  next
    case 2
    then show ?thesis by (simp add: num_seconds_nonneg num_seconds_neg pos_imp_zdiv_nonneg_iff
          order_trans [of _ 0])
  next
    case 3
    with le show ?thesis by (simp add: num_seconds_neg zdiv_mono1)
  qed
qed

text \<open>A positive number of seconds remains exactly when at least one full second does.\<close>

lemma num_seconds_pos_iff: "0 < num_seconds d \<longleftrightarrow> nanos_per_sec \<le> d"
proof (cases "0 \<le> d")
  case True
  then show ?thesis by (simp add: num_seconds_nonneg pos_imp_zdiv_pos_iff)
next
  case False
  then have "num_seconds d \<le> 0" by (simp add: num_seconds_neg pos_imp_zdiv_nonneg_iff)
  with False show ?thesis by linarith
qed

lemma num_seconds_gt_iff: "0 \<le> n \<Longrightarrow> n < num_seconds d \<longleftrightarrow> (n + 1) * nanos_per_sec \<le> d"
proof (cases "0 \<le> d")
  case True
  then show "0 \<le> n \<Longrightarrow> ?thesis" by (auto simp: num_seconds_nonneg)
next
  case False
  then have "num_seconds d \<le> 0" by (simp add: num_seconds_neg pos_imp_zdiv_nonneg_iff)
  with False show "0 \<le> n \<Longrightarrow> ?thesis" by (smt (verit) mult_nonneg_nonneg)
qed

lemma num_seconds_le_iff: "0 \<le> n \<Longrightarrow> num_seconds d \<le> n \<longleftrightarrow> d < (n + 1) * nanos_per_sec"
  using num_seconds_gt_iff [of n d] by linarith

lemma num_seconds_ge_floor: "d div nanos_per_sec \<le> num_seconds d"
proof (cases "0 \<le> d")
  case True
  then show ?thesis by (simp add: num_seconds_nonneg)
next
  case False
  then have "num_seconds d = - (- d div nanos_per_sec)" by (simp add: num_seconds_neg)
  moreover have "d div nanos_per_sec \<le> - (- d div nanos_per_sec)" by linarith
  ultimately show ?thesis by simp
qed

text \<open>After a delay of at most \<open>n\<close> seconds at most \<open>n\<close> whole seconds fewer remain.\<close>

lemma num_seconds_delay:
  assumes "0 \<le> e" and "e - d \<le> secs n"
  shows "num_seconds e - n \<le> num_seconds d"
proof -
  have "e \<le> d + n * nanos_per_sec" using assms(2) by (simp add: secs_def)
  then have "e div nanos_per_sec \<le> (d + n * nanos_per_sec) div nanos_per_sec" by (rule zdiv_mono1) simp
  then have "e div nanos_per_sec \<le> d div nanos_per_sec + n" by simp
  then show ?thesis using num_seconds_ge_floor [of d] assms(1) by (simp add: num_seconds_nonneg)
qed

text \<open>The difference of two representable times is a number of seconds far inside \<open>i64\<close>.\<close>

lemma num_seconds_diff_bound:
  assumes "in_range t" and "in_range u"
  shows "\<bar>num_seconds (t - u)\<bar> \<le> 16544868105599"
proof -
  have "t - u \<le> 16544868105599999999999" and "u - t \<le> 16544868105599999999999"
    using assms by (auto simp: in_range_def dt_min_def dt_max_def)
  then have "\<bar>t - u\<bar> div nanos_per_sec \<le> 16544868105599" by linarith
  then show ?thesis by (simp add: abs_num_seconds)
qed

end
