(* ===== verification/Session.thy ===== *)
theory Session imports Chrono begin

text \<open>
  The pure session state machine of \<open>agent/src/session.rs\<close>: the snapshot of a session, the gate
  that accepts a server message only when it is newer than the last accepted one
  (\<open>apply_server_message\<close>), and one tick of local expiry (\<open>advance\<close>). The lemmas show that the
  gate converges to the newest message whatever the order of arrival, and that expiry is exact
  and sticky.
\<close>

section \<open>Data\<close>

datatype session_status = Active | Expired | Ended

record session_snapshot =
  snap_id :: string
  started_at :: datetime
  expires_at :: datetime
  status :: session_status
  updated_at :: datetime

datatype desired = Allowed | Blocked

section \<open>Operations\<close>

text \<open>
  The two \<open>&mut\<close> arguments, the current session and the time of the last applied message, are
  passed in and returned; the boolean is the function's result.
\<close>

definition apply_server_message ::
  "session_snapshot option \<Rightarrow> datetime \<Rightarrow> session_snapshot option \<Rightarrow> datetime
     \<Rightarrow> bool \<times> session_snapshot option \<times> datetime" where
  "apply_server_message current_session last_applied_at incoming message_time =
     (if message_time \<le> last_applied_at
      then (False, current_session, last_applied_at)
      else (True, incoming, message_time))"

definition expire_locally :: "session_snapshot \<Rightarrow> datetime \<Rightarrow> session_snapshot" where
  "expire_locally s trusted_now =
     (if status s = Active \<and> trusted_now \<ge> expires_at s then s\<lparr>status := Expired\<rparr> else s)"

definition advance :: "session_snapshot option \<Rightarrow> datetime \<Rightarrow> desired \<times> session_snapshot option"
  where
  "advance session trusted_now =
     (let session' = map_option (\<lambda>s. expire_locally s trusted_now) session in
      (case session' of
         Some s \<Rightarrow> if status s = Active \<and> trusted_now < expires_at s then Allowed else Blocked
       | None \<Rightarrow> Blocked,
       session'))"

text \<open>The run loop's tick, over a list of clock readings: what each tick wants, in order.\<close>

definition advance_step :: "session_snapshot option \<Rightarrow> datetime \<Rightarrow> desired list \<times> session_snapshot option"
  where "advance_step s t = (case advance s t of (d, s') \<Rightarrow> ([d], s'))"

text \<open>The gate over a list of messages; the state is the current session and the last time.\<close>

definition gate_step ::
  "session_snapshot option \<times> datetime \<Rightarrow> session_snapshot option \<times> datetime
     \<Rightarrow> session_snapshot option \<times> datetime" where
  "gate_step st m = (case st of (cur, applied) \<Rightarrow> case m of (inc, t) \<Rightarrow>
     snd (apply_server_message cur applied inc t))"

section \<open>Expiry\<close>

text \<open>A session that lets the machine be used at a given trusted time.\<close>

definition usable_at :: "session_snapshot option \<Rightarrow> datetime \<Rightarrow> bool" where
  "usable_at session t \<longleftrightarrow> (case session of None \<Rightarrow> False | Some s \<Rightarrow> status s = Active \<and> t < expires_at s)"

lemma advance_desired: "fst (advance session t) = (if usable_at session t then Allowed else Blocked)"
  by (auto simp: advance_def expire_locally_def usable_at_def split: option.splits)

lemma advance_session:
  "snd (advance session t) = map_option (\<lambda>s. expire_locally s t) session"
  by (simp add: advance_def Let_def)

lemma expire_locally_unchanged [simp]:
  "snap_id (expire_locally s t) = snap_id s"
  "expires_at (expire_locally s t) = expires_at s"
  "started_at (expire_locally s t) = started_at s"
  "updated_at (expire_locally s t) = updated_at s"
  by (simp_all add: expire_locally_def)

lemma usable_at_antimono: "usable_at session u \<Longrightarrow> t \<le> u \<Longrightarrow> usable_at session t"
  by (auto simp: usable_at_def split: option.splits)

lemma usable_at_max: "usable_at session (max t u) \<longleftrightarrow> usable_at session t \<and> usable_at session u"
  by (auto simp: usable_at_def split: option.splits)

text \<open>Once a tick has blocked, the session it leaves is unusable at every time, even an earlier one.\<close>

lemma advance_blocked_forever:
  "\<not> usable_at session t \<Longrightarrow> \<not> usable_at (snd (advance session t)) u"
  by (auto simp: advance_session usable_at_def expire_locally_def split: option.splits if_splits)

text \<open>A tick that allows leaves the session as it was.\<close>

lemma advance_allowed_unchanged: "usable_at session t \<Longrightarrow> snd (advance session t) = session"
  by (auto simp: advance_session usable_at_def expire_locally_def split: option.splits)

lemma usable_at_advance:
  "usable_at (snd (advance session t)) u \<longleftrightarrow> usable_at session t \<and> usable_at session u"
  by (auto simp: advance_session usable_at_def expire_locally_def split: option.splits if_splits)

lemma advance_step_simps [simp]:
  "fst (advance_step s t) = [if usable_at s t then Allowed else Blocked]"
  "snd (advance_step s t) = snd (advance s t)"
  by (simp_all add: advance_step_def split_beta advance_desired)

section \<open>The stale-message gate\<close>

text \<open>
  A register that keeps the newest of the values offered to it: the interface between the gate
  and its users, who need to know only that a newer offer replaces and an older one does not.
\<close>

locale newest_wins =
  fixes offer :: "'v \<times> 't::linorder \<Rightarrow> 'v \<times> 't \<Rightarrow> 'v \<times> 't"
  assumes newer: "t < u \<Longrightarrow> offer (v, t) (w, u) = (w, u)"
    and stale: "u \<le> t \<Longrightarrow> offer (v, t) (w, u) = (v, t)"
begin

lemma offer_max: "snd (offer r m) = max (snd r) (snd m)"
  by (cases r; cases m; cases "snd r < snd m") (auto simp: max_def newer stale not_less)

text \<open>The register ends up with a pair that was its own or was offered, at the greatest time.\<close>

lemma run_time: "snd (run offer r ms) = fold (\<lambda>m t. max t (snd m)) ms (snd r)"
  by (induction ms arbitrary: r) (auto simp: offer_max)

lemma run_member: "run offer r ms \<in> insert r (set ms)"
proof (induction ms arbitrary: r)
  case Nil
  show ?case by simp
next
  case (Cons m ms)
  have "offer r m = r \<or> offer r m = m"
    by (cases r; cases m) (metis newer stale not_le)
  with Cons.IH [of "offer r m"] show ?case by auto
qed

lemma run_greatest: "m \<in> insert r (set ms) \<Longrightarrow> snd m \<le> snd (run offer r ms)"
proof (induction ms arbitrary: r m)
  case Nil
  then show ?case by simp
next
  case (Cons k ms)
  have "snd (offer r k) \<le> snd (run offer (offer r k) ms)" by (rule Cons.IH) simp
  moreover have "snd m \<le> snd (run offer (offer r k) ms)" if "m \<in> set ms" using that Cons.IH by simp
  ultimately show ?case using Cons.prems by (auto simp: offer_max)
qed

text \<open>
  With no two different offers of the same time, the result is determined by the set of offers
  alone, so it does not depend on their order or on repetitions.
\<close>

lemma run_order_independent:
  assumes one: "inj_on snd (insert r (set ms))" and same: "set ms' = set ms"
  shows "run offer r ms' = run offer r ms"
proof -
  have "run offer r ms' \<in> insert r (set ms)" and "run offer r ms \<in> insert r (set ms)"
    using run_member [of r ms'] run_member [of r ms] same by auto
  moreover have "snd (run offer r ms') = snd (run offer r ms)"
    using run_greatest [of _ r ms] run_greatest [of _ r ms'] run_member [of r ms]
      run_member [of r ms'] same by (metis order_antisym)
  ultimately show ?thesis using one by (meson inj_onD)
qed

end

interpretation gate: newest_wins gate_step
  by unfold_locales (auto simp: gate_step_def apply_server_message_def)

interpretation gate_time: forward_mark gate_step snd
  by unfold_locales (simp add: gate.offer_max)

section \<open>Properties\<close>

text \<open>One tick of \<open>advance\<close> allows use exactly when there is a session whose status is ACTIVE
  and the trusted time is strictly before its absolute deadline; otherwise it blocks, and an
  ACTIVE session whose deadline has come is marked EXPIRED while every other field is kept.\<close>

theorem advance_exact:
  "advance session t =
     (if usable_at session t then (Allowed, session)
      else (Blocked, map_option (\<lambda>s. if status s = Active then s\<lparr>status := Expired\<rparr> else s) session))"
proof (rule prod_eqI)
  show "fst (advance session t) = fst (if usable_at session t then (Allowed, session)
      else (Blocked, map_option (\<lambda>s. if status s = Active then s\<lparr>status := Expired\<rparr> else s) session))"
    by (simp add: advance_desired)
  show "snd (advance session t) = snd (if usable_at session t then (Allowed, session)
      else (Blocked, map_option (\<lambda>s. if status s = Active then s\<lparr>status := Expired\<rparr> else s) session))"
    by (auto simp: advance_session usable_at_def expire_locally_def split: option.splits)
qed

text \<open>Over any sequence of ticks, whatever the clock readings do, each tick is judged as if by the
  greatest reading seen so far: a reading that goes back never reopens a session that an earlier
  tick has closed.\<close>

theorem advance_judges_by_running_max:
  "fst (run_out advance_step s ts) =
     map (\<lambda>n. if usable_at s (Max (set (take (Suc n) ts))) then Allowed else Blocked)
         [0..<length ts]"
proof (induction ts arbitrary: s)
  case Nil
  show ?case by simp
next
  case (Cons t ts)
  have "Max (set (take (Suc (Suc n)) (t # ts))) = max t (Max (set (take (Suc n) ts)))"
    if "n < length ts" for n
    using that by (cases ts) simp_all
  then show ?case
    by (simp add: Cons.IH usable_at_advance usable_at_max map_upt_Suc del: upt_Suc)
qed

text \<open>The stale-message gate makes delivery order irrelevant: when no two different messages
  carry the same time, any reordering or repetition of the same messages ends in the same session
  and the same last-applied time.\<close>

theorem gate_order_independent:
  assumes "inj_on snd (insert (cur, applied) (set ms))" and "set ms' = set ms"
  shows "run gate_step (cur, applied) ms' = run gate_step (cur, applied) ms"
  using assms by (rule gate.run_order_independent)

definition example_session :: session_snapshot where
  "example_session = \<lparr>snap_id = ''s1'', started_at = 0, expires_at = secs 1800, status = Active,
     updated_at = 0\<rparr>"

theorem gate_order_independent_witness:
  "run gate_step (None, 0) [(None, 5), (Some example_session, 3), (None, 5)] =
   run gate_step (None, 0) [(Some example_session, 3), (None, 5)]"
  by (rule gate_order_independent) (auto simp: inj_on_def)

text \<open>The gate keeps the newest message: whatever else is delivered before or after it, a
  message strictly newer than the local state and than every other message is the one in force
  at the end, and it is never replaced by a stale one.\<close>

theorem gate_keeps_newest:
  assumes "m \<in> set ms" and "applied < snd m" and "\<forall>k \<in> set ms. k \<noteq> m \<longrightarrow> snd k < snd m"
  shows "run gate_step (cur, applied) ms = m"
proof -
  let ?r = "run gate_step (cur, applied) ms"
  have "?r \<in> insert (cur, applied) (set ms)" and "snd m \<le> snd ?r"
    using gate.run_member gate.run_greatest assms(1) by blast+
  with assms(2,3) show ?thesis by (auto simp: not_less [symmetric])
qed

theorem gate_keeps_newest_witness:
  "run gate_step (None, 0) [(None, 2), (Some example_session, 7), (None, 5)] = (Some example_session, 7)"
  by (rule gate_keeps_newest) auto

end
