(* ===== verification/Platform.thy ===== *)
theory Platform imports Session begin

text \<open>
  The platform boundary of \<open>agent/src/platform/mod.rs\<close>: the notification data and the user-facing
  constants, and the interface of the notifier as a locale. A notifier is a state (the desktop and
  the handle kept in its mutex) and the three operations of the trait; what the trait's comments
  promise and every platform keeps is stated as the laws.
\<close>

datatype urgency = Normal | Critical

record notice =
  title :: string
  body :: string
  urgency_of :: urgency

definition APP_NAME :: string where "APP_NAME = ''Taymna''"

definition FINAL_WARNING_HEADLINE :: string where
  "FINAL_WARNING_HEADLINE = ''SESSION ENDING''"

definition FINAL_WARNING_BODY :: string where
  "FINAL_WARNING_BODY = ''Save your work and sign out of your accounts. This computer will lock when the timer reaches zero.''"

section \<open>Numbers as text\<close>

text \<open>\<open>to_string\<close> of an integer, as \<open>format!\<close> prints it: decimal digits, a minus sign in front.\<close>

fun nat_digits :: "nat \<Rightarrow> string" where
  "nat_digits n = (if n < 10 then [char_of (48 + n)] else nat_digits (n div 10) @ [char_of (48 + n mod 10)])"

declare nat_digits.simps [simp del]

definition show_int :: "int \<Rightarrow> string" where
  "show_int i = (if i < 0 then CHR ''-'' # nat_digits (nat (- i)) else nat_digits (nat i))"

lemma nat_digits_small: "n < 10 \<Longrightarrow> nat_digits n = [char_of (48 + n)]"
  by (simp add: nat_digits.simps)

lemma nat_digits_big: "10 \<le> n \<Longrightarrow> nat_digits n = nat_digits (n div 10) @ [char_of (48 + n mod 10)]"
  by (subst nat_digits.simps) simp

lemma nat_digits_nonempty [simp]: "nat_digits n \<noteq> []"
  by (subst nat_digits.simps) simp

definition is_digit :: "char \<Rightarrow> bool" where
  "is_digit c \<longleftrightarrow> 48 \<le> (of_char c :: nat) \<and> (of_char c :: nat) \<le> 57"

lemma nat_digits_are_digits: "list_all is_digit (nat_digits n)"
proof (induction n rule: nat_digits.induct)
  case (1 n)
  have d: "is_digit (char_of (48 + k))" if "k < 10" for k :: nat
    using that by (simp add: is_digit_def of_char_of)
  show ?case
  proof (cases "n < 10")
    case True
    then show ?thesis using d by (simp add: nat_digits_small)
  next
    case False
    then show ?thesis using 1 d by (simp add: nat_digits_big)
  qed
qed

section \<open>The notifier interface\<close>

text \<open>
  \<open>held\<close> says whether the notifier keeps the handle of a final warning it put on screen, which is
  what \<open>dismiss_final_warning\<close> acts on. Every implementation starts \<open>show_final_warning\<close> with a
  dismissal, so at most one is held at any time.
\<close>

locale user_notifier =
  fixes notify :: "notice \<Rightarrow> 'd \<Rightarrow> 'd"
    and show_final_warning :: "int \<Rightarrow> 'd \<Rightarrow> 'd"
    and dismiss_final_warning :: "'d \<Rightarrow> 'd"
    and held :: "'d \<Rightarrow> bool"
    and inv :: "'d \<Rightarrow> bool"
  assumes notify_held: "inv d \<Longrightarrow> held (notify n d) = held d"
    and dismiss_held: "inv d \<Longrightarrow> \<not> held (dismiss_final_warning d)"
    and notify_inv: "inv d \<Longrightarrow> inv (notify n d)"
    and show_inv: "inv d \<Longrightarrow> inv (show_final_warning s d)"
    and dismiss_inv: "inv d \<Longrightarrow> inv (dismiss_final_warning d)"

end
