(* ===== verification/Warning.thy ===== *)
theory Warning imports Platform begin

text \<open>
  The expiry warnings of \<open>agent/src/warning.rs\<close>: which level the remaining time calls for, the
  text of a notice, and \<open>reconcile\<close>, evaluated once per enforcement tick with the session and the
  trusted time that enforcement used. The lemmas show that a deadline's levels fire at most once
  and only toward more urgent, that the belief about the final warning on screen is exact, that
  nothing is announced for a session that cannot be used, and that a countdown without long gaps
  announces the whole ladder.
\<close>

section \<open>Thresholds and levels\<close>

definition TEN_MINUTES :: int where "TEN_MINUTES = 10 * 60"
definition FIVE_MINUTES :: int where "FIVE_MINUTES = 5 * 60"
definition ONE_MINUTE :: int where "ONE_MINUTE = 60"
definition FINAL :: int where "FINAL = 30"
definition CONTINUITY_GAP :: int where "CONTINUITY_GAP = 30"

lemmas thresholds = TEN_MINUTES_def FIVE_MINUTES_def ONE_MINUTE_def FINAL_def CONTINUITY_GAP_def

datatype level = TenMinutes | FiveMinutes | OneMinute | Final

text \<open>The derived \<open>Ord\<close>: in order of declaration, so by increasing urgency.\<close>

fun level_rank :: "level \<Rightarrow> nat" where
  "level_rank TenMinutes = 0"
| "level_rank FiveMinutes = 1"
| "level_rank OneMinute = 2"
| "level_rank Final = 3"

lemma level_rank_inject [simp]: "level_rank a = level_rank b \<longleftrightarrow> a = b"
  by (cases a; cases b) auto

instantiation level :: linorder
begin
definition less_eq_level :: "level \<Rightarrow> level \<Rightarrow> bool" where "a \<le> b \<longleftrightarrow> level_rank a \<le> level_rank b"
definition less_level :: "level \<Rightarrow> level \<Rightarrow> bool" where "a < b \<longleftrightarrow> level_rank a < level_rank b"
instance by standard (auto simp: less_eq_level_def less_level_def)
end

lemmas level_order = less_eq_level_def less_level_def

datatype warning_effect =
    Notify notice
  | ShowFinalWarning int
  | DismissFinalWarning

record deadline_key =
  dk_session_id :: string
  dk_expires_at :: datetime

record expiry_warnings =
  w_key :: "deadline_key option"
  w_fired :: "level option"
  w_last_seen :: "datetime option"
  w_final_visible :: bool

definition warnings_new :: expiry_warnings where
  "warnings_new = \<lparr>w_key = None, w_fired = None, w_last_seen = None, w_final_visible = False\<rparr>"

section \<open>Operations\<close>

definition level_for :: "int \<Rightarrow> level option" where
  "level_for remaining =
     (if remaining \<le> FINAL then Some Final
      else if remaining \<le> ONE_MINUTE then Some OneMinute
      else if remaining \<le> FIVE_MINUTES then Some FiveMinutes
      else if remaining \<le> TEN_MINUTES then Some TenMinutes
      else None)"

definition arriving_late_level :: "int \<Rightarrow> level option" where
  "arriving_late_level remaining =
     (if remaining \<le> ONE_MINUTE then Some Final else level_for remaining)"

text \<open>Division of \<open>i64\<close> truncates toward zero; \<open>remaining + 30\<close> is positive wherever it is called.\<close>

definition trunc_div :: "int \<Rightarrow> int \<Rightarrow> int" where
  "trunc_div a b = sgn a * sgn b * (\<bar>a\<bar> div \<bar>b\<bar>)"

definition notice_for :: "level \<Rightarrow> int \<Rightarrow> notice" where
  "notice_for l remaining =
     (let minutes = trunc_div (remaining + 30) 60;
          t = show_int minutes @ '' minute'' @ (if minutes = 1 then '''' else ''s'') @ '' remaining'';
          (b, u) = (case l of
             TenMinutes \<Rightarrow>
               (''Your Taymna session will end soon. Save your work before time runs out.'', Normal)
           | FiveMinutes \<Rightarrow>
               (''Save your work and sign out of your accounts before this computer locks.'', Normal)
           | OneMinute \<Rightarrow>
               (''Your session is about to end. Save your work and sign out now.'', Critical)
           | Final \<Rightarrow>
               (''Your session is about to end. Save your work and sign out now.'', Critical))
      in \<lparr>title = t, body = b, urgency_of = u\<rparr>)"

definition dismiss_final :: "expiry_warnings \<Rightarrow> warning_effect list \<times> expiry_warnings" where
  "dismiss_final w =
     (if w_final_visible w then ([DismissFinalWarning], w\<lparr>w_final_visible := False\<rparr>) else ([], w))"

text \<open>The key of a session: only an ACTIVE one has a deadline to warn about.\<close>

definition key_of :: "session_snapshot option \<Rightarrow> deadline_key option" where
  "key_of session = (case session of
     Some s \<Rightarrow> if status s = Active then Some \<lparr>dk_session_id = snap_id s, dk_expires_at = expires_at s\<rparr>
               else None
   | None \<Rightarrow> None)"

text \<open>The first step of \<open>reconcile\<close>: a changed key takes the final warning down and starts over.\<close>

definition rekey :: "deadline_key option \<Rightarrow> expiry_warnings \<Rightarrow> warning_effect list \<times> expiry_warnings"
  where
  "rekey key w =
     (if key \<noteq> w_key w
      then case dismiss_final w of (effects, w') \<Rightarrow>
        (effects, w'\<lparr>w_key := key, w_fired := None, w_last_seen := None\<rparr>)
      else ([], w))"

text \<open>The level an evaluation calls for, given the time of the previous evaluation.\<close>

definition due_level :: "datetime option \<Rightarrow> datetime \<Rightarrow> int \<Rightarrow> level option" where
  "due_level previous now remaining =
     (let arrived_late = (case previous of
            None \<Rightarrow> True
          | Some before \<Rightarrow> num_seconds (now - before) > CONTINUITY_GAP)
      in if arrived_late then arriving_late_level remaining else level_for remaining)"

text \<open>The last step: announce a level unless one at least as urgent has fired already.\<close>

definition announce :: "level option \<Rightarrow> int \<Rightarrow> expiry_warnings \<Rightarrow> warning_effect list \<times> expiry_warnings"
  where
  "announce due remaining w =
     (case due of
        None \<Rightarrow> ([], w)
      | Some l \<Rightarrow>
          if (case w_fired w of None \<Rightarrow> False | Some already \<Rightarrow> l \<le> already) then ([], w)
          else if l = Final
          then ([ShowFinalWarning remaining], w\<lparr>w_fired := Some l, w_final_visible := True\<rparr>)
          else ([Notify (notice_for l remaining)], w\<lparr>w_fired := Some l\<rparr>))"

definition reconcile ::
  "expiry_warnings \<Rightarrow> session_snapshot option \<Rightarrow> datetime \<Rightarrow> warning_effect list \<times> expiry_warnings"
  where
  "reconcile w session now =
     (case rekey (key_of session) w of (effects, w1) \<Rightarrow>
        case w_key w1 of
          None \<Rightarrow> (effects, w1)
        | Some deadline \<Rightarrow>
            let remaining = num_seconds (dk_expires_at deadline - now);
                previous = w_last_seen w1;
                w2 = w1\<lparr>w_last_seen := Some now\<rparr>
            in if remaining \<le> 0
               then (case dismiss_final w2 of (rest, w3) \<Rightarrow> (effects @ rest, w3))
               else (case announce (due_level previous now remaining) remaining w2 of
                       (rest, w3) \<Rightarrow> (effects @ rest, w3)))"

text \<open>\<open>apply\<close>: one effect handed to a notifier, given by its three operations.\<close>

fun apply_effect ::
  "(notice \<Rightarrow> 'd \<Rightarrow> 'd) \<Rightarrow> (int \<Rightarrow> 'd \<Rightarrow> 'd) \<Rightarrow> ('d \<Rightarrow> 'd) \<Rightarrow> warning_effect \<Rightarrow> 'd \<Rightarrow> 'd" where
  "apply_effect notify show_final dismiss (Notify n) d = notify n d"
| "apply_effect notify show_final dismiss (ShowFinalWarning r) d = show_final r d"
| "apply_effect notify show_final dismiss DismissFinalWarning d = dismiss d"

section \<open>Lemmas\<close>

text \<open>The inputs of a run of the warnings are the pairs of a session and a trusted time.\<close>

definition reconcile_in ::
  "expiry_warnings \<Rightarrow> session_snapshot option \<times> datetime \<Rightarrow> warning_effect list \<times> expiry_warnings"
  where "reconcile_in w i = reconcile w (fst i) (snd i)"

lemma reconcile_in_simp [simp]: "reconcile_in w (session, now) = reconcile w session now"
  by (simp add: reconcile_in_def)

text \<open>Seconds left to a session's deadline, as \<open>reconcile\<close> computes them.\<close>

definition remaining_secs :: "session_snapshot option \<Rightarrow> datetime \<Rightarrow> int" where
  "remaining_secs session now =
     (case key_of session of None \<Rightarrow> 0 | Some k \<Rightarrow> num_seconds (dk_expires_at k - now))"

lemma key_of_Some_iff:
  "key_of session = Some k \<longleftrightarrow> (\<exists>s. session = Some s \<and> status s = Active \<and>
     k = \<lparr>dk_session_id = snap_id s, dk_expires_at = expires_at s\<rparr>)"
  by (auto simp: key_of_def split: option.splits)

lemma remaining_key: "0 < remaining_secs session now \<Longrightarrow> key_of session \<noteq> None"
  by (auto simp: remaining_secs_def split: option.splits)

lemma usable_remaining:
  "0 < remaining_secs session now \<Longrightarrow> usable_at session now"
  by (auto simp: remaining_secs_def usable_at_def key_of_def num_seconds_pos_iff split: option.splits if_splits)

lemma level_order_cases [simp]:
  "l \<le> Final" "TenMinutes \<le> l" "Final \<le> l \<longleftrightarrow> l = Final" "l \<le> TenMinutes \<longleftrightarrow> l = TenMinutes"
  by (cases l; simp add: level_order)+

lemma level_for_cases:
  "level_for r = (if r \<le> 30 then Some Final else if r \<le> 60 then Some OneMinute
     else if r \<le> 300 then Some FiveMinutes else if r \<le> 600 then Some TenMinutes else None)"
  by (simp add: level_for_def thresholds)

lemma arriving_late_level_cases:
  "arriving_late_level r = (if r \<le> 60 then Some Final
     else if r \<le> 300 then Some FiveMinutes else if r \<le> 600 then Some TenMinutes else None)"
  by (simp add: arriving_late_level_def level_for_cases thresholds)

lemma due_level_cases:
  "due_level prev now r =
     (if prev = None \<or> (\<exists>p. prev = Some p \<and> num_seconds (now - p) > 30) then arriving_late_level r
      else level_for r)"
  by (auto simp: due_level_def thresholds split: option.splits)

text \<open>Whatever path an evaluation takes, the level it calls for is at least the nominal one.\<close>

lemma due_level_ge_level_for:
  "level_for r = Some l \<Longrightarrow> \<exists>l'. due_level prev now r = Some l' \<and> l \<le> l'"
  by (cases l) (auto simp: due_level_cases level_for_cases arriving_late_level_cases level_order
      split: if_splits)

lemma due_level_bounds:
  "due_level prev now r = Some l \<Longrightarrow> l \<noteq> Final \<Longrightarrow> 30 < r \<and> r \<le> 600"
  by (auto simp: due_level_cases level_for_cases arriving_late_level_cases split: if_splits)

subsection \<open>What one evaluation does\<close>

definition rekeyed :: "expiry_warnings \<Rightarrow> session_snapshot option \<Rightarrow> expiry_warnings" where
  "rekeyed w session = snd (rekey (key_of session) w)"

lemma rekey_key [simp]: "w_key (snd (rekey k w)) = k"
  by (auto simp: rekey_def dismiss_final_def)

lemma rekeyed_key [simp]: "w_key (rekeyed w session) = key_of session"
  by (simp add: rekeyed_def)

text \<open>The three kinds of evaluation: nothing to warn about, deadline reached, time left.\<close>

lemma reconcile_cases:
  "reconcile w session now =
     (let pre = fst (rekey (key_of session) w); w1 = rekeyed w session; r = remaining_secs session now
      in if key_of session = None then (pre, w1)
         else if r \<le> 0 then
           (pre @ fst (dismiss_final w1), snd (dismiss_final (w1\<lparr>w_last_seen := Some now\<rparr>)))
         else (pre @ fst (announce (due_level (w_last_seen w1) now r) r w1),
               snd (announce (due_level (w_last_seen w1) now r) r (w1\<lparr>w_last_seen := Some now\<rparr>))))"
proof -
  have d: "fst (dismiss_final (x\<lparr>w_last_seen := y\<rparr>)) = fst (dismiss_final x)" for x y
    by (simp add: dismiss_final_def)
  have a: "fst (announce l r (x\<lparr>w_last_seen := y\<rparr>)) = fst (announce l r x)" for l r x y
    by (simp add: announce_def split: option.splits)
  show ?thesis
    by (cases "key_of session")
       (simp_all add: reconcile_def rekeyed_def remaining_secs_def Let_def split_beta d a)
qed

text \<open>The level an effect announces to the user: the texts of the notices differ by level.\<close>

definition level_of_effect :: "warning_effect \<Rightarrow> level option" where
  "level_of_effect e = (case e of
     Notify n \<Rightarrow>
       if body n = body (notice_for TenMinutes 0) then Some TenMinutes
       else if body n = body (notice_for FiveMinutes 0) then Some FiveMinutes
       else Some OneMinute
   | ShowFinalWarning _ \<Rightarrow> Some Final
   | DismissFinalWarning \<Rightarrow> None)"

lemma level_of_notice [simp]: "l \<noteq> Final \<Longrightarrow> level_of_effect (Notify (notice_for l r)) = Some l"
  by (cases l) (simp_all add: level_of_effect_def notice_for_def Let_def)

lemma level_of_show [simp]: "level_of_effect (ShowFinalWarning r) = Some Final"
  by (simp add: level_of_effect_def)

lemma level_of_dismiss [simp]: "level_of_effect DismissFinalWarning = None"
  by (simp add: level_of_effect_def)

abbreviation levels_of :: "warning_effect list \<Rightarrow> level list" where
  "levels_of es \<equiv> List.map_filter level_of_effect es"

lemma dismiss_levels [simp]: "levels_of (fst (dismiss_final w)) = []"
  by (simp add: dismiss_final_def List.map_filter_def)

lemma rekey_levels [simp]: "levels_of (fst (rekey k w)) = []"
  by (simp add: rekey_def dismiss_final_def List.map_filter_def)

lemma map_filter_append [simp]:
  "List.map_filter f (xs @ ys) = List.map_filter f xs @ List.map_filter f ys"
  by (simp add: List.map_filter_def)

lemma announce_levels:
  "levels_of (fst (announce due r w)) =
     (case due of None \<Rightarrow> [] | Some l \<Rightarrow>
        if (\<exists>a. w_fired w = Some a \<and> l \<le> a) then [] else [l])"
  by (auto simp: announce_def List.map_filter_def split: option.splits)

lemma announce_fired:
  "w_fired (snd (announce due r w)) =
     (case due of None \<Rightarrow> w_fired w | Some l \<Rightarrow>
        if (\<exists>a. w_fired w = Some a \<and> l \<le> a) then w_fired w else Some l)"
  by (auto simp: announce_def split: option.splits)

lemma announce_key [simp]: "w_key (snd (announce due r w)) = w_key w"
  by (auto simp: announce_def split: option.splits)

lemma dismiss_final_fields [simp]:
  "w_key (snd (dismiss_final w)) = w_key w"
  "w_fired (snd (dismiss_final w)) = w_fired w"
  "w_final_visible (snd (dismiss_final w)) = False"
  by (auto simp: dismiss_final_def)

text \<open>An evaluation announces at most one level, more urgent than what had fired for the deadline.\<close>

lemma reconcile_levels:
  "\<exists>ls. levels_of (fst (reconcile w session now)) = ls \<and>
     (ls = [] \<and> w_fired (snd (reconcile w session now)) = w_fired (rekeyed w session) \<or>
      (\<exists>l. ls = [l] \<and> w_fired (snd (reconcile w session now)) = Some l \<and>
         (\<forall>a. w_fired (rekeyed w session) = Some a \<longrightarrow> a < l)))"
  by (auto simp: reconcile_cases Let_def announce_levels announce_fired not_le split: option.splits)

lemma reconcile_key [simp]: "w_key (snd (reconcile w session now)) = key_of session"
  by (simp add: reconcile_cases Let_def)

lemma rekeyed_same: "w_key w = key_of session \<Longrightarrow> rekeyed w session = w"
  by (simp add: rekeyed_def rekey_def)

subsection \<open>Evaluations of one deadline\<close>

text \<open>Levels announced while the session's deadline stays the same are strictly more urgent than what
  had fired, and strictly increasing.\<close>

lemma same_key_levels:
  assumes "w_key w = key_of session"
  shows "sorted_wrt (<) (levels_of (fst (run_out reconcile_in w (map (Pair session) ts)))) \<and>
     (\<forall>l \<in> set (levels_of (fst (run_out reconcile_in w (map (Pair session) ts)))).
        \<forall>a. w_fired w = Some a \<longrightarrow> a < l)"
  using assms
proof (induction ts arbitrary: w)
  case Nil
  then show ?case by (simp add: List.map_filter_def)
next
  case (Cons t ts)
  let ?w = "snd (reconcile w session t)"
  have IH: "sorted_wrt (<) (levels_of (fst (run_out reconcile_in ?w (map (Pair session) ts))))"
    "\<And>l a. l \<in> set (levels_of (fst (run_out reconcile_in ?w (map (Pair session) ts))))
       \<Longrightarrow> w_fired ?w = Some a \<Longrightarrow> a < l"
    using Cons.IH [of ?w] by simp_all
  have "levels_of (fst (reconcile w session t)) = [] \<and> w_fired ?w = w_fired w \<or>
      (\<exists>l. levels_of (fst (reconcile w session t)) = [l] \<and> w_fired ?w = Some l \<and>
         (\<forall>a. w_fired w = Some a \<longrightarrow> a < l))"
    using reconcile_levels [of w session t] Cons.prems by (simp add: rekeyed_same)
  then show ?case
  proof (elim disjE exE conjE)
    assume "levels_of (fst (reconcile w session t)) = []" and "w_fired ?w = w_fired w"
    with IH show ?thesis by simp
  next
    fix l
    assume "levels_of (fst (reconcile w session t)) = [l]" and "w_fired ?w = Some l"
      and "\<forall>a. w_fired w = Some a \<longrightarrow> a < l"
    with IH show ?thesis by fastforce
  qed
qed

subsection \<open>The final warning on screen\<close>

text \<open>What a list of effects does to a screen that shows a final warning or not.\<close>

fun screen_effect :: "warning_effect \<Rightarrow> bool \<Rightarrow> bool" where
  "screen_effect (Notify _) v = v"
| "screen_effect (ShowFinalWarning _) v = True"
| "screen_effect DismissFinalWarning v = False"

abbreviation screen_after :: "warning_effect list \<Rightarrow> bool \<Rightarrow> bool" where
  "screen_after es v \<equiv> fold screen_effect es v"

lemma dismiss_screen: "screen_after (fst (dismiss_final w)) (w_final_visible w) = False"
  by (simp add: dismiss_final_def)

lemma rekey_screen:
  "screen_after (fst (rekey k w)) (w_final_visible w) = w_final_visible (snd (rekey k w))"
  by (simp add: rekey_def dismiss_final_def)

lemma announce_screen:
  "screen_after (fst (announce due r w)) (w_final_visible w) = w_final_visible (snd (announce due r w))"
  by (auto simp: announce_def split: option.splits)

lemma dismiss_final_seen [simp]:
  "w_final_visible (snd (announce due r (w\<lparr>w_last_seen := y\<rparr>))) = w_final_visible (snd (announce due r w))"
  by (auto simp: announce_def split: option.splits)

lemma reconcile_screen:
  "screen_after (fst (reconcile w session now)) (w_final_visible w) =
     w_final_visible (snd (reconcile w session now))"
  using rekey_screen [of "key_of session" w]
  by (auto simp: reconcile_cases Let_def rekeyed_def dismiss_screen announce_screen)

text \<open>A final warning believed to be on screen belongs to the deadline in force.\<close>

definition warnings_inv :: "expiry_warnings \<Rightarrow> bool" where
  "warnings_inv w \<longleftrightarrow> (w_final_visible w \<longrightarrow> w_key w \<noteq> None \<and> w_fired w = Some Final)"

lemma warnings_inv_new: "warnings_inv warnings_new"
  by (simp add: warnings_inv_def warnings_new_def)

lemma rekey_inv: "warnings_inv w \<Longrightarrow> warnings_inv (snd (rekey k w))"
  by (auto simp: warnings_inv_def rekey_def dismiss_final_def)

lemma reconcile_inv: "warnings_inv w \<Longrightarrow> warnings_inv (snd (reconcile w session now))"
  using rekey_inv [of w "key_of session"] rekey_key [of "key_of session" w]
  by (auto simp: reconcile_cases Let_def warnings_inv_def rekeyed_def announce_def dismiss_final_def
      split: option.splits)

lemma reachable_inv: "warnings_inv (snd (run_out reconcile_in warnings_new ins))"
proof -
  have "warnings_inv (snd (reconcile_in w i))" if "warnings_inv w" for w i
    using that by (cases i) (simp add: reconcile_inv)
  then show ?thesis
    using run_out_invariant [of warnings_inv warnings_new reconcile_in "\<lambda>_. True"] warnings_inv_new
    by (simp add: list.pred_True)
qed

subsection \<open>Silence\<close>

lemma quiet_reconcile:
  assumes "warnings_inv w" and "remaining_secs session now \<le> 0"
  shows "fst (reconcile w session now) = (if w_final_visible w then [DismissFinalWarning] else [])"
    and "\<not> w_final_visible (snd (reconcile w session now))"
  using assms
  by (auto simp: reconcile_cases Let_def rekeyed_def rekey_def dismiss_final_def warnings_inv_def)

lemma reconcile_final_fired:
  assumes "w_key w = key_of session" and "w_fired w = Some Final"
  shows "set (fst (reconcile w session now)) \<subseteq> {DismissFinalWarning}"
    and "w_fired (snd (reconcile w session now)) = Some Final"
  using assms
  by (auto simp: reconcile_cases Let_def rekeyed_def rekey_def dismiss_final_def announce_def
      split: option.splits)

lemma final_fired_run:
  assumes "w_key w = key_of session" and "w_fired w = Some Final"
  shows "set (fst (run_out reconcile_in w (map (Pair session) ts))) \<subseteq> {DismissFinalWarning}"
  using assms
proof (induction ts arbitrary: w)
  case Nil
  then show ?case by simp
next
  case (Cons t ts)
  let ?w = "snd (reconcile w session t)"
  have "set (fst (reconcile w session t)) \<subseteq> {DismissFinalWarning}"
    using reconcile_final_fired(1) [OF Cons.prems] .
  moreover have "set (fst (run_out reconcile_in ?w (map (Pair session) ts))) \<subseteq> {DismissFinalWarning}"
    using Cons.IH [of ?w] reconcile_final_fired(2) [OF Cons.prems] by simp
  ultimately show ?case by simp
qed

subsection \<open>A new deadline\<close>

lemma reconcile_new_key:
  assumes "key_of session \<noteq> w_key w"
  shows "reconcile w session now =
     (fst (dismiss_final w) @ fst (reconcile warnings_new session now),
      snd (reconcile warnings_new session now))"
  using assms
  by (auto simp: reconcile_cases Let_def rekeyed_def rekey_def dismiss_final_def warnings_new_def
      announce_def split: option.splits)

lemma reconcile_fresh:
  assumes "0 < remaining_secs session now"
  shows "reconcile warnings_new session now =
     (case arriving_late_level (remaining_secs session now) of
        None \<Rightarrow> ([], \<lparr>w_key = key_of session, w_fired = None, w_last_seen = Some now, w_final_visible = False\<rparr>)
      | Some l \<Rightarrow>
          ([if l = Final then ShowFinalWarning (remaining_secs session now)
            else Notify (notice_for l (remaining_secs session now))],
           \<lparr>w_key = key_of session, w_fired = Some l, w_last_seen = Some now, w_final_visible = (l = Final)\<rparr>))"
  using assms
  by (auto simp: reconcile_cases Let_def rekeyed_def rekey_def dismiss_final_def warnings_new_def
      announce_def due_level_cases remaining_secs_def split: option.splits)

subsection \<open>A countdown without long gaps\<close>

text \<open>Times at most \<open>g\<close> apart and never going back, starting from \<open>p\<close>.\<close>

fun paced :: "timedelta \<Rightarrow> datetime \<Rightarrow> datetime list \<Rightarrow> bool" where
  "paced g p [] = True"
| "paced g p (t # ts) = (p \<le> t \<and> t - p \<le> g \<and> paced g t ts)"

text \<open>The texts a full countdown shows, and what is still to come once a level has fired.\<close>

definition ten_minute_notice :: notice where
  "ten_minute_notice = \<lparr>title = ''10 minutes remaining'',
     body = ''Your Taymna session will end soon. Save your work before time runs out.'',
     urgency_of = Normal\<rparr>"

definition five_minute_notice :: notice where
  "five_minute_notice = \<lparr>title = ''5 minutes remaining'',
     body = ''Save your work and sign out of your accounts before this computer locks.'',
     urgency_of = Normal\<rparr>"

definition one_minute_notice :: notice where
  "one_minute_notice = \<lparr>title = ''1 minute remaining'',
     body = ''Your session is about to end. Save your work and sign out now.'',
     urgency_of = Critical\<rparr>"

fun to_come :: "level option \<Rightarrow> int \<Rightarrow> warning_effect list" where
  "to_come None r = [Notify ten_minute_notice, Notify five_minute_notice, Notify one_minute_notice,
     ShowFinalWarning r, DismissFinalWarning]"
| "to_come (Some TenMinutes) r = [Notify five_minute_notice, Notify one_minute_notice,
     ShowFinalWarning r, DismissFinalWarning]"
| "to_come (Some FiveMinutes) r = [Notify one_minute_notice, ShowFinalWarning r, DismissFinalWarning]"
| "to_come (Some OneMinute) r = [ShowFinalWarning r, DismissFinalWarning]"
| "to_come (Some Final) r = [DismissFinalWarning]"

lemma show_int_examples: "show_int 10 = ''10''" "show_int 5 = ''5''" "show_int 1 = ''1''"
  by code_simp+

lemma trunc_div_pos: "0 \<le> a \<Longrightarrow> 0 < b \<Longrightarrow> trunc_div a b = a div b"
  by (cases "a = 0") (simp_all add: trunc_div_def sgn_if)

lemma crossing_notices:
  "570 < r \<Longrightarrow> r \<le> 600 \<Longrightarrow> notice_for TenMinutes r = ten_minute_notice"
  "270 < r \<Longrightarrow> r \<le> 300 \<Longrightarrow> notice_for FiveMinutes r = five_minute_notice"
  "30 < r \<Longrightarrow> r \<le> 60 \<Longrightarrow> notice_for OneMinute r = one_minute_notice"
proof -
  assume "570 < r" "r \<le> 600"
  then have "trunc_div (r + 30) 60 = 10" by (subst trunc_div_pos) linarith+
  then show "notice_for TenMinutes r = ten_minute_notice"
    by (simp add: notice_for_def ten_minute_notice_def show_int_examples)
next
  assume "270 < r" "r \<le> 300"
  then have "trunc_div (r + 30) 60 = 5" by (subst trunc_div_pos) linarith+
  then show "notice_for FiveMinutes r = five_minute_notice"
    by (simp add: notice_for_def five_minute_notice_def show_int_examples)
next
  assume "30 < r" "r \<le> 60"
  then have "trunc_div (r + 30) 60 = 1" by (subst trunc_div_pos) linarith+
  then show "notice_for OneMinute r = one_minute_notice"
    by (simp add: notice_for_def one_minute_notice_def show_int_examples)
qed

text \<open>The warnings are in step with a countdown: what has fired is the nominal level of the previous
  evaluation, and the final warning is up exactly when it has fired.\<close>

definition in_step :: "expiry_warnings \<Rightarrow> session_snapshot option \<Rightarrow> datetime \<Rightarrow> bool" where
  "in_step w session p \<longleftrightarrow> w_key w = key_of session \<and> w_last_seen w = Some p
     \<and> w_fired w = level_for (remaining_secs session p)
     \<and> w_final_visible w = (level_for (remaining_secs session p) = Some Final)"

lemma remaining_paced:
  assumes "0 < remaining_secs session p" and "p \<le> t" and "t - p \<le> secs n"
  shows "remaining_secs session p - n \<le> remaining_secs session t"
    and "remaining_secs session t \<le> remaining_secs session p"
  using assms
  by (auto simp: remaining_secs_def num_seconds_pos_iff intro: num_seconds_delay num_seconds_mono
      split: option.splits)

lemma within_gap: "t - p \<le> secs 30 \<Longrightarrow> due_level (Some p) t r = level_for r"
  using num_seconds_mono [of "t - p" "30 * nanos_per_sec"]
  by (auto simp: due_level_cases secs_def simp del: num_seconds_secs simp add: num_seconds_secs [of 30, simplified])

lemma in_step_next:
  assumes "in_step w session p" and "t - p \<le> secs 30"
    and "0 < remaining_secs session t"
    and "remaining_secs session t \<le> remaining_secs session p"
  shows "in_step (snd (reconcile w session t)) session t \<and>
     fst (reconcile w session t) =
       (if level_for (remaining_secs session t) = level_for (remaining_secs session p) then []
        else if level_for (remaining_secs session t) = Some Final
             then [ShowFinalWarning (remaining_secs session t)]
        else [Notify (notice_for (the (level_for (remaining_secs session t))) (remaining_secs session t))])"
proof -
  let ?r = "remaining_secs session t"
  obtain k where k: "key_of session = Some k"
    using assms(3) by (auto simp: remaining_secs_def split: option.splits)
  have "rekeyed w session = w" and "fst (rekey (key_of session) w) = []"
    using assms(1) by (simp_all add: in_step_def rekeyed_def rekey_def)
  with k have "reconcile w session t =
      (fst (announce (level_for ?r) ?r w), snd (announce (level_for ?r) ?r (w\<lparr>w_last_seen := Some t\<rparr>)))"
    using assms(1-3) within_gap by (simp add: reconcile_cases Let_def in_step_def)
  then show ?thesis using assms(1,4)
    by (cases "level_for ?r"; cases "level_for (remaining_secs session p)")
       (auto simp: in_step_def announce_def level_for_cases level_order split: if_splits)
qed

text \<open>Once the deadline has been reached and the final warning is down, nothing more happens.\<close>

lemma remaining_gone:
  "remaining_secs session p \<le> 0 \<Longrightarrow> p \<le> t \<Longrightarrow> remaining_secs session t \<le> 0"
  by (cases "key_of session")
     (auto simp: remaining_secs_def intro: order_trans [OF num_seconds_mono [OF diff_left_mono]])

lemma after_deadline_silent:
  assumes "warnings_inv w" and "\<not> w_final_visible w" and "remaining_secs session p \<le> 0"
    and "paced g p ts"
  shows "fst (run_out reconcile_in w (map (Pair session) ts)) = []"
  using assms
proof (induction ts arbitrary: w p)
  case Nil
  then show ?case by simp
next
  case (Cons t ts)
  have r: "remaining_secs session t \<le> 0" using remaining_gone Cons.prems(3,4) by simp
  show ?case
    using quiet_reconcile [OF Cons.prems(1) r] Cons.prems(2,4)
      Cons.IH [OF reconcile_inv [OF Cons.prems(1)] _ r] by simp
qed

lemma in_step_inv: "in_step w session p \<Longrightarrow> 0 < remaining_secs session p \<Longrightarrow> warnings_inv w"
  by (auto simp: in_step_def warnings_inv_def remaining_secs_def split: option.splits)

text \<open>One step of the countdown takes the next rung of the ladder or none.\<close>

lemma countdown_rung:
  assumes "0 < r" and "r' - 30 \<le> r" and "r \<le> r'"
  shows "to_come (level_for r') f =
     (if level_for r = level_for r' then []
      else if level_for r = Some Final then [ShowFinalWarning f]
      else [Notify (notice_for (the (level_for r)) r)]) @ to_come (level_for r) f"
  using assms crossing_notices by (auto simp: level_for_cases)

lemma countdown_from:
  assumes "in_step w session p" and "0 < remaining_secs session p" and "paced (secs 30) p ts"
    and "remaining_secs session (last (p # ts)) \<le> 0"
  shows "\<exists>r. 0 < r \<and> r \<le> 30 \<and>
     fst (run_out reconcile_in w (map (Pair session) ts)) = to_come (level_for (remaining_secs session p)) r"
  using assms
proof (induction ts arbitrary: w p)
  case Nil
  then show ?case by simp
next
  case (Cons t ts)
  let ?r = "remaining_secs session t" and ?r' = "remaining_secs session p"
  let ?w = "snd (reconcile w session t)"
  from Cons.prems(3) have gap: "p \<le> t" "t - p \<le> secs 30" and rest: "paced (secs 30) t ts" by simp_all
  have near: "?r' - 30 \<le> ?r" "?r \<le> ?r'" using remaining_paced [OF Cons.prems(2) gap] .
  show ?case
  proof (cases "0 < ?r")
    case True
    have st: "in_step ?w session t \<and> fst (reconcile w session t) =
       (if level_for ?r = level_for ?r' then [] else if level_for ?r = Some Final then [ShowFinalWarning ?r]
        else [Notify (notice_for (the (level_for ?r)) ?r)])"
      using in_step_next [OF Cons.prems(1) gap(2) True near(2)] .
    obtain f where f: "0 < f" "f \<le> 30"
      "fst (run_out reconcile_in ?w (map (Pair session) ts)) = to_come (level_for ?r) f"
      using Cons.IH [of ?w t] st True rest Cons.prems(4) by auto
    show ?thesis
    proof (cases "level_for ?r = Some Final \<and> level_for ?r' \<noteq> Some Final")
      case True
      then have "?r \<le> 30" and ne: "Some Final \<noteq> level_for ?r'"
        by (auto simp: level_for_cases split: if_splits)
      moreover have "to_come (level_for ?r') ?r = [ShowFinalWarning ?r, DismissFinalWarning]"
        using countdown_rung [OF \<open>0 < ?r\<close> near, of ?r] True ne
        by simp
      ultimately show ?thesis using st f(3) True ne \<open>0 < ?r\<close> by (intro exI [of _ ?r]) simp
    next
      case False
      then show ?thesis using st f countdown_rung [OF True near, of f] by (intro exI [of _ f]) auto
    qed
  next
    case False
    then have final: "level_for ?r' = Some Final" using near Cons.prems(2) by (simp add: level_for_cases)
    have inv: "warnings_inv w" using in_step_inv [OF Cons.prems(1,2)] .
    have "fst (reconcile w session t) = [DismissFinalWarning]" and "\<not> w_final_visible ?w"
      using quiet_reconcile [OF inv, of session t] False final Cons.prems(1) by (auto simp: in_step_def)
    moreover have "fst (run_out reconcile_in ?w (map (Pair session) ts)) = []"
      using after_deadline_silent [OF reconcile_inv [OF inv] calculation(2) _ rest] False by simp
    ultimately show ?thesis using final by (intro exI [of _ 1]) simp
  qed
qed

subsection \<open>Announcements and what has fired\<close>

lemma fired_was_announced:
  assumes "w_key w = key_of session"
    and "w_fired (snd (run_out reconcile_in w (map (Pair session) ts))) = Some l"
  shows "w_fired w = Some l \<or> l \<in> set (levels_of (fst (run_out reconcile_in w (map (Pair session) ts))))"
  using assms
proof (induction ts arbitrary: w)
  case Nil
  then show ?case by simp
next
  case (Cons t ts)
  from Cons.IH [of "snd (reconcile w session t)"] Cons.prems
  have "w_fired (snd (reconcile w session t)) = Some l \<or> l \<in> set (levels_of
      (fst (run_out reconcile_in (snd (reconcile w session t)) (map (Pair session) ts))))"
    by simp
  then show ?case using reconcile_levels [of w session t] Cons.prems(1)
    by (auto simp: rekeyed_same)
qed

text \<open>Whatever had fired before, a positive number of seconds inside a threshold leaves a level at least
  as urgent as the nominal one fired.\<close>

lemma nominal_level_fired:
  assumes "0 < remaining_secs session now" and "level_for (remaining_secs session now) = Some l"
  shows "\<exists>l'. w_fired (snd (reconcile w session now)) = Some l' \<and> l \<le> l'"
proof -
  let ?r = "remaining_secs session now" and ?w = "rekeyed w session"
  have "key_of session \<noteq> None" using assms(1) by (rule remaining_key)
  obtain l' where "due_level (w_last_seen ?w) now ?r = Some l'" and "l \<le> l'"
    using due_level_ge_level_for [OF assms(2)] by blast
  then show ?thesis using assms(1) \<open>key_of session \<noteq> None\<close>
    by (auto simp: reconcile_cases Let_def announce_fired)
qed

lemma fresh_run_state:
  assumes "key_of session \<noteq> None"
  shows "run_out reconcile_in warnings_new (map (Pair session) ts) =
     run_out reconcile_in (warnings_new\<lparr>w_key := key_of session\<rparr>) (map (Pair session) ts) \<or> ts = []"
proof (cases ts)
  case Nil
  then show ?thesis by simp
next
  case (Cons t us)
  have "reconcile warnings_new session t = reconcile (warnings_new\<lparr>w_key := key_of session\<rparr>) session t"
    by (simp add: reconcile_cases Let_def rekeyed_def rekey_def dismiss_final_def warnings_new_def)
  then have "run_out reconcile_in warnings_new (map (Pair session) ts) =
      run_out reconcile_in (warnings_new\<lparr>w_key := key_of session\<rparr>) (map (Pair session) ts)"
    by (simp add: Cons prod_eq_iff)
  then show ?thesis ..
qed

section \<open>The notifier as a client of the effects\<close>

text \<open>The warnings thread: every effect is handed to the notifier, and when the channel closes a final
  warning still on screen is taken down.\<close>

definition warnings_thread ::
  "(notice \<Rightarrow> 'd \<Rightarrow> 'd) \<Rightarrow> (int \<Rightarrow> 'd \<Rightarrow> 'd) \<Rightarrow> ('d \<Rightarrow> 'd) \<Rightarrow> warning_effect list \<Rightarrow> 'd \<Rightarrow> 'd" where
  "warnings_thread notify show_final dismiss effects d =
     dismiss (fold (apply_effect notify show_final dismiss) effects d)"

context user_notifier begin

lemma apply_inv: "inv d \<Longrightarrow> inv (apply_effect notify show_final_warning dismiss_final_warning e d)"
  by (cases e) (auto intro: notify_inv show_inv dismiss_inv)

lemma fold_inv: "inv d \<Longrightarrow> inv (fold (apply_effect notify show_final_warning dismiss_final_warning) es d)"
  by (induction es arbitrary: d) (auto intro: apply_inv)

text \<open>A notifier never keeps a final warning that the effects so far have taken down.\<close>

lemma held_only_if_shown:
  assumes "inv d" and "held d \<Longrightarrow> v"
    and "held (fold (apply_effect notify show_final_warning dismiss_final_warning) es d)"
  shows "screen_after es v"
  using assms
proof (induction es arbitrary: d v)
  case Nil
  then show ?case by simp
next
  case (Cons e es)
  have "held (apply_effect notify show_final_warning dismiss_final_warning e d) \<Longrightarrow> screen_effect e v"
    using Cons.prems(1,2) by (cases e) (auto simp: notify_held dismiss_held)
  from Cons.IH [OF apply_inv [OF Cons.prems(1)] this] Cons.prems(3) show ?case by simp
qed

lemma thread_leaves_nothing:
  "inv d \<Longrightarrow> \<not> held (warnings_thread notify show_final_warning dismiss_final_warning es d)"
  by (simp add: warnings_thread_def dismiss_held fold_inv)

end

text \<open>Every notice is the copy for a level and the time left at its evaluation.\<close>

lemma reconcile_notice:
  assumes "Notify n \<in> set (fst (reconcile w session now))"
  obtains l where "l \<noteq> Final" and "n = notice_for l (remaining_secs session now)"
    and "due_level (w_last_seen (rekeyed w session)) now (remaining_secs session now) = Some l"
proof -
  let ?r = "remaining_secs session now" and ?w = "rekeyed w session"
  have "Notify n \<in> set (fst (announce (due_level (w_last_seen ?w) now ?r) ?r ?w))"
    using assms
    by (auto simp: reconcile_cases Let_def rekeyed_def rekey_def dismiss_final_def split: if_splits)
  then show thesis using that by (auto simp: announce_def split: option.splits if_splits)
qed

section \<open>Properties\<close>

text \<open>A countdown that is evaluated at least every 30 seconds announces the whole ladder and nothing
  else: from more than ten minutes down to the deadline, the user sees exactly the 10-minute, the
  5-minute and the 1-minute notice with those headlines, then one final warning in the last 30
  seconds, then its removal at the deadline, in this order and each once.\<close>

theorem countdown_announces_full_ladder:
  assumes "paced (secs 30) t ts" and "600 < remaining_secs session t"
    and "remaining_secs session (last (t # ts)) \<le> 0"
  shows "\<exists>r. 0 < r \<and> r \<le> 30 \<and>
     fst (run_out reconcile_in warnings_new (map (Pair session) (t # ts))) =
       [Notify ten_minute_notice, Notify five_minute_notice, Notify one_minute_notice,
        ShowFinalWarning r, DismissFinalWarning]"
proof -
  let ?w = "\<lparr>w_key = key_of session, w_fired = None, w_last_seen = Some t, w_final_visible = False\<rparr>"
  have "reconcile warnings_new session t = ([], ?w)"
    using reconcile_fresh [of session t] assms(2) by (simp add: arriving_late_level_cases)
  moreover have "in_step ?w session t" and "level_for (remaining_secs session t) = None"
    using assms(2) by (simp_all add: in_step_def level_for_cases)
  ultimately show ?thesis using countdown_from [of ?w session t ts] assms by simp
qed

theorem countdown_announces_full_ladder_witness:
  "\<exists>r. 0 < r \<and> r \<le> 30 \<and>
     fst (run_out reconcile_in warnings_new (map (Pair (Some example_session))
       (secs 1190 # map (\<lambda>n. secs (1200 + 30 * int n)) [0..<21]))) =
     [Notify ten_minute_notice, Notify five_minute_notice, Notify one_minute_notice,
      ShowFinalWarning r, DismissFinalWarning]"
  by (rule countdown_announces_full_ladder)
     (simp_all add: upt_rec remaining_secs_def key_of_def example_session_def secs_def num_seconds_def)

text \<open>Warnings for one deadline never repeat and never go back to a less urgent level: as long as
  the session (id, deadline, status) stays the same, the levels announced over any sequence of
  evaluations, at any times and from any state, are strictly increasing in urgency; in particular
  each of the four is announced at most once.\<close>

theorem announced_levels_strictly_increase:
  "sorted_wrt (<) (levels_of (fst (run_out reconcile_in w (map (Pair session) ts))))"
proof (cases ts)
  case Nil
  then show ?thesis by (simp add: List.map_filter_def)
next
  case (Cons t us)
  let ?w = "snd (reconcile w session t)"
  have "sorted_wrt (<) (levels_of (fst (run_out reconcile_in ?w (map (Pair session) us))))"
    and "\<forall>l \<in> set (levels_of (fst (run_out reconcile_in ?w (map (Pair session) us)))).
       \<forall>a. w_fired ?w = Some a \<longrightarrow> a < l"
    using same_key_levels [of ?w session us] by simp_all
  with reconcile_levels [of w session t] show ?thesis by (auto simp: Cons)
qed

text \<open>The agent's belief that a final warning is on screen is exact: over any history of sessions
  and times it equals what the emitted effects leave on a screen, so a warning that is up is never
  forgotten and one that is down is never dismissed again as if it were up.\<close>

theorem final_visible_is_screen:
  "w_final_visible (snd (run_out reconcile_in w ins)) =
     screen_after (fst (run_out reconcile_in w ins)) (w_final_visible w)"
proof (induction ins arbitrary: w)
  case Nil
  show ?case by simp
next
  case (Cons i ins)
  then show ?case using reconcile_screen [of w "fst i" "snd i"] by (simp add: reconcile_in_def)
qed

text \<open>Nothing is announced for a session that cannot be used, or whose deadline is less than a
  second away: after any history, an evaluation then emits at most the removal of a final warning,
  exactly when one is up, and leaves none on screen.\<close>

theorem silent_without_time_left:
  assumes "w = snd (run_out reconcile_in warnings_new ins)" and "remaining_secs session now \<le> 0"
  shows "fst (reconcile w session now) = (if w_final_visible w then [DismissFinalWarning] else [])
     \<and> \<not> w_final_visible (snd (reconcile w session now))"
  using quiet_reconcile [OF reachable_inv assms(2), of ins] unfolding assms(1) by blast

theorem silent_without_time_left_witness:
  "fst (reconcile (snd (run_out reconcile_in warnings_new [(Some example_session, secs 1780)]))
     (Some (example_session\<lparr>status := Ended\<rparr>)) (secs 1781)) = [DismissFinalWarning]"
proof -
  have "remaining_secs (Some (example_session\<lparr>status := Ended\<rparr>)) (secs 1781) \<le> 0"
    by (simp add: remaining_secs_def key_of_def)
  note silent_without_time_left [OF refl this, of "[(Some example_session, secs 1780)]"]
  moreover have "w_final_visible (snd (run_out reconcile_in warnings_new [(Some example_session, secs 1780)]))"
    by (simp add: reconcile_fresh remaining_secs_def key_of_def example_session_def secs_def
        num_seconds_def arriving_late_level_cases)
  ultimately show ?thesis by simp
qed

text \<open>A threshold that a tick jumps over is not lost: if any evaluation of a session's deadline
  finds it with a positive number of seconds inside a threshold, a level at least that urgent has
  been announced to the user by then, whatever the earlier evaluations were and however far apart.\<close>

theorem skipped_threshold_still_announced:
  assumes "0 < remaining_secs session t" and "level_for (remaining_secs session t) = Some l"
  shows "\<exists>l' \<in> set (levels_of (fst (run_out reconcile_in warnings_new (map (Pair session) (ts @ [t]))))).
     l \<le> l'"
proof -
  let ?new = "warnings_new\<lparr>w_key := key_of session\<rparr>"
  have "key_of session \<noteq> None" using assms(1) by (rule remaining_key)
  then have run: "run_out reconcile_in warnings_new (map (Pair session) (ts @ [t])) =
      run_out reconcile_in ?new (map (Pair session) (ts @ [t]))"
    using fresh_run_state [of session "ts @ [t]"] by simp
  obtain l' where "w_fired (snd (run_out reconcile_in ?new (map (Pair session) (ts @ [t])))) = Some l'"
    and "l \<le> l'"
    using nominal_level_fired [OF assms] by (fastforce simp: run_out_append)
  with fired_was_announced [of ?new session "ts @ [t]" l'] run show ?thesis
    by (auto simp: warnings_new_def)
qed

theorem skipped_threshold_still_announced_witness:
  "\<exists>l' \<in> set (levels_of (fst (run_out reconcile_in warnings_new
      (map (Pair (Some example_session)) ([secs 1180, secs 1190] @ [secs 1501]))))). FiveMinutes \<le> l'"
  by (rule skipped_threshold_still_announced)
     (simp_all add: remaining_secs_def key_of_def example_session_def secs_def num_seconds_def level_for_cases)

text \<open>The headline is honest: every notice states a whole number of minutes, between 1 and 10,
  that is within 30 seconds of the time actually left, and is never shown in the last 30 seconds.\<close>

theorem headline_is_nearest_minute:
  assumes "Notify n \<in> set (fst (reconcile w session now))"
  shows "\<exists>m. 1 \<le> m \<and> m \<le> 10 \<and> \<bar>60 * m - remaining_secs session now\<bar> \<le> 30
     \<and> 30 < remaining_secs session now
     \<and> title n = show_int m @ (if m = 1 then '' minute remaining'' else '' minutes remaining'')"
proof -
  let ?r = "remaining_secs session now" and ?w = "rekeyed w session"
  obtain l where l: "due_level (w_last_seen ?w) now ?r = Some l" "l \<noteq> Final" and n: "n = notice_for l ?r"
    using reconcile_notice [OF assms] by blast
  let ?m = "(?r + 30) div 60"
  have r: "30 < ?r" "?r \<le> 600" using due_level_bounds [OF l] by simp_all
  then have "1 \<le> ?m" "?m \<le> 10" "\<bar>60 * ?m - ?r\<bar> \<le> 30" by linarith+
  moreover have "title n = show_int ?m @ (if ?m = 1 then '' minute remaining'' else '' minutes remaining'')"
    using r by (simp add: n notice_for_def Let_def trunc_div_pos split: prod.splits)
  ultimately show ?thesis using r(1) by blast
qed

theorem headline_is_nearest_minute_witness:
  "\<exists>m. 1 \<le> m \<and> m \<le> 10 \<and> \<bar>60 * m - 270\<bar> \<le> 30 \<and> (30::int) < 270
     \<and> title (notice_for FiveMinutes 270) =
         show_int m @ (if m = 1 then '' minute remaining'' else '' minutes remaining'')"
proof -
  have r: "remaining_secs (Some example_session) (secs 1530) = 270"
    by (simp add: remaining_secs_def key_of_def example_session_def secs_def num_seconds_def)
  then have "Notify (notice_for FiveMinutes 270) \<in> set (fst (reconcile warnings_new (Some example_session) (secs 1530)))"
    by (simp add: reconcile_fresh arriving_late_level_cases)
  from headline_is_nearest_minute [OF this] r show ?thesis by simp
qed

text \<open>Arriving inside the last minute (a restart, a wake-up, a short session) shows the final
  warning for the real time left, first and at once, and after it nothing but its removal, however
  the evaluations of that deadline continue.\<close>

theorem late_arrival_goes_straight_to_final:
  assumes "0 < remaining_secs session t" and "remaining_secs session t \<le> 60"
  shows "\<exists>rest. fst (run_out reconcile_in warnings_new (map (Pair session) (t # ts))) =
     ShowFinalWarning (remaining_secs session t) # rest \<and> set rest \<subseteq> {DismissFinalWarning}"
proof -
  have "reconcile warnings_new session t = ([ShowFinalWarning (remaining_secs session t)],
      \<lparr>w_key = key_of session, w_fired = Some Final, w_last_seen = Some t, w_final_visible = True\<rparr>)"
    using reconcile_fresh [OF assms(1)] assms(2) by (simp add: arriving_late_level_cases)
  then show ?thesis using final_fired_run [of "snd (reconcile warnings_new session t)" session ts]
    by simp
qed

theorem late_arrival_goes_straight_to_final_witness:
  "\<exists>rest. fst (run_out reconcile_in warnings_new
      (map (Pair (Some example_session)) (secs 1760 # [secs 1771, secs 1799, secs 1800]))) =
     ShowFinalWarning (remaining_secs (Some example_session) (secs 1760)) # rest
     \<and> set rest \<subseteq> {DismissFinalWarning}"
  by (rule late_arrival_goes_straight_to_final)
     (simp_all add: remaining_secs_def key_of_def example_session_def secs_def num_seconds_def)

text \<open>A changed deadline (an extension keeps the id and moves the deadline, a replacement changes
  the id) is warned about as if the agent had just started: whatever had fired before, the effects
  are those of fresh warnings, preceded by the removal of a final warning still up.\<close>

theorem new_deadline_restarts_the_ladder:
  assumes "key_of session \<noteq> w_key w"
  shows "reconcile w session now =
     ((if w_final_visible w then [DismissFinalWarning] else []) @ fst (reconcile warnings_new session now),
      snd (reconcile warnings_new session now))"
  using reconcile_new_key [OF assms] by (simp add: dismiss_final_def)

theorem new_deadline_restarts_the_ladder_witness:
  "fst (reconcile (snd (reconcile warnings_new (Some example_session) (secs 1780)))
     (Some (example_session\<lparr>expires_at := secs 2070\<rparr>)) (secs 1782)) =
   [DismissFinalWarning, Notify five_minute_notice]"
proof -
  let ?w = "snd (reconcile warnings_new (Some example_session) (secs 1780))"
  let ?s = "Some (example_session\<lparr>expires_at := secs 2070\<rparr>)"
  have "key_of ?s \<noteq> w_key ?w" by (simp add: key_of_def example_session_def secs_def)
  note new_deadline_restarts_the_ladder [OF this, of "secs 1782"]
  moreover have "w_final_visible ?w"
    by (simp add: reconcile_fresh remaining_secs_def key_of_def example_session_def secs_def
        num_seconds_def arriving_late_level_cases)
  moreover have "fst (reconcile warnings_new ?s (secs 1782)) = [Notify five_minute_notice]"
    by (simp add: reconcile_fresh remaining_secs_def key_of_def example_session_def secs_def
        num_seconds_def arriving_late_level_cases crossing_notices)
  ultimately show ?thesis by simp
qed

text \<open>C34. In the last second before the deadline the final warning is taken down although the tick
  still allows use: truncated to whole seconds nothing remains, but the deadline has not passed.\<close>

theorem final_warning_dropped_before_expiry:
  assumes "session = Some s" and "status s = Active" and "0 < expires_at s - now"
    and "expires_at s - now < nanos_per_sec" and "w_key w = key_of session" and "w_final_visible w"
  shows "advance session now = (Allowed, session) \<and> fst (reconcile w session now) = [DismissFinalWarning]"
proof -
  have "usable_at session now" using assms by (simp add: usable_at_def)
  moreover have "remaining_secs session now \<le> 0"
    using assms num_seconds_pos_iff [of "expires_at s - now"] by (simp add: remaining_secs_def key_of_def not_less)
  moreover have "key_of session \<noteq> None" using assms by (simp add: key_of_def)
  ultimately show ?thesis using assms(5,6) advance_allowed_unchanged [of session now]
      advance_desired [of session now]
    by (auto simp: reconcile_cases Let_def rekeyed_def rekey_def dismiss_final_def prod_eq_iff)
qed

theorem final_warning_dropped_before_expiry_witness:
  "advance (Some example_session) (secs 1800 - 400000000) = (Allowed, Some example_session)
   \<and> fst (reconcile (snd (reconcile warnings_new (Some example_session) (secs 1780)))
       (Some example_session) (secs 1800 - 400000000)) = [DismissFinalWarning]"
  by (rule final_warning_dropped_before_expiry [OF refl])
     (simp_all add: reconcile_fresh remaining_secs_def key_of_def example_session_def secs_def
        num_seconds_def arriving_late_level_cases)

end
