(* ===== verification/Clock.thy ===== *)
theory Clock imports Session begin

text \<open>
  The anti-rollback clock of \<open>agent/src/storage.rs\<close> (\<open>ClockGuard\<close>). A reading bundles what the OS
  answers during one call of \<open>now\<close>: the wall clock, the monotonic clock when \<open>anchor.elapsed()\<close>
  reads it, and the monotonic clock when the anchor is taken anew. The lemmas show what the guard
  promises (its mark never goes back, a clock set back is bridged by monotonic time) and, exactly,
  what it does not.
\<close>

section \<open>State and operations\<close>

record clock_guard =
  high_water_mark :: datetime
  anchor :: instant

record clock_reading =
  os_now :: datetime
  mono_elapsed :: instant
  mono_anchor :: instant

definition guard_new :: "datetime \<Rightarrow> instant \<Rightarrow> clock_guard" where
  "guard_new persisted_high_water_mark m =
     \<lparr>high_water_mark = persisted_high_water_mark, anchor = m\<rparr>"

text \<open>\<open>None\<close> is the panic of the addition past the last representable time.\<close>

definition guard_now :: "clock_guard \<Rightarrow> clock_reading \<Rightarrow> (datetime \<times> clock_guard) option" where
  "guard_now g r =
     (case (if os_now r \<ge> high_water_mark g then Some (os_now r)
            else dt_add (high_water_mark g)
                   (from_std_or_default (elapsed (anchor g) (mono_elapsed r)))) of
        None \<Rightarrow> None
      | Some trusted \<Rightarrow>
          Some (trusted, \<lparr>high_water_mark = trusted, anchor = mono_anchor r\<rparr>))"

definition resync_from_server :: "clock_guard \<Rightarrow> datetime \<Rightarrow> instant \<Rightarrow> clock_guard" where
  "resync_from_server g server_time m =
     (if server_time > high_water_mark g
      then \<lparr>high_water_mark = server_time, anchor = m\<rparr> else g)"

text \<open>What happens to a guard over its life: ticks read it, server messages resynchronise it. A
  panicking read ends the process, so it leaves no next state; \<open>clock_step\<close> keeps the old one.\<close>

datatype clock_op = Read clock_reading | Resync datetime instant

fun clock_step :: "clock_guard \<Rightarrow> clock_op \<Rightarrow> clock_guard" where
  "clock_step g (Read r) = (case guard_now g r of None \<Rightarrow> g | Some (_, g') \<Rightarrow> g')"
| "clock_step g (Resync t m) = resync_from_server g t m"

section \<open>Lemmas\<close>

lemma guard_now_mark: "guard_now g r = Some (t, g') \<Longrightarrow> high_water_mark g' = t \<and> anchor g' = mono_anchor r"
  by (auto simp: guard_now_def split: option.splits if_splits)

lemma guard_now_forward: "guard_now g r = Some (t, g') \<Longrightarrow> high_water_mark g \<le> t"
  by (auto simp: guard_now_def dt_add_Some_iff split: option.splits if_splits)

lemma guard_now_ge_os: "guard_now g r = Some (t, g') \<Longrightarrow> os_now r \<le> t"
  using from_std_or_default_nonneg [of "elapsed (anchor g) (mono_elapsed r)"]
  by (auto simp: guard_now_def dt_add_Some_iff simp del: from_std_or_default_nonneg
      split: option.splits if_splits)

lemma guard_now_honest: "high_water_mark g \<le> os_now r \<Longrightarrow>
    guard_now g r = Some (os_now r, \<lparr>high_water_mark = os_now r, anchor = mono_anchor r\<rparr>)"
  by (simp add: guard_now_def)

lemma guard_now_rollback:
  assumes "os_now r < high_water_mark g"
    and "in_range (high_water_mark g + from_std_or_default (mono_elapsed r - anchor g))"
  shows "guard_now g r =
     Some (high_water_mark g + from_std_or_default (mono_elapsed r - anchor g),
           \<lparr>high_water_mark = high_water_mark g + from_std_or_default (mono_elapsed r - anchor g),
            anchor = mono_anchor r\<rparr>)"
  using assms by (simp add: guard_now_def elapsed_def dt_add_def)

lemma guard_now_upper:
  "guard_now g r = Some (t, g') \<Longrightarrow>
     t \<le> max (os_now r) (high_water_mark g + int (mono_elapsed r - anchor g))"
  using from_std_or_default_le [of "elapsed (anchor g) (mono_elapsed r)"]
  by (auto simp: guard_now_def dt_add_Some_iff elapsed_def max_def simp del: from_std_or_default_le
      split: option.splits if_splits)

lemma guard_now_in_range:
  "guard_now g r = Some (t, g') \<Longrightarrow> in_range (os_now r) \<Longrightarrow> in_range t"
  by (auto simp: guard_now_def dt_add_Some_iff split: option.splits if_splits)

lemma resync_mark [simp]: "high_water_mark (resync_from_server g t m) = max (high_water_mark g) t"
  by (simp add: resync_from_server_def max_def)

lemma clock_step_forward: "high_water_mark g \<le> high_water_mark (clock_step g op)"
  by (cases op) (auto split: option.splits dest: guard_now_forward guard_now_mark)

interpretation trusted: forward_mark clock_step high_water_mark
  by unfold_locales (rule clock_step_forward)

text \<open>Two consecutive readings of one guard, with anything in between, are in order.\<close>

lemma reads_in_order:
  assumes "guard_now g r = Some (t, g')" and "guard_now (run clock_step g' ops) r' = Some (t', g'')"
  shows "t \<le> t'"
  using guard_now_mark [OF assms(1)] trusted.run_forward [of g' ops] guard_now_forward [OF assms(2)]
  by simp

text \<open>The monotonic time that passes between the anchor and the reads of a list of readings, taking
  the anchor anew at each.\<close>

fun bridged :: "instant \<Rightarrow> clock_reading list \<Rightarrow> int" where
  "bridged a [] = 0"
| "bridged a (r # rs) = int (mono_elapsed r - a) + bridged (mono_anchor r) rs"

lemma bridged_nonneg: "0 \<le> bridged a rs"
  by (induction rs arbitrary: a) auto

lemma from_std_in_range:
  "in_range t \<Longrightarrow> t + int d \<le> dt_max \<Longrightarrow> from_std_or_default d = int d \<and> in_range (t + int d)"
  by (auto simp: in_range_def dt_min_def dt_max_def from_std_or_default_def i64_max_def)

lemma rollback_step:
  assumes "os_now r < high_water_mark g" and "in_range (high_water_mark g)"
    and "high_water_mark g + int (mono_elapsed r - anchor g) \<le> dt_max"
  shows "guard_now g r = Some (high_water_mark g + int (mono_elapsed r - anchor g),
     \<lparr>high_water_mark = high_water_mark g + int (mono_elapsed r - anchor g), anchor = mono_anchor r\<rparr>)"
  using guard_now_rollback [OF assms(1)] from_std_in_range [OF assms(2,3)] by simp

lemma rollback_run:
  assumes "\<forall>r \<in> set rs. os_now r < high_water_mark g" and "in_range (high_water_mark g)"
    and "high_water_mark g + bridged (anchor g) rs \<le> dt_max"
  shows "high_water_mark (run clock_step g (map Read rs)) = high_water_mark g + bridged (anchor g) rs"
  using assms
proof (induction rs arbitrary: g)
  case Nil
  then show ?case by simp
next
  case (Cons r rs)
  let ?m = "high_water_mark g + int (mono_elapsed r - anchor g)"
  let ?g = "\<lparr>high_water_mark = ?m, anchor = mono_anchor r\<rparr>"
  have "?m \<le> dt_max" using Cons.prems(3) bridged_nonneg [of "mono_anchor r" rs] by simp
  then have st: "clock_step g (Read r) = ?g" and "in_range ?m"
    using rollback_step [of r g] Cons.prems(1,2) by (auto simp: in_range_def)
  moreover have "high_water_mark (run clock_step ?g (map Read rs)) = ?m + bridged (mono_anchor r) rs"
    using Cons.IH [of ?g] Cons.prems \<open>in_range ?m\<close> by fastforce
  ultimately show ?case by simp
qed

section \<open>Properties\<close>

text \<open>Trusted time never goes back: a reading is at least the mark the guard was created with or
  left at, and a later reading of the same guard, whatever readings and server messages come in
  between and whatever the OS clock says, is at least the earlier one.\<close>

theorem trusted_time_never_back:
  assumes "guard_now g r = Some (t, g')" and "guard_now (run clock_step g' ops) r' = Some (t', g'')"
  shows "high_water_mark g \<le> t \<and> t \<le> t' \<and> high_water_mark g'' = t'"
  using guard_now_forward [OF assms(1)] reads_in_order [OF assms] guard_now_mark [OF assms(2)] by blast

theorem trusted_time_never_back_witness:
  "\<exists>t' g''. guard_now (run clock_step \<lparr>high_water_mark = 100, anchor = 7\<rparr>
      [Resync 90 8, Read \<lparr>os_now = 40, mono_elapsed = 9, mono_anchor = 9\<rparr>])
      \<lparr>os_now = 0, mono_elapsed = 12, mono_anchor = 13\<rparr> = Some (t', g'') \<and>
    (50::int) \<le> 100 \<and> 100 \<le> t' \<and> high_water_mark g'' = t'"
proof -
  have 1: "guard_now \<lparr>high_water_mark = 50, anchor = 5\<rparr> \<lparr>os_now = 100, mono_elapsed = 6, mono_anchor = 7\<rparr> =
      Some (100, \<lparr>high_water_mark = 100, anchor = 7\<rparr>)"
    by (simp add: guard_now_def)
  have 2: "guard_now (run clock_step \<lparr>high_water_mark = 100, anchor = 7\<rparr>
      [Resync 90 8, Read \<lparr>os_now = 40, mono_elapsed = 9, mono_anchor = 9\<rparr>])
      \<lparr>os_now = 0, mono_elapsed = 12, mono_anchor = 13\<rparr> =
      Some (105, \<lparr>high_water_mark = 105, anchor = 13\<rparr>)"
    by (simp add: guard_now_def resync_from_server_def elapsed_def from_std_or_default_def dt_add_def
        in_range_def dt_min_def dt_max_def i64_max_def)
  show ?thesis using trusted_time_never_back [OF 1 2] 2 by auto
qed

text \<open>A clock set back stops nothing: while every reading of the OS clock lies before the mark the
  guard had, trusted time advances by exactly the monotonic time that passed, reading by reading.\<close>

theorem rollback_bridged_by_monotonic_time:
  assumes "\<forall>r \<in> set rs. os_now r < high_water_mark g" and "in_range (high_water_mark g)"
    and "high_water_mark g + bridged (anchor g) rs \<le> dt_max"
  shows "high_water_mark (run clock_step g (map Read rs)) = high_water_mark g + bridged (anchor g) rs"
  using assms by (rule rollback_run)

theorem rollback_bridged_by_monotonic_time_witness:
  "high_water_mark (run clock_step \<lparr>high_water_mark = secs 3600, anchor = 0\<rparr>
     (map Read [\<lparr>os_now = 0, mono_elapsed = 2000000000, mono_anchor = 2000000000\<rparr>,
                \<lparr>os_now = secs 1800, mono_elapsed = 4000000000, mono_anchor = 4000000000\<rparr>]))
   = secs 3604"
  by (subst rollback_bridged_by_monotonic_time)
     (simp_all add: secs_def in_range_def dt_min_def dt_max_def)

text \<open>A reading is never behind the OS clock nor behind the mark, and never ahead of both the OS
  clock and the mark advanced by the monotonic time since the last anchor.\<close>

theorem trusted_time_bounds:
  assumes "guard_now g r = Some (t, g')"
  shows "max (os_now r) (high_water_mark g) \<le> t
     \<and> t \<le> max (os_now r) (high_water_mark g + int (mono_elapsed r - anchor g))"
  using guard_now_ge_os [OF assms] guard_now_forward [OF assms] guard_now_upper [OF assms] by simp

theorem trusted_time_bounds_witness:
  "max 40 100 \<le> (103::int) \<and> (103::int) \<le> max 40 (100 + int (10 - 7))"
proof -
  have "guard_now \<lparr>high_water_mark = 100, anchor = 7\<rparr> \<lparr>os_now = 40, mono_elapsed = 10, mono_anchor = 11\<rparr>
      = Some (103, \<lparr>high_water_mark = 103, anchor = 11\<rparr>)"
    by (simp add: guard_now_def elapsed_def from_std_or_default_def dt_add_def in_range_def dt_min_def
        dt_max_def i64_max_def)
  from trusted_time_bounds [OF this] show ?thesis by simp
qed

text \<open>C38. What the guard does not do: a clock that is set back before every read by no more than it
  moved since the last one is never below the mark, so it is trusted, and trusted time stands still
  while any amount of monotonic time passes.\<close>

theorem small_rollbacks_freeze_trusted_time:
  assumes "\<forall>r \<in> set rs. os_now r = high_water_mark g"
  shows "high_water_mark (run clock_step g (map Read rs)) = high_water_mark g"
  using assms
proof (induction rs arbitrary: g)
  case Nil
  then show ?case by simp
next
  case (Cons r rs)
  then show ?case using guard_now_honest [of g r] by simp
qed

text \<open>The witness: an hour of ticks two seconds apart, at each of which the OS clock shows the same
  time, leaves the trusted time where it was.\<close>

theorem small_rollbacks_freeze_trusted_time_witness:
  "high_water_mark (run clock_step \<lparr>high_water_mark = secs 10, anchor = 0\<rparr>
     (map Read (map (\<lambda>n. \<lparr>os_now = secs 10, mono_elapsed = n * 2000000000,
        mono_anchor = n * 2000000000\<rparr>) [0..<1800]))) = secs 10"
  by (subst small_rollbacks_freeze_trusted_time) auto

end
