(* ===== verification/Storage.thy ===== *)
theory Storage imports Clock begin

text \<open>
  Local persistence, \<open>agent/src/storage.rs\<close>: the agent's state, the store with its atomic save
  (write a temporary file, restrict its permissions, rename it over the state file), and the two
  ways of loading. The file system is a map from paths to files. Every call that the operating
  system may refuse has its refusal as an argument, and a save has, besides, the points at which
  a crash can stop it. The JSON text of a state is the work of serde_json, which is not part of
  the repository: a codec (printing a state, parsing a file's bytes) is a parameter, of any type
  of file contents, and the one law used of it is that parsing what was printed gives the state
  back. A file that is not UTF-8, not JSON or not a state is one that does not parse.
\<close>

section \<open>Data\<close>

record credentials =
  server_url :: string
  machine_id :: string
  machine_secret :: string

record agent_state =
  st_credentials :: "credentials option"
  st_decommissioned :: bool
  st_session :: "session_snapshot option"
  st_last_applied_at :: datetime
  st_high_water_mark :: datetime

text \<open>\<open>AgentState::default()\<close> reads the clock once and uses it for both times.\<close>

definition agent_state_default :: "datetime \<Rightarrow> agent_state" where
  "agent_state_default now = \<lparr>st_credentials = None, st_decommissioned = False, st_session = None,
     st_last_applied_at = now, st_high_water_mark = now\<rparr>"

record 'c stored_file =
  f_contents :: 'c
  f_mode :: nat

type_synonym 'c fs = "string \<Rightarrow> 'c stored_file option"

record 'c codec =
  to_json :: "agent_state \<Rightarrow> 'c"
  from_json :: "'c \<Rightarrow> agent_state option"

definition codec_ok :: "'c codec \<Rightarrow> bool" where
  "codec_ok c \<longleftrightarrow> (\<forall>st. from_json c (to_json c st) = Some st)"

text \<open>A store: its directory, whether the platform is Unix, the mode new files get there, the codec.\<close>

record 'c store =
  store_dir :: string
  store_unix :: bool
  store_create_mode :: nat
  store_codec :: "'c codec"

section \<open>Paths\<close>

definition is_separator :: "bool \<Rightarrow> char \<Rightarrow> bool" where
  "is_separator unix c \<longleftrightarrow> c = CHR ''/'' \<or> \<not> unix \<and> c = CHR 0x5C"

text \<open>\<open>Path::join\<close> of a relative file name.\<close>

definition join :: "bool \<Rightarrow> string \<Rightarrow> string \<Rightarrow> string" where
  "join unix d f =
     (if d = [] \<or> is_separator unix (last d) then d @ f
      else d @ (if unix then CHR ''/'' else CHR 0x5C) # f)"

definition file_name :: "bool \<Rightarrow> string \<Rightarrow> string" where
  "file_name unix p = rev (takeWhile (\<lambda>c. \<not> is_separator unix c) (rev p))"

definition parent_part :: "bool \<Rightarrow> string \<Rightarrow> string" where
  "parent_part unix p = rev (dropWhile (\<lambda>c. \<not> is_separator unix c) (rev p))"

text \<open>\<open>Path::file_stem\<close>: the name up to its last dot, or the whole of it when there is none inside.\<close>

definition file_stem :: "string \<Rightarrow> string" where
  "file_stem n =
     (let before = rev (tl (dropWhile (\<lambda>c. c \<noteq> CHR ''.'') (rev n)))
      in if CHR ''.'' \<notin> set n \<or> before = [] then n else before)"

definition with_extension :: "bool \<Rightarrow> string \<Rightarrow> string \<Rightarrow> string" where
  "with_extension unix p ext =
     parent_part unix p @ file_stem (file_name unix p) @ (if ext = [] then [] else CHR ''.'' # ext)"

section \<open>Operations\<close>

text \<open>\<open>default_state_dir\<close>: the environment variable, else the platform's data directory, else a local one.\<close>

definition default_state_dir :: "string option \<Rightarrow> string option \<Rightarrow> string" where
  "default_state_dir taymna_state_dir project_data_dir =
     (case taymna_state_dir of
        Some dir \<Rightarrow> dir
      | None \<Rightarrow> (case project_data_dir of Some d \<Rightarrow> d | None \<Rightarrow> ''.taymna-agent''))"

text \<open>\<open>Store::new\<close>: resolves the directory and creates it; \<open>mkdir\<close> is what \<open>create_dir_all\<close> answers.\<close>

definition store_new ::
  "string option \<Rightarrow> string \<Rightarrow> (string \<Rightarrow> io_kind option) \<Rightarrow> bool \<Rightarrow> nat \<Rightarrow> 'c codec \<Rightarrow> io_kind + 'c store"
  where
  "store_new override_dir default_dir mkdir unix cmode codec =
     (let dir = (case override_dir of Some d \<Rightarrow> d | None \<Rightarrow> default_dir)
      in case mkdir dir of
           Some e \<Rightarrow> Inl e
         | None \<Rightarrow> Inr \<lparr>store_dir = dir, store_unix = unix, store_create_mode = cmode, store_codec = codec\<rparr>)"

definition state_path :: "'c store \<Rightarrow> string" where
  "state_path s = join (store_unix s) (store_dir s) ''state.json''"

definition tmp_path :: "'c store \<Rightarrow> string" where
  "tmp_path s = with_extension (store_unix s) (state_path s) ''json.tmp''"

definition corrupt_path :: "'c store \<Rightarrow> string" where
  "corrupt_path s = with_extension (store_unix s) (state_path s) ''json.corrupt''"

text \<open>\<open>fs::write\<close>: replaces the contents, keeping the mode of a file that exists.\<close>

definition fs_write :: "'c store \<Rightarrow> string \<Rightarrow> 'c \<Rightarrow> 'c fs \<Rightarrow> 'c fs" where
  "fs_write s p c fs = fs(p \<mapsto> \<lparr>f_contents = c,
     f_mode = (case fs p of Some f \<Rightarrow> f_mode f | None \<Rightarrow> store_create_mode s)\<rparr>)"

definition fs_rename :: "string \<Rightarrow> string \<Rightarrow> 'c fs \<Rightarrow> 'c fs" where
  "fs_rename p q fs = (fs(q := fs p))(p := None)"

text \<open>Restricting a file to its owner, octal 600; nothing is done (and nothing can fail) off Unix.\<close>

definition owner_only :: nat where "owner_only = 384"

definition harden_permissions :: "'c store \<Rightarrow> io_kind option \<Rightarrow> string \<Rightarrow> 'c fs \<Rightarrow> io_kind + 'c fs" where
  "harden_permissions s refusal p fs =
     (if store_unix s
      then (case refusal of
              Some e \<Rightarrow> Inl e
            | None \<Rightarrow> Inr (fs(p := map_option (\<lambda>f. f\<lparr>f_mode := owner_only\<rparr>) (fs p))))
      else Inr fs)"

text \<open>How the operating system can refuse a save: the write fails, leaving the temporary file alone or
  holding part of the text; the permissions cannot be set; the rename fails.\<close>

datatype 'c save_fault =
    WriteFails io_kind "'c option"
  | HardenFails io_kind
  | RenameFails io_kind

definition save :: "'c store \<Rightarrow> agent_state \<Rightarrow> 'c save_fault option \<Rightarrow> 'c fs \<Rightarrow> (io_kind + unit) \<times> 'c fs"
  where
  "save s st fault fs =
     (let contents = to_json (store_codec s) st; tmp = tmp_path s
      in case fault of
           Some (WriteFails e left) \<Rightarrow>
             (Inl e, case left of None \<Rightarrow> fs | Some c \<Rightarrow> fs_write s tmp c fs)
         | _ \<Rightarrow>
             let fs1 = fs_write s tmp contents fs
             in case harden_permissions s (case fault of Some (HardenFails e) \<Rightarrow> Some e | _ \<Rightarrow> None) tmp fs1 of
                  Inl e \<Rightarrow> (Inl e, fs1)
                | Inr fs2 \<Rightarrow>
                    (case fault of
                       Some (RenameFails e) \<Rightarrow> (Inl e, fs2)
                     | _ \<Rightarrow> (Inr (), fs_rename tmp (state_path s) fs2)))"

text \<open>Where a crash can stop a save, and what it then leaves: nothing written yet, any contents in the
  temporary file, the text written, its mode set, or everything done.\<close>

datatype 'c save_point = NotWritten | PartlyWritten 'c | Written | Hardened | Renamed

definition save_hardened :: "'c store \<Rightarrow> agent_state \<Rightarrow> 'c fs \<Rightarrow> 'c fs" where
  "save_hardened s st fs =
     (case harden_permissions s None (tmp_path s)
             (fs_write s (tmp_path s) (to_json (store_codec s) st) fs) of
        Inl _ \<Rightarrow> fs
      | Inr fs' \<Rightarrow> fs')"

fun save_at :: "'c store \<Rightarrow> agent_state \<Rightarrow> 'c save_point \<Rightarrow> 'c fs \<Rightarrow> 'c fs" where
  "save_at s st NotWritten fs = fs"
| "save_at s st (PartlyWritten c) fs = fs_write s (tmp_path s) c fs"
| "save_at s st Written fs = fs_write s (tmp_path s) (to_json (store_codec s) st) fs"
| "save_at s st Hardened fs = save_hardened s st fs"
| "save_at s st Renamed fs = fs_rename (tmp_path s) (state_path s) (save_hardened s st fs)"

text \<open>\<open>load\<close>: a missing file is a fresh machine, an unreadable one an error, never a fresh machine. The
  time is the one \<open>AgentState::default()\<close> would read; \<open>refused\<close> says that the system refuses to read a
  file that is there (an error of any kind but the two the code looks for).\<close>

definition read_file :: "'c store \<Rightarrow> bool \<Rightarrow> 'c fs \<Rightarrow> io_kind + 'c" where
  "read_file s refused fs =
     (case fs (state_path s) of
        None \<Rightarrow> Inl NotFound
      | Some f \<Rightarrow> if refused then Inl OtherIo else Inr (f_contents f))"

definition load :: "'c store \<Rightarrow> datetime \<Rightarrow> bool \<Rightarrow> 'c fs \<Rightarrow> io_kind + agent_state" where
  "load s now refused fs =
     (case read_file s refused fs of
        Inr contents \<Rightarrow>
          (case from_json (store_codec s) contents of Some st \<Rightarrow> Inr st | None \<Rightarrow> Inl InvalidData)
      | Inl e \<Rightarrow> if e = NotFound then Inr (agent_state_default now) else Inl e)"

text \<open>\<open>load_for_enroll\<close>: a file that does not parse is set aside (best effort) and replaced by defaults.\<close>

definition load_for_enroll ::
  "'c store \<Rightarrow> datetime \<Rightarrow> bool \<Rightarrow> bool \<Rightarrow> 'c fs \<Rightarrow> (io_kind + agent_state) \<times> 'c fs" where
  "load_for_enroll s now refused rename_works fs =
     (case load s now refused fs of
        Inr st \<Rightarrow> (Inr st, fs)
      | Inl e \<Rightarrow>
          if e = InvalidData
          then (Inr (agent_state_default now),
                if rename_works then fs_rename (state_path s) (corrupt_path s) fs else fs)
          else (Inl e, fs))"

section \<open>Lemmas\<close>

subsection \<open>The three paths\<close>

lemma join_shape:
  "\<exists>d. (d = [] \<or> is_separator unix (last d)) \<and> (\<forall>f. join unix dir f = d @ f)"
  by (cases "dir = [] \<or> is_separator unix (last dir)")
     (auto simp: join_def is_separator_def
       intro: exI [of _ dir] exI [of _ "dir @ [if unix then CHR ''/'' else CHR 0x5C]"])

lemma file_name_join:
  assumes "d = [] \<or> is_separator unix (last d)" and "list_all (\<lambda>c. \<not> is_separator unix c) n"
  shows "file_name unix (d @ n) = n" and "parent_part unix (d @ n) = d"
proof -
  have all: "\<forall>c \<in> set (rev n). \<not> is_separator unix c" using assms(2) by (simp add: list_all_iff)
  have d: "takeWhile (\<lambda>c. \<not> is_separator unix c) (rev d) = []"
    "dropWhile (\<lambda>c. \<not> is_separator unix c) (rev d) = rev d"
    using assms(1) by (cases d rule: rev_cases; simp)+
  show "file_name unix (d @ n) = n"
    using all d takeWhile_append2 [of "rev n" "\<lambda>c. \<not> is_separator unix c" "rev d"]
    by (simp add: file_name_def)
  show "parent_part unix (d @ n) = d"
    using all d dropWhile_append2 [of "rev n" "\<lambda>c. \<not> is_separator unix c" "rev d"]
    by (simp add: parent_part_def)
qed

lemma extended_state_path:
  "ext \<noteq> [] \<Longrightarrow> with_extension (store_unix s) (state_path s) ext = join (store_unix s) (store_dir s) (''state.'' @ ext)"
proof -
  assume ext: "ext \<noteq> []"
  obtain d where d: "d = [] \<or> is_separator (store_unix s) (last d)"
    and j: "\<And>f. join (store_unix s) (store_dir s) f = d @ f"
    using join_shape by blast
  have n: "list_all (\<lambda>c. \<not> is_separator (store_unix s) c) ''state.json''" by (simp add: is_separator_def)
  have stem: "file_stem ''state.json'' = ''state''" by (simp add: file_stem_def Let_def)
  show ?thesis
    using file_name_join [OF d n] ext by (simp add: with_extension_def state_path_def j stem)
qed

lemma tmp_path_join: "tmp_path s = join (store_unix s) (store_dir s) ''state.json.tmp''"
  using extended_state_path [of "''json.tmp''" s] by (simp add: tmp_path_def)

lemma corrupt_path_join: "corrupt_path s = join (store_unix s) (store_dir s) ''state.json.corrupt''"
  using extended_state_path [of "''json.corrupt''" s] by (simp add: corrupt_path_def)

lemma paths_distinct [simp]:
  "tmp_path s \<noteq> state_path s" "state_path s \<noteq> tmp_path s"
  "corrupt_path s \<noteq> state_path s" "state_path s \<noteq> corrupt_path s"
  using join_shape [of "store_unix s" "store_dir s"]
  by (auto simp: tmp_path_join corrupt_path_join state_path_def)

subsection \<open>What the state file records\<close>

definition recorded :: "'c store \<Rightarrow> 'c fs \<Rightarrow> agent_state option" where
  "recorded s fs =
     (case fs (state_path s) of None \<Rightarrow> None | Some f \<Rightarrow> from_json (store_codec s) (f_contents f))"

lemma fs_write_state [simp]: "fs_write s (tmp_path s) c fs (state_path s) = fs (state_path s)"
  by (simp add: fs_write_def)

lemma save_at_state:
  "pt \<noteq> Renamed \<Longrightarrow> save_at s st pt fs (state_path s) = fs (state_path s)"
  by (cases pt) (auto simp: harden_permissions_def save_hardened_def)

lemma save_at_tmp:
  "\<exists>m. save_at s st Hardened fs (tmp_path s) = Some \<lparr>f_contents = to_json (store_codec s) st, f_mode = m\<rparr>
     \<and> (store_unix s \<longrightarrow> m = owner_only)"
  by (auto simp: save_hardened_def harden_permissions_def fs_write_def)

lemma save_at_renamed:
  "\<exists>m. save_at s st Renamed fs (state_path s) = Some \<lparr>f_contents = to_json (store_codec s) st, f_mode = m\<rparr>
     \<and> (store_unix s \<longrightarrow> m = owner_only)"
  using save_at_tmp [of s st fs] by (simp add: fs_rename_def)

lemma recorded_save_at:
  "codec_ok (store_codec s) \<Longrightarrow>
     recorded s (save_at s st pt fs) = (if pt = Renamed then Some st else recorded s fs)"
  using save_at_renamed [of s st fs] save_at_state [of pt s st fs]
  by (auto simp: recorded_def codec_ok_def)

text \<open>Every outcome of a save is one of its points: success is the last, a refusal an earlier one.\<close>

lemma save_outcomes:
  "(\<exists>e pt. save s st fault fs = (Inl e, save_at s st pt fs) \<and> pt \<noteq> Renamed) \<or>
   save s st fault fs = (Inr (), save_at s st Renamed fs)"
proof (cases fault)
  case None
  then show ?thesis by (simp add: save_def Let_def harden_permissions_def save_hardened_def)
next
  case (Some f)
  show ?thesis
  proof (cases f)
    case (WriteFails e left)
    then show ?thesis using Some
      by (cases left) (auto simp: save_def Let_def intro: exI [of _ NotWritten] exI [of _ "PartlyWritten c" for c])
  next
    case (HardenFails e)
    show ?thesis
    proof (cases "store_unix s")
      case True
      then show ?thesis using Some HardenFails
        by (auto simp: save_def Let_def harden_permissions_def save_hardened_def intro: exI [of _ Written])
    next
      case False
      then show ?thesis using Some HardenFails by (simp add: save_def Let_def harden_permissions_def save_hardened_def)
    qed
  next
    case (RenameFails e)
    then show ?thesis using Some
      by (auto simp: save_def Let_def harden_permissions_def save_hardened_def intro!: exI [of _ Hardened])
  qed
qed

lemma save_ok_fault_free: "save s st None fs = (Inr (), save_at s st Renamed fs)"
  by (simp add: save_def Let_def harden_permissions_def save_hardened_def)

lemma save_cases:
  obtains (refused) e pt where "save s st fault fs = (Inl e, save_at s st pt fs)" and "pt \<noteq> Renamed"
  | (completed) "save s st fault fs = (Inr (), save_at s st Renamed fs)"
  using save_outcomes by blast

lemma load_recorded: "recorded s fs = Some st \<Longrightarrow> load s now False fs = Inr st"
  by (auto simp: recorded_def load_def read_file_def split: option.splits)

lemma load_only_state_file:
  "fs (state_path s) = fs' (state_path s) \<Longrightarrow> load s now refused fs = load s now refused fs'"
  by (cases refused) (simp_all add: load_def read_file_def)

lemma load_Inr_cases:
  "load s now refused fs = Inr st \<Longrightarrow>
     recorded s fs = Some st \<or> st = agent_state_default now"
  by (auto simp: recorded_def load_def read_file_def split: option.splits sum.splits if_splits)

section \<open>The store as an interface\<close>

text \<open>
  What a user of the store may rely on: a completed save is what is recorded, and a save that was
  stopped, by a crash or a refusal, leaves either what was recorded or the new state, nothing in
  between.
\<close>

locale durable_store =
  fixes sound :: "'e \<Rightarrow> bool"
    and reads :: "'e \<Rightarrow> 'f \<Rightarrow> 'st option"
    and saved :: "'e \<Rightarrow> 'st \<Rightarrow> 'f \<Rightarrow> 'f"
    and stopped :: "'e \<Rightarrow> 'st \<Rightarrow> 'f \<Rightarrow> 'f \<Rightarrow> bool"
  assumes reads_saved: "sound e \<Longrightarrow> reads e (saved e st f) = Some st"
    and reads_stopped: "sound e \<Longrightarrow> stopped e st f f' \<Longrightarrow> reads e f' = reads e f \<or> reads e f' = Some st"
begin

lemma keeps:
  assumes "sound e" and "f' = saved e st f \<or> stopped e st f f'" and "P (Some st)" and "P (reads e f)"
  shows "P (reads e f')"
  using assms reads_saved reads_stopped by metis

lemma forward:
  fixes mark :: "'st \<Rightarrow> 'm::order"
  assumes "sound e" and "f' = saved e st f \<or> stopped e st f f'"
    and "reads e f = Some st0" and "mark st0 \<le> mark st"
  shows "\<exists>st1. reads e f' = Some st1 \<and> mark st0 \<le> mark st1"
  using keeps [OF assms(1,2), of "\<lambda>r. \<exists>st1. r = Some st1 \<and> mark st0 \<le> mark st1"] assms(3,4) by blast

end

definition store_sound :: "'c store \<Rightarrow> bool" where
  "store_sound s \<longleftrightarrow> codec_ok (store_codec s)"

definition save_stopped :: "'c store \<Rightarrow> agent_state \<Rightarrow> 'c fs \<Rightarrow> 'c fs \<Rightarrow> bool" where
  "save_stopped s st fs fs' \<longleftrightarrow> (\<exists>pt. fs' = save_at s st pt fs)"

interpretation disk: durable_store store_sound recorded "\<lambda>s st. save_at s st Renamed" save_stopped
proof unfold_locales
  fix s :: "'c store" and st fs fs'
  assume s: "store_sound s"
  show "recorded s (save_at s st Renamed fs) = Some st"
    using s recorded_save_at [of s st Renamed fs] by (simp add: store_sound_def del: save_at.simps)
  assume "save_stopped s st fs fs'"
  then show "recorded s fs' = recorded s fs \<or> recorded s fs' = Some st"
    using s by (auto simp: store_sound_def save_stopped_def recorded_save_at simp del: save_at.simps)
qed

section \<open>Properties\<close>

text \<open>C26. A crash at any point of a save is atomic: the next load reads either exactly what it would
  have read before the save began or exactly the state being saved, whatever partial text the crash
  left in the temporary file. The points a crash can leave are all there is: a save, whatever is
  refused on the way, ends at one of them, at the last one exactly when it reports success.\<close>

theorem save_is_crash_atomic:
  assumes "codec_ok (store_codec s)"
  shows "load s now False (save_at s st pt fs) = (if pt = Renamed then Inr st else load s now False fs)
     \<and> (\<exists>last. snd (save s st fault fs) = save_at s st last fs \<and> (fst (save s st fault fs) = Inr () \<longleftrightarrow> last = Renamed))"
proof
  show "load s now False (save_at s st pt fs) = (if pt = Renamed then Inr st else load s now False fs)"
  proof (cases "pt = Renamed")
    case True
    then show ?thesis using load_recorded recorded_save_at [OF assms, of st pt fs] by simp
  next
    case False
    then show ?thesis
      using load_only_state_file [of "save_at s st pt fs" s fs] save_at_state [OF False, of s st fs] by simp
  qed
  show "\<exists>last. snd (save s st fault fs) = save_at s st last fs \<and> (fst (save s st fault fs) = Inr () \<longleftrightarrow> last = Renamed)"
  proof (cases rule: save_cases [of s st fault fs])
    case (refused e pt)
    then show ?thesis by (intro exI [of _ pt]) simp
  next
    case completed
    then show ?thesis by (intro exI [of _ Renamed]) (simp del: save_at.simps)
  qed
qed

text \<open>A codec whose file contents are states, or junk that does not parse.\<close>

definition plain_codec :: "(agent_state + string) codec" where
  "plain_codec = \<lparr>to_json = Inl, from_json = (\<lambda>c. case c of Inl st \<Rightarrow> Some st | Inr _ \<Rightarrow> None)\<rparr>"

lemma plain_codec_ok: "codec_ok plain_codec"
  by (simp add: codec_ok_def plain_codec_def)

definition example_store :: "(agent_state + string) store" where
  "example_store = \<lparr>store_dir = ''/var/lib/taymna-agent'', store_unix = True, store_create_mode = 420,
     store_codec = plain_codec\<rparr>"

theorem save_is_crash_atomic_witness:
  "load example_store 9 False (save_at example_store (agent_state_default 5) (PartlyWritten (Inr ''{''))
     (save_at example_store (agent_state_default 3) Renamed Map.empty)) = Inr (agent_state_default 3)"
proof -
  have c: "codec_ok (store_codec example_store)" by (simp add: example_store_def plain_codec_ok)
  show ?thesis
    by (simp only: save_is_crash_atomic [OF c, of 9 "agent_state_default 5", THEN conjunct1]
        save_is_crash_atomic [OF c, of 9 "agent_state_default 3", THEN conjunct1]) simp
qed

text \<open>A save that reports an error has changed nothing that a load can see, and one that reports
  success is what the next load returns, whatever the operating system refused on the way.\<close>

theorem save_error_changes_nothing:
  assumes "codec_ok (store_codec s)" and "save s st fault fs = (result, fs')"
  shows "(case result of Inl e \<Rightarrow> load s now refused fs' = load s now refused fs
     | Inr _ \<Rightarrow> load s now False fs' = Inr st)"
proof (cases rule: save_cases [of s st fault fs])
  case (refused e pt)
  have "result = Inl e" and fs': "fs' = save_at s st pt fs" using assms(2) refused(1) by simp_all
  moreover have "load s now refused fs' = load s now refused fs"
    unfolding fs' by (rule load_only_state_file) (rule save_at_state [OF refused(2)])
  ultimately show ?thesis by simp
next
  case completed
  have "result = Inr ()" and fs': "fs' = save_at s st Renamed fs" using assms(2) completed by simp_all
  moreover have "load s now False fs' = Inr st"
    unfolding fs' by (rule load_recorded) (simp add: recorded_save_at [OF assms(1)] del: save_at.simps)
  ultimately show ?thesis by simp
qed

theorem save_error_changes_nothing_witness:
  "load example_store 9 False (snd (save example_store (agent_state_default 5) (Some (RenameFails OtherIo)) Map.empty))
     = load example_store 9 False Map.empty"
proof -
  have c: "codec_ok (store_codec example_store)" by (simp add: example_store_def plain_codec_ok)
  have e: "save example_store (agent_state_default 5) (Some (RenameFails OtherIo)) Map.empty =
      (Inl OtherIo, snd (save example_store (agent_state_default 5) (Some (RenameFails OtherIo)) Map.empty))"
    by (simp add: save_def Let_def harden_permissions_def example_store_def)
  show ?thesis using save_error_changes_nothing [OF c e, of 9 False] by simp
qed

text \<open>A state file that exists but does not parse is never taken for a fresh machine: loading it for
  the run is an error and nothing else, while enrollment gets defaults and the unreadable file is
  kept under its own name and out of the way (or, if it cannot be moved, left in place).\<close>

theorem corrupt_file_is_never_a_blank_slate:
  assumes "fs (state_path s) = Some f" and "from_json (store_codec s) (f_contents f) = None"
  shows "load s now False fs = Inl InvalidData
     \<and> load_for_enroll s now False True fs =
         (Inr (agent_state_default now), fs(state_path s := None, corrupt_path s \<mapsto> f))
     \<and> load_for_enroll s now False False fs = (Inr (agent_state_default now), fs)"
proof -
  have "load s now False fs = Inl InvalidData" using assms by (simp add: load_def read_file_def)
  then show ?thesis using assms(1)
    by (auto simp: load_for_enroll_def fs_rename_def fun_upd_twist)
qed

theorem corrupt_file_is_never_a_blank_slate_witness:
  "load example_store 9 False [state_path example_store \<mapsto> \<lparr>f_contents = Inr ''not json at all'', f_mode = 384\<rparr>]
     = Inl InvalidData"
  using corrupt_file_is_never_a_blank_slate
    [of "[state_path example_store \<mapsto> \<lparr>f_contents = Inr ''not json at all'', f_mode = 384\<rparr>]" example_store]
  by (simp add: example_store_def plain_codec_def)

text \<open>On Unix the state file never holds a saved state readable by others: after a save, at
  whatever point it stopped, the state file is either the file that was there or one with the new
  text and owner-only permissions.\<close>

theorem saved_state_is_owner_only:
  assumes "store_unix s"
  shows "save_at s st pt fs (state_path s) = fs (state_path s)
     \<or> save_at s st pt fs (state_path s) =
         Some \<lparr>f_contents = to_json (store_codec s) st, f_mode = owner_only\<rparr>"
  using save_at_state [of pt s st fs] save_at_renamed [of s st fs] assms by (cases "pt = Renamed") auto

theorem saved_state_is_owner_only_witness:
  "store_unix example_store \<and>
   (save_at example_store (agent_state_default 5) Renamed Map.empty (state_path example_store) = None
    \<or> save_at example_store (agent_state_default 5) Renamed Map.empty (state_path example_store) =
         Some \<lparr>f_contents = Inl (agent_state_default 5), f_mode = owner_only\<rparr>)"
proof -
  have u: "store_unix example_store" by (simp add: example_store_def)
  show ?thesis using u saved_state_is_owner_only [OF u, of "agent_state_default 5" Renamed Map.empty]
    by (simp add: example_store_def plain_codec_def)
qed

end
