(* ===== verification/Client.thy ===== *)
theory Client imports Storage begin

text \<open>
  The connection task of \<open>agent/src/client.rs\<close>: what it sends and accepts, one connection
  (\<open>connect_and_serve\<close>: the dial, the queued commands, then the select loop) and the reconnecting
  loop around it (\<open>run\<close>), as one state machine. An input is what the environment answers: whether
  the dial succeeds, which branch of the select becomes ready and with what, whether a send
  succeeds. An output is what the task does, in order: requests, messages handed to the socket,
  events handed to the run loop, sleeps. JSON, the URL and header parsers and the version stamped at
  build time are not in the repository: they are the record \<open>ws_lib\<close>, a parameter.
\<close>

section \<open>Data\<close>

text \<open>Durations of the reconnect loop, in seconds.\<close>

definition HEARTBEAT_INTERVAL :: nat where "HEARTBEAT_INTERVAL = 20"
definition MIN_BACKOFF :: nat where "MIN_BACKOFF = 1"
definition MAX_BACKOFF :: nat where "MAX_BACKOFF = 30"

lemmas backoffs = MIN_BACKOFF_def MAX_BACKOFF_def

datatype agent_to_server =
    Heartbeat int string
  | DecommissionAck

datatype client_command = AckDecommission

definition DECOMMISSION_FINALIZED_CODE :: "16 word" where "DECOMMISSION_FINALIZED_CODE = 4003"
definition INVALID_CREDENTIAL_CODE :: "16 word" where "INVALID_CREDENTIAL_CODE = 4001"

datatype server_to_agent =
    SessionStateMsg "session_snapshot option" datetime
  | HeartbeatAckMsg datetime
  | DecommissionMsg
  | ErrorMsg string string

datatype server_event =
    SessionState "session_snapshot option" datetime
  | ServerTime datetime
  | Decommission

datatype outcome = Disconnected | Finalized

datatype conn_error = BadUrl | BadHeader | ConnectFailed | SendFailed | ReadFailed

text \<open>
  \<open>parse_message\<close> is \<open>serde_json::from_str\<close> on the text of a message, \<open>request_ok\<close> and \<open>header_ok\<close> whether
  a URL and a header value are accepted, \<open>agent_version\<close> the version stamped at build time.
\<close>

record ws_lib =
  parse_message :: "string \<Rightarrow> server_to_agent option"
  request_ok :: "string \<Rightarrow> bool"
  header_ok :: "string \<Rightarrow> bool"
  agent_version :: string

text \<open>What \<open>read.next()\<close> can give: a text, a close frame with its code if any, another frame, an error,
  or the end of the stream.\<close>

datatype read_item = TextFrame string | CloseFrame "16 word option" | OtherFrame | ReadError | StreamEnd

text \<open>The branches of the select, each with the wall clock and the answer to a send it may make.\<close>

datatype conn_input =
    HeartbeatTick datetime bool
  | Recv "client_command option" bool
  | Incoming read_item datetime bool

text \<open>A dial: whether it connects, the commands queued by then, whether the first send succeeds.\<close>

record dial =
  connects :: bool
  queued :: "client_command list"
  ack_send_ok :: bool

datatype client_input = Dial dial | Serve conn_input

datatype client_act =
    Request string string
  | Send agent_to_server
  | Emit server_event
  | SleepSecs nat

section \<open>Operations\<close>

text \<open>\<open>DateTime::timestamp_millis\<close>.\<close>

definition timestamp_millis :: "datetime \<Rightarrow> int" where
  "timestamp_millis t = t div 1000000"

definition heartbeat :: "ws_lib \<Rightarrow> datetime \<Rightarrow> agent_to_server" where
  "heartbeat lib now = Heartbeat (timestamp_millis now) (agent_version lib)"

definition event_of :: "server_to_agent \<Rightarrow> server_event option" where
  "event_of m =
     (case m of
        SessionStateMsg session server_time \<Rightarrow>
          let message_time = (case map_option updated_at session of Some t \<Rightarrow> t | None \<Rightarrow> server_time)
          in Some (SessionState session message_time)
      | HeartbeatAckMsg server_time \<Rightarrow> Some (ServerTime server_time)
      | DecommissionMsg \<Rightarrow> Some Decommission
      | ErrorMsg code message \<Rightarrow> None)"

definition handle_message :: "ws_lib \<Rightarrow> string \<Rightarrow> server_event list" where
  "handle_message lib txt =
     (case parse_message lib txt of
        None \<Rightarrow> []
      | Some message \<Rightarrow> (case event_of message of Some e \<Rightarrow> [e] | None \<Rightarrow> []))"

definition trim_end :: "char \<Rightarrow> string \<Rightarrow> string" where
  "trim_end c s = rev (dropWhile (\<lambda>x. x = c) (rev s))"

fun strip_prefix :: "string \<Rightarrow> string \<Rightarrow> string option" where
  "strip_prefix [] s = Some s"
| "strip_prefix (p # ps) [] = None"
| "strip_prefix (p # ps) (c # cs) = (if p = c then strip_prefix ps cs else None)"

definition to_ws_url :: "string \<Rightarrow> string" where
  "to_ws_url url =
     (let base = trim_end CHR ''/'' url
      in case strip_prefix ''https://'' base of
           Some rest \<Rightarrow> ''wss://'' @ rest @ ''/ws''
         | None \<Rightarrow>
             (case strip_prefix ''http://'' base of
                Some rest \<Rightarrow> ''ws://'' @ rest @ ''/ws''
              | None \<Rightarrow> ''wss://'' @ base @ ''/ws''))"

text \<open>Handing a message to the socket; a failed send is the error that ends the connection.\<close>

definition send :: "agent_to_server \<Rightarrow> bool \<Rightarrow> client_act list \<times> (conn_error + outcome) option" where
  "send m ok = ([Send m], if ok then None else Some (Inl SendFailed))"

text \<open>The state of an open connection: whether the server was greeted, and the flag \<open>ack_decommission\<close>
  that outlives the connection.\<close>

record conn =
  greeted :: bool
  ack :: bool

text \<open>One pass of the select loop: what it does, the state after, and how the connection ended, if it did.\<close>

fun serve_step ::
  "ws_lib \<Rightarrow> conn \<Rightarrow> conn_input \<Rightarrow> client_act list \<times> conn \<times> (conn_error + outcome) option" where
  "serve_step lib c (HeartbeatTick now ok) =
     (let (out, end) = send (heartbeat lib now) ok in (out, c, end))"
| "serve_step lib c (Recv (Some AckDecommission) ok) =
     (let (out, end) = send DecommissionAck ok in (out, c\<lparr>ack := True\<rparr>, end))"
| "serve_step lib c (Recv None ok) = ([], c, Some (Inr Disconnected))"
| "serve_step lib c (Incoming (TextFrame txt) now ok) =
     (let events = map Emit (handle_message lib txt)
      in if greeted c then (events, c, None)
         else (let (out, end) = send (heartbeat lib now) ok
               in (events @ out, c\<lparr>greeted := True\<rparr>, end)))"
| "serve_step lib c (Incoming (CloseFrame code) now ok) =
     (if code = Some DECOMMISSION_FINALIZED_CODE then ([], c, Some (Inr Finalized))
      else if ack c \<and> code = Some INVALID_CREDENTIAL_CODE then ([], c, Some (Inr Finalized))
      else ([], c, Some (Inr Disconnected)))"
| "serve_step lib c (Incoming OtherFrame now ok) = ([], c, None)"
| "serve_step lib c (Incoming ReadError now ok) = ([], c, Some (Inl ReadFailed))"
| "serve_step lib c (Incoming StreamEnd now ok) = ([], c, Some (Inr Disconnected))"

text \<open>The start of a connection, up to the select loop.\<close>

definition drain :: "client_command list \<Rightarrow> bool \<Rightarrow> bool" where
  "drain cmds a = fold (\<lambda>cmd a. case cmd of AckDecommission \<Rightarrow> True) cmds a"

definition auth_value :: "credentials \<Rightarrow> string" where
  "auth_value creds = ''Machine '' @ machine_id creds @ ''.'' @ machine_secret creds"

definition connect ::
  "ws_lib \<Rightarrow> string \<Rightarrow> credentials \<Rightarrow> bool \<Rightarrow> dial \<Rightarrow> client_act list \<times> conn \<times> (conn_error + outcome) option"
  where
  "connect lib ws_url creds a d =
     (let c = \<lparr>greeted = False, ack = a\<rparr>
      in if \<not> request_ok lib ws_url then ([], c, Some (Inl BadUrl))
         else if \<not> header_ok lib (auth_value creds) then ([], c, Some (Inl BadHeader))
         else let req = [Request ws_url (auth_value creds)]
              in if \<not> connects d then (req, c, Some (Inl ConnectFailed))
                 else let c' = c\<lparr>ack := drain (queued d) a\<rparr>
                      in if ack c'
                         then (let (out, end) = send DecommissionAck (ack_send_ok d) in (req @ out, c', end))
                         else (req, c', None))"

text \<open>The task: about to dial, with the current backoff; serving a connection; or ended.\<close>

datatype client_state =
    Dialing nat bool
  | Serving nat conn
  | Stopped

definition client_start :: client_state where
  "client_start = Dialing MIN_BACKOFF False"

text \<open>What \<open>run\<close> does with the result of a connection.\<close>

definition settle :: "nat \<Rightarrow> bool \<Rightarrow> conn_error + outcome \<Rightarrow> client_act list \<times> client_state" where
  "settle backoff a result =
     (case result of
        Inr Finalized \<Rightarrow> ([], Stopped)
      | Inr Disconnected \<Rightarrow>
          (let backoff = MIN_BACKOFF in ([SleepSecs backoff], Dialing (min (backoff * 2) MAX_BACKOFF) a))
      | Inl err \<Rightarrow> ([SleepSecs backoff], Dialing (min (backoff * 2) MAX_BACKOFF) a))"

definition after ::
  "nat \<Rightarrow> client_act list \<times> conn \<times> (conn_error + outcome) option \<Rightarrow> client_act list \<times> client_state" where
  "after backoff res =
     (case res of (out, c, end) \<Rightarrow>
        (case end of
           None \<Rightarrow> (out, Serving backoff c)
         | Some result \<Rightarrow> (let (out', st) = settle backoff (ack c) result in (out @ out', st))))"

text \<open>The whole task. A dial is answered only while dialing and the select only while serving: the two
  remaining combinations do not occur and change nothing.\<close>

fun client_step ::
  "ws_lib \<Rightarrow> credentials \<Rightarrow> client_state \<Rightarrow> client_input \<Rightarrow> client_act list \<times> client_state" where
  "client_step lib creds (Dialing backoff a) (Dial d) =
     after backoff (connect lib (to_ws_url (server_url creds)) creds a d)"
| "client_step lib creds (Serving backoff c) (Serve i) = after backoff (serve_step lib c i)"
| "client_step lib creds st i = ([], st)"

abbreviation client_run ::
  "ws_lib \<Rightarrow> credentials \<Rightarrow> client_state \<Rightarrow> client_input list \<Rightarrow> client_act list \<times> client_state" where
  "client_run lib creds \<equiv> run_out (client_step lib creds)"

section \<open>Lemmas\<close>

lemmas client_defs = connect_def after_def settle_def send_def Let_def

lemma drain_iff: "drain cmds a \<longleftrightarrow> a \<or> cmds \<noteq> []"
proof -
  have "drain cmds True" for cmds by (induction cmds) (auto simp: drain_def split: client_command.splits)
  then show ?thesis by (cases cmds) (auto simp: drain_def split: client_command.splits)
qed

subsection \<open>What an input brings\<close>

fun commands :: "client_input \<Rightarrow> client_command list" where
  "commands (Dial d) = queued d"
| "commands (Serve (Recv (Some cmd) ok)) = [cmd]"
| "commands (Serve i) = []"

fun close_code :: "client_input \<Rightarrow> 16 word option" where
  "close_code (Serve (Incoming (CloseFrame code) now ok)) = code"
| "close_code i = None"

text \<open>Whether the task acknowledges on its next connections; an ended task has nothing left to do.\<close>

fun acked :: "client_state \<Rightarrow> bool" where
  "acked (Dialing b a) = a"
| "acked (Serving b c) = ack c"
| "acked Stopped = True"

fun backoff_of :: "client_state \<Rightarrow> nat option" where
  "backoff_of (Dialing b a) = Some b"
| "backoff_of (Serving b c) = Some b"
| "backoff_of Stopped = None"

subsection \<open>One step of the task\<close>

lemma after_cases:
  obtains (still) out c where "res = (out, c, None)" and "after b res = (out, Serving b c)"
  | (finalized) out c where "res = (out, c, Some (Inr Finalized))" and "after b res = (out, Stopped)"
  | (disconnected) out c where "res = (out, c, Some (Inr Disconnected))"
      and "after b res = (out @ [SleepSecs 1], Dialing 2 (ack c))"
  | (failed) out c e where "res = (out, c, Some (Inl e))"
      and "after b res = (out @ [SleepSecs b], Dialing (min (b * 2) 30) (ack c))"
proof -
  obtain out c e where "res = (out, c, e)" by (cases res)
  moreover have "e = None \<or> e = Some (Inr Finalized) \<or> e = Some (Inr Disconnected) \<or> (\<exists>x. e = Some (Inl x))"
  proof (cases e)
    case (Some r)
    then show ?thesis by (cases r) (auto intro: outcome.exhaust)
  qed simp
  ultimately show thesis
    using that by (auto simp: after_def settle_def backoffs)
qed

lemma client_step_cases:
  obtains (dial) b a d where "st = Dialing b a" and "i = Dial d"
      and "client_step lib creds st i = after b (connect lib (to_ws_url (server_url creds)) creds a d)"
  | (serve) b c j where "st = Serving b c" and "i = Serve j"
      and "client_step lib creds st i = after b (serve_step lib c j)"
  | (idle) "client_step lib creds st i = ([], st)"
  by (cases st; cases i) auto

lemma serve_step_ack:
  "ack (fst (snd (serve_step lib c j))) \<longleftrightarrow> ack c \<or> commands (Serve j) \<noteq> []"
  by (cases "(lib, c, j)" rule: serve_step.cases) (auto simp: Let_def send_def)

lemma connect_ack:
  "ack (fst (snd (connect lib url creds a d))) \<Longrightarrow> a \<or> commands (Dial d) \<noteq> []"
  "a \<Longrightarrow> ack (fst (snd (connect lib url creds a d)))"
  by (auto simp: client_defs drain_iff split: if_splits)

lemma serve_step_sends_ack:
  "Send DecommissionAck \<in> set (fst (serve_step lib c j)) \<Longrightarrow> commands (Serve j) \<noteq> []"
  by (cases "(lib, c, j)" rule: serve_step.cases) (auto simp: Let_def send_def heartbeat_def split: if_splits)

lemma connect_sends_ack:
  "Send DecommissionAck \<in> set (fst (connect lib url creds a d)) \<Longrightarrow> a \<or> commands (Dial d) \<noteq> []"
  by (auto simp: client_defs drain_iff split: if_splits)

lemma serve_step_finalized:
  "snd (snd (serve_step lib c j)) = Some (Inr Finalized) \<Longrightarrow>
     close_code (Serve j) = Some 4003 \<or> ack c \<and> close_code (Serve j) = Some 4001"
  by (cases "(lib, c, j)" rule: serve_step.cases)
     (auto simp: Let_def send_def DECOMMISSION_FINALIZED_CODE_def INVALID_CREDENTIAL_CODE_def split: if_splits)

lemma connect_not_finalized: "snd (snd (connect lib url creds a d)) \<noteq> Some (Inr Finalized)"
  by (auto simp: client_defs)

text \<open>Acknowledging never stops, and begins only with a command (or the end of the task).\<close>

lemma acked_step: "acked st \<Longrightarrow> acked (snd (client_step lib creds st i))"
proof (cases st i lib creds rule: client_step_cases)
  case (dial b a d)
  assume "acked st"
  then show ?thesis using dial connect_ack(2) [of a lib "to_ws_url (server_url creds)" creds d]
    by (cases "connect lib (to_ws_url (server_url creds)) creds a d" b rule: after_cases) auto
next
  case (serve b c j)
  assume "acked st"
  then show ?thesis using serve serve_step_ack [of lib c j]
    by (cases "serve_step lib c j" b rule: after_cases) auto
qed simp

lemma acked_run: "acked st \<Longrightarrow> acked (snd (client_run lib creds st is))"
  by (induction "is" arbitrary: st) (auto simp: acked_step)

lemma becomes_acked:
  assumes "\<not> acked st" and "acked (snd (client_step lib creds st i))"
  shows "commands i \<noteq> [] \<or> snd (client_step lib creds st i) = Stopped \<and> close_code i = Some 4003"
proof (cases st i lib creds rule: client_step_cases)
  case (dial b a d)
  then show ?thesis using assms connect_ack(1) [of lib "to_ws_url (server_url creds)" creds a d]
      connect_not_finalized [of lib "to_ws_url (server_url creds)" creds a d]
    by (cases "connect lib (to_ws_url (server_url creds)) creds a d" b rule: after_cases) auto
next
  case (serve b c j)
  then show ?thesis using assms serve_step_ack [of lib c j] serve_step_finalized [of lib c j]
    by (cases "serve_step lib c j" b rule: after_cases) auto
qed (use assms in simp)

lemma sends_ack_step:
  "Send DecommissionAck \<in> set (fst (client_step lib creds st i)) \<Longrightarrow> acked st \<or> commands i \<noteq> []"
proof (cases st i lib creds rule: client_step_cases)
  case (dial b a d)
  assume "Send DecommissionAck \<in> set (fst (client_step lib creds st i))"
  then show ?thesis using dial connect_sends_ack [of lib "to_ws_url (server_url creds)" creds a d]
    by (cases "connect lib (to_ws_url (server_url creds)) creds a d" b rule: after_cases) auto
next
  case (serve b c j)
  assume "Send DecommissionAck \<in> set (fst (client_step lib creds st i))"
  then show ?thesis using serve serve_step_sends_ack [of lib c j]
    by (cases "serve_step lib c j" b rule: after_cases) auto
qed simp

lemma stopped_step:
  assumes "snd (client_step lib creds st i) = Stopped"
  shows "st = Stopped \<or> close_code i = Some 4003 \<or> acked st \<and> close_code i = Some 4001"
proof (cases st i lib creds rule: client_step_cases)
  case (dial b a d)
  then show ?thesis
    using assms connect_not_finalized [of lib "to_ws_url (server_url creds)" creds a d]
    by (cases "connect lib (to_ws_url (server_url creds)) creds a d" b rule: after_cases) auto
next
  case (serve b c j)
  then show ?thesis using assms serve_step_finalized [of lib c j]
    by (cases "serve_step lib c j" b rule: after_cases) auto
qed (use assms in simp)

subsection \<open>Sleeps\<close>

definition backoff_ok :: "client_state \<Rightarrow> bool" where
  "backoff_ok st \<longleftrightarrow> (\<forall>b. backoff_of st = Some b \<longrightarrow> 1 \<le> b \<and> b \<le> 30)"

fun sleep_ok :: "client_act \<Rightarrow> bool" where
  "sleep_ok (SleepSecs n) = (1 \<le> n \<and> n \<le> 30)"
| "sleep_ok act = True"

lemma serve_step_awake: "SleepSecs n \<notin> set (fst (serve_step lib c j))"
  by (cases "(lib, c, j)" rule: serve_step.cases) (auto simp: Let_def send_def)

lemma connect_awake: "SleepSecs n \<notin> set (fst (connect lib url creds a d))"
  by (auto simp: client_defs)

lemma after_sleep:
  assumes "\<And>n. SleepSecs n \<notin> set (fst res)" and "1 \<le> b" and "b \<le> 30"
  shows "backoff_ok (snd (after b res)) \<and> list_all sleep_ok (fst (after b res))"
proof -
  have "list_all sleep_ok (fst res)"
    unfolding list_all_iff
  proof
    fix x assume "x \<in> set (fst res)"
    with assms(1) show "sleep_ok x" by (cases x) auto
  qed
  then show ?thesis
    using assms(2,3) by (cases res b rule: after_cases) (auto simp: backoff_ok_def)
qed

lemma client_step_sleep:
  assumes "backoff_ok st"
  shows "backoff_ok (snd (client_step lib creds st i)) \<and> list_all sleep_ok (fst (client_step lib creds st i))"
  using assms
  by (cases st i lib creds rule: client_step_cases)
     (simp_all add: backoff_ok_def [of "Dialing b a" for b a] backoff_ok_def [of "Serving b c" for b c]
        after_sleep [OF serve_step_awake] after_sleep [OF connect_awake])

fun sleeps :: "client_act list \<Rightarrow> nat list" where
  "sleeps [] = []"
| "sleeps (SleepSecs n # as) = n # sleeps as"
| "sleeps (_ # as) = sleeps as"

lemma sleeps_append [simp]: "sleeps (as @ bs) = sleeps as @ sleeps bs"
  by (induction as rule: sleeps.induct) auto

lemma failed_dial:
  assumes "\<not> connects d"
  shows "sleeps (fst (client_step lib creds (Dialing b a) (Dial d))) = [b]
     \<and> snd (client_step lib creds (Dialing b a) (Dial d)) = Dialing (min (b * 2) 30) a"
  using assms by (simp add: client_defs backoffs)

lemma failed_dials:
  assumes "\<forall>d \<in> set ds. \<not> connects d"
  shows "sleeps (fst (client_run lib creds (Dialing (min (2 ^ k) 30) a) (map Dial ds)))
     = map (\<lambda>n. min (2 ^ n) 30) [k..<k + length ds]"
  using assms
proof (induction ds arbitrary: k)
  case (Cons d ds)
  have "min (min (2 ^ k) 30 * 2) 30 = min (2 ^ Suc k) (30 :: nat)" by (simp add: min_def)
  then show ?case using Cons.IH [of "Suc k"] Cons.prems
      failed_dial [of d lib creds "min (2 ^ k) 30" a] by (simp add: upt_rec)
qed simp

subsection \<open>Events\<close>

fun emitted :: "client_act list \<Rightarrow> server_event list" where
  "emitted [] = []"
| "emitted (Emit e # as) = e # emitted as"
| "emitted (_ # as) = emitted as"

lemma emitted_append [simp]: "emitted (as @ bs) = emitted as @ emitted bs"
  by (induction as rule: emitted.induct) auto

lemma emitted_map [simp]: "emitted (map Emit es) = es"
  by (induction es) auto

fun texts :: "conn_input list \<Rightarrow> string list" where
  "texts [] = []"
| "texts (Incoming (TextFrame txt) now ok # js) = txt # texts js"
| "texts (_ # js) = texts js"

lemma serve_step_emits:
  "emitted (fst (serve_step lib c j)) = concat (map (handle_message lib) (texts [j]))"
  by (cases "(lib, c, j)" rule: serve_step.cases) (auto simp: Let_def send_def)

lemma texts_Cons: "texts (j # js) = texts [j] @ texts js"
  by (cases "[j]" rule: texts.cases) auto

lemma client_not_serving:
  assumes "\<nexists>b c. st = Serving b c"
  shows "snd (client_run lib creds st (map Serve js)) = st"
  using assms by (induction js) (cases st; simp)+

lemma serving_run_emits:
  assumes "snd (client_run lib creds (Serving b c) (map Serve js)) = Serving b' c'"
  shows "emitted (fst (client_run lib creds (Serving b c) (map Serve js)))
     = concat (map (handle_message lib) (texts js))"
  using assms
proof (induction js arbitrary: b c)
  case (Cons j js)
  obtain c1 where c1: "client_step lib creds (Serving b c) (Serve j) = (fst (serve_step lib c j), Serving b c1)"
    using Cons.prems client_not_serving [of "snd (client_step lib creds (Serving b c) (Serve j))" lib creds js]
    by (cases "serve_step lib c j" b rule: after_cases) auto
  then have "emitted (fst (client_run lib creds (Serving b c1) (map Serve js)))
     = concat (map (handle_message lib) (texts js))"
    using Cons by simp
  then show ?case using c1 serve_step_emits [of lib c j] texts_Cons [of j js] by simp
qed simp

subsection \<open>URLs\<close>

lemma strip_prefix_append [simp]: "strip_prefix ps (ps @ s) = Some s"
  by (induction ps) auto

lemma strip_prefix_Some: "strip_prefix ps s = Some r \<longleftrightarrow> s = ps @ r"
  by (induction ps s rule: strip_prefix.induct) auto

lemma dropWhile_replicate: "dropWhile (\<lambda>x. x = c) (replicate n c @ t) = dropWhile (\<lambda>x. x = c) t"
  by (induction n) auto

lemma trim_end_slashes: "trim_end c (s @ replicate n c) = trim_end c s"
  by (simp add: trim_end_def dropWhile_replicate)

lemma trim_end_id: "s = [] \<or> last s \<noteq> c \<Longrightarrow> trim_end c s = s"
  by (cases s rule: rev_cases) (auto simp: trim_end_def)

section \<open>Properties\<close>

definition example_lib :: ws_lib where
  "example_lib = \<lparr>parse_message = (\<lambda>txt. if txt = ''decommission'' then Some DecommissionMsg
       else if txt = ''time'' then Some (HeartbeatAckMsg 7) else None),
     request_ok = (\<lambda>url. True), header_ok = (\<lambda>v. True), agent_version = ''0.0.0-dev''\<rparr>"

definition example_credentials :: credentials where
  "example_credentials = \<lparr>server_url = ''https://taymna.example.com'', machine_id = ''m-1'', machine_secret = ''s3cret''\<rparr>"

text \<open>C33. The agent acknowledges a decommission only after it was told to, and nothing but the
  acknowledgement's command can release it: over any life of the connection task, whatever the
  network does, an acknowledgement among the messages sent means that the run loop had issued the
  command, and the task ends only on the close code 4003, or on 4001 after the command. Errors,
  rejected credentials and clean closes never end a managed agent's connection task.\<close>

theorem ack_and_stop_need_a_reason:
  "(Send DecommissionAck \<in> set (fst (client_run lib creds client_start is)) \<longrightarrow> (\<exists>i \<in> set is. commands i \<noteq> []))
   \<and> (snd (client_run lib creds client_start is) = Stopped \<longrightarrow>
        (\<exists>i \<in> set is. close_code i = Some 4003)
        \<or> (\<exists>i \<in> set is. close_code i = Some 4001) \<and> (\<exists>i \<in> set is. commands i \<noteq> []))"
proof -
  let ?P = "\<lambda>is. \<exists>i \<in> set is. commands i \<noteq> []"
  let ?F = "\<lambda>is. \<exists>i \<in> set is. close_code i = Some 4003"
  let ?R = "\<lambda>is. \<exists>i \<in> set is. close_code i = Some 4001"
  have "(Send DecommissionAck \<in> set (fst (client_run lib creds client_start is)) \<longrightarrow> ?P is)
    \<and> (acked (snd (client_run lib creds client_start is)) \<longrightarrow> ?P is \<or>
        ?F is \<and> snd (client_run lib creds client_start is) = Stopped)
    \<and> (snd (client_run lib creds client_start is) = Stopped \<longrightarrow> ?F is \<or> ?R is \<and> ?P is)"
  proof (induction "is" rule: rev_induct)
    case Nil
    show ?case by (simp add: client_start_def)
  next
    case (snoc i "is")
    define st where "st = snd (client_run lib creds client_start is)"
    define st' where "st' = snd (client_step lib creds st i)"
    have out: "fst (client_run lib creds client_start (is @ [i])) =
        fst (client_run lib creds client_start is) @ fst (client_step lib creds st i)"
      and st': "snd (client_run lib creds client_start (is @ [i])) = st'"
      by (simp_all add: run_out_append st_def st'_def)
    have stop: "st = Stopped \<or> close_code i = Some 4003 \<or> acked st \<and> close_code i = Some 4001" if "st' = Stopped"
      using that stopped_step [of lib creds st i] by (simp add: st'_def)
    have stay: "st = Stopped \<Longrightarrow> st' = Stopped \<and> fst (client_step lib creds st i) = []" by (simp add: st'_def)
    show ?case
      using snoc.IH [folded st_def] sends_ack_step [of lib creds st i] becomes_acked [of st lib creds i, folded st'_def]
        stop stay unfolding out st' by auto
  qed
  then show ?thesis by blast
qed

text \<open>A task that is told to acknowledge while connected, does so again on the next dial and is then
  rejected with 4001.\<close>

definition example_life :: "client_input list" where
  "example_life =
     [Dial \<lparr>connects = True, queued = [], ack_send_ok = True\<rparr>, Serve (Incoming (TextFrame ''decommission'') 5000000 True),
      Serve (Recv (Some AckDecommission) False), Dial \<lparr>connects = True, queued = [], ack_send_ok = True\<rparr>,
      Serve (Incoming (CloseFrame (Some 4001)) 0 True)]"

lemmas client_eval = example_lib_def example_credentials_def example_life_def client_start_def
  connect_def after_def settle_def send_def drain_def backoffs heartbeat_def timestamp_millis_def
  handle_message_def event_of_def DECOMMISSION_FINALIZED_CODE_def INVALID_CREDENTIAL_CODE_def

lemma example_life_run:
  "client_run example_lib example_credentials client_start example_life =
     ([Request (to_ws_url ''https://taymna.example.com'') ''Machine m-1.s3cret'', Emit Decommission,
       Send (Heartbeat 5 ''0.0.0-dev''), Send DecommissionAck, SleepSecs 1,
       Request (to_ws_url ''https://taymna.example.com'') ''Machine m-1.s3cret'', Send DecommissionAck], Stopped)"
  by (simp add: client_eval run_out.simps auth_value_def)

theorem ack_and_stop_need_a_reason_witness:
  "snd (client_run example_lib example_credentials client_start example_life) = Stopped
   \<and> ((\<exists>i \<in> set example_life. close_code i = Some 4003)
      \<or> (\<exists>i \<in> set example_life. close_code i = Some 4001) \<and> (\<exists>i \<in> set example_life. commands i \<noteq> []))"
proof -
  have "snd (client_run example_lib example_credentials client_start example_life) = Stopped"
    by (simp add: example_life_run)
  then show ?thesis using ack_and_stop_need_a_reason [of example_lib example_credentials example_life] by blast
qed

text \<open>An acknowledgement, once asked for, is delivered again on every connection until the server
  finalizes: whatever happens after the command, errors and failed sends included, the next dial
  that connects sends the acknowledgement first, before anything else goes out or is read.\<close>

theorem ack_redelivered_first:
  assumes "acked st" and "snd (client_run lib creds st is) = Dialing b a"
    and "request_ok lib (to_ws_url (server_url creds))" and "header_ok lib (auth_value creds)" and "connects d"
  shows "\<exists>rest. fst (client_step lib creds (Dialing b a) (Dial d)) =
     Request (to_ws_url (server_url creds)) (auth_value creds) # Send DecommissionAck # rest"
proof -
  have a using acked_run [OF assms(1), of lib creds "is"] assms(2) by simp
  then show ?thesis using assms(3-5) by (auto simp: client_defs drain_iff split: option.splits sum.splits)
qed

theorem ack_redelivered_first_witness:
  "\<exists>rest. fst (client_step example_lib example_credentials (Dialing 4 True)
     (Dial \<lparr>connects = True, queued = [], ack_send_ok = True\<rparr>)) =
     Request (to_ws_url (server_url example_credentials)) (auth_value example_credentials) # Send DecommissionAck # rest"
proof (rule ack_redelivered_first)
  show "acked (Serving 2 \<lparr>greeted = True, ack = True\<rparr>)" by simp
  show "snd (client_run example_lib example_credentials (Serving 2 \<lparr>greeted = True, ack = True\<rparr>)
     [Serve (Incoming ReadError 0 True)]) = Dialing 4 True"
    by (simp add: client_eval)
qed (simp_all add: example_lib_def)

text \<open>The reconnect loop never spins and never gives up: every sleep of any life of the task is
  between 1 and 30 seconds, and a server that cannot be reached is retried after 1, 2, 4, 8, 16 and
  then always 30 seconds, with as many attempts as there is time for.\<close>

theorem backoff_schedule:
  assumes "\<forall>d \<in> set ds. \<not> connects d"
  shows "list_all sleep_ok (fst (client_run lib creds client_start is))
     \<and> sleeps (fst (client_run lib creds client_start (map Dial ds)))
         = map (\<lambda>n. min (2 ^ n) 30) [0..<length ds]"
proof
  have "backoff_ok client_start" by (simp add: backoff_ok_def client_start_def backoffs)
  then show "list_all sleep_ok (fst (client_run lib creds client_start is))"
    using run_out_invariant [of backoff_ok client_start "client_step lib creds" sleep_ok "is"] client_step_sleep
    by blast
  show "sleeps (fst (client_run lib creds client_start (map Dial ds))) = map (\<lambda>n. min (2 ^ n) 30) [0..<length ds]"
    using failed_dials [OF assms, of lib creds 0 False] by (simp add: client_start_def backoffs)
qed

theorem backoff_schedule_witness:
  "sleeps (fst (client_run example_lib example_credentials client_start
      (map Dial (replicate 7 \<lparr>connects = False, queued = [], ack_send_ok = False\<rparr>))))
     = map (\<lambda>n. min (2 ^ n) 30) [0..<7]"
  using backoff_schedule [of "replicate 7 \<lparr>connects = False, queued = [], ack_send_ok = False\<rparr>"
      example_lib example_credentials "[]"] by simp

text \<open>An open connection hands the run loop exactly the messages it received, each once and in the
  order of arrival: the events emitted while it stays open are those of the texts read, a text that
  is not a protocol message or reports an error giving none.\<close>

theorem messages_forwarded_in_order:
  assumes "snd (client_run lib creds (Serving b c) (map Serve js)) = Serving b' c'"
  shows "emitted (fst (client_run lib creds (Serving b c) (map Serve js)))
     = concat (map (handle_message lib) (texts js))"
  using serving_run_emits [OF assms] .

theorem messages_forwarded_in_order_witness:
  "emitted (fst (client_run example_lib example_credentials (Serving 1 \<lparr>greeted = True, ack = False\<rparr>)
      (map Serve [Incoming (TextFrame ''time'') 0 True, Incoming (TextFrame ''junk'') 0 True,
         HeartbeatTick 20 True, Incoming (TextFrame ''decommission'') 0 True])))
     = concat (map (handle_message example_lib) (texts [Incoming (TextFrame ''time'') 0 True,
         Incoming (TextFrame ''junk'') 0 True, HeartbeatTick 20 True, Incoming (TextFrame ''decommission'') 0 True]))"
  by (rule messages_forwarded_in_order [where b' = 1 and c' = "\<lparr>greeted = True, ack = False\<rparr>"])
     (simp add: client_eval)

text \<open>The credential travels unencrypted only to a server that was enrolled with an explicit
  \<open>http://\<close> address: every other address, with or without a scheme, becomes a TLS WebSocket URL;
  host and path are kept, trailing slashes do not matter, and the path \<open>/ws\<close> is appended.\<close>

theorem ws_url_keeps_security:
  assumes "host \<noteq> []" and "last host \<noteq> CHR ''/''"
  shows "to_ws_url (''https://'' @ host @ replicate n CHR ''/'') = ''wss://'' @ host @ ''/ws''
     \<and> to_ws_url (''http://'' @ host @ replicate n CHR ''/'') = ''ws://'' @ host @ ''/ws''
     \<and> ((\<exists>rest. to_ws_url url = ''ws://'' @ rest) \<longleftrightarrow> (\<exists>rest. trim_end CHR ''/'' url = ''http://'' @ rest))
     \<and> (\<exists>rest. to_ws_url url = ''wss://'' @ rest \<or> to_ws_url url = ''ws://'' @ rest)"
proof (intro conjI)
  have trim: "trim_end CHR ''/'' (p @ host @ replicate n CHR ''/'') = p @ host" for p
    using trim_end_slashes [of "CHR ''/''" "p @ host" n] trim_end_id [of "p @ host" "CHR ''/''"] assms by simp
  show "to_ws_url (''https://'' @ host @ replicate n CHR ''/'') = ''wss://'' @ host @ ''/ws''"
    unfolding to_ws_url_def trim Let_def by simp
  show "to_ws_url (''http://'' @ host @ replicate n CHR ''/'') = ''ws://'' @ host @ ''/ws''"
    unfolding to_ws_url_def trim Let_def by simp
  show "(\<exists>rest. to_ws_url url = ''ws://'' @ rest) \<longleftrightarrow> (\<exists>rest. trim_end CHR ''/'' url = ''http://'' @ rest)"
    by (auto simp: to_ws_url_def Let_def strip_prefix_Some split: option.splits)
  show "\<exists>rest. to_ws_url url = ''wss://'' @ rest \<or> to_ws_url url = ''ws://'' @ rest"
    by (auto simp: to_ws_url_def Let_def split: option.splits)
qed

theorem ws_url_keeps_security_witness:
  "to_ws_url ''https://taymna.example.com/'' = ''wss://taymna.example.com/ws''"
  using ws_url_keeps_security [of "''taymna.example.com''" 1] by simp

end
