(* ===== verification/Agent.thy ===== *)
theory Agent imports Warning Client begin

text \<open>
  The run loop and the enrollment of \<open>agent/src/main.rs\<close>. A handler of the loop (one branch of the
  \<open>select!\<close>) is a function from the loop's variables and the branch's input to the calls it makes, in
  order, and the variables after: a plan. The calls (enforcement, warnings, saves, commands) are
  values here; the theory World performs them one by one, between the steps of the other tasks,
  with saves that may fail and crashes that may come at any point. A failing save ends \<open>run\<close> (the
  \<open>?\<close> of the code), so the variables a plan comes with matter only when all of it was performed.
\<close>

section \<open>The loop's variables\<close>

definition TICK_INTERVAL :: nat where "TICK_INTERVAL = 2"

record loop_state =
  ls_state :: agent_state
  ls_clock :: clock_guard
  ls_blocked :: bool
  ls_warnings :: expiry_warnings
  ls_decommissioned :: bool
  ls_events_closed :: bool

datatype action =
    DisableUsage
  | EnableUsage
  | Warn warning_effect
  | SaveState agent_state
  | Command client_command

datatype flow = Continue | Break

text \<open>
  A branch that became ready: the shutdown signal; an event (or the end of the channel), with the
  monotonic clock a resynchronisation reads; the ticker, with the clocks the tick reads.
\<close>

datatype loop_input =
    ShutdownRequested
  | EventRecv "server_event option" instant
  | TickAt clock_reading

section \<open>Handlers\<close>

definition accept_decommission :: "loop_state \<Rightarrow> action list \<times> loop_state" where
  "accept_decommission ls =
     (let state = (ls_state ls)\<lparr>st_decommissioned := True, st_session := None\<rparr>
      in ([SaveState state, Warn DismissFinalWarning, Command AckDecommission], ls\<lparr>ls_state := state\<rparr>))"

fun on_event :: "loop_state \<Rightarrow> server_event option \<Rightarrow> instant \<Rightarrow> action list \<times> loop_state" where
  "on_event ls (Some Decommission) m =
     (if \<not> ls_decommissioned ls
      then (let (plan, ls') = accept_decommission ls in (plan, ls'\<lparr>ls_decommissioned := True\<rparr>))
      else ([], ls))"
| "on_event ls (Some (SessionState session message_time)) m =
     (if \<not> ls_decommissioned ls
      then (let (applied, session', last_applied_at') =
                  apply_server_message (st_session (ls_state ls)) (st_last_applied_at (ls_state ls)) session message_time;
                state = (ls_state ls)\<lparr>st_session := session', st_last_applied_at := last_applied_at'\<rparr>
            in if applied
               then (let clock = resync_from_server (ls_clock ls) message_time m;
                         state = state\<lparr>st_high_water_mark := high_water_mark clock\<rparr>
                     in ([SaveState state], ls\<lparr>ls_state := state, ls_clock := clock\<rparr>))
               else ([], ls\<lparr>ls_state := state\<rparr>))
      else ([], ls))"
| "on_event ls (Some (ServerTime server_time)) m =
     (if \<not> ls_decommissioned ls
      then (let clock = resync_from_server (ls_clock ls) server_time m;
                state = (ls_state ls)\<lparr>st_high_water_mark := high_water_mark clock\<rparr>
            in ([], ls\<lparr>ls_state := state, ls_clock := clock\<rparr>))
      else ([], ls))"
| "on_event ls None m = ([], ls\<lparr>ls_events_closed := True\<rparr>)"

fun enforce :: "desired \<Rightarrow> bool \<Rightarrow> action list \<times> bool" where
  "enforce Blocked currently_blocked = ([DisableUsage], True)"
| "enforce Allowed currently_blocked =
     (if currently_blocked then ([EnableUsage], False) else ([], currently_blocked))"

text \<open>\<open>None\<close> is the panic of the clock past the last representable time.\<close>

definition on_tick :: "loop_state \<Rightarrow> clock_reading \<Rightarrow> (action list \<times> loop_state) option" where
  "on_tick ls r =
     (if ls_decommissioned ls then Some ([], ls)
      else case guard_now (ls_clock ls) r of
             None \<Rightarrow> None
           | Some (trusted_now, clock) \<Rightarrow>
               (let (wish, session) = advance (st_session (ls_state ls)) trusted_now;
                    state = (ls_state ls)\<lparr>st_high_water_mark := high_water_mark clock, st_session := session\<rparr>;
                    (enforcement, currently_blocked) = enforce wish (ls_blocked ls);
                    (effects, warnings) = reconcile (ls_warnings ls) session trusted_now
                in Some (enforcement @ map Warn effects @ [SaveState state],
                     ls\<lparr>ls_state := state, ls_clock := clock, ls_blocked := currently_blocked,
                        ls_warnings := warnings\<rparr>)))"

fun handle :: "loop_state \<Rightarrow> loop_input \<Rightarrow> (action list \<times> flow \<times> loop_state) option" where
  "handle ls ShutdownRequested = Some ([SaveState (ls_state ls)], Break, ls)"
| "handle ls (EventRecv e m) = (case on_event ls e m of (plan, ls') \<Rightarrow> Some (plan, Continue, ls'))"
| "handle ls (TickAt r) = map_option (\<lambda>(plan, ls'). (plan, Continue, ls')) (on_tick ls r)"

text \<open>The guard of the select: the events branch is off once the channel has ended.\<close>

fun enabled :: "loop_state \<Rightarrow> loop_input \<Rightarrow> bool" where
  "enabled ls (EventRecv e m) = (\<not> ls_events_closed ls)"
| "enabled ls i = True"

section \<open>Starting\<close>

text \<open>Loading fails; not enrolled; decommissioned without a credential (inert until a signal comes); or
  the loop starts, and the client with it, after the calls of the plan.\<close>

datatype startup =
    LoadFails io_kind
  | NotEnrolled
  | InertUntilShutdown
  | Starts credentials loop_state "action list"

definition run_start :: "'c store \<Rightarrow> datetime \<Rightarrow> bool \<Rightarrow> instant \<Rightarrow> 'c fs \<Rightarrow> startup" where
  "run_start s now refused m fs =
     (case load s now refused fs of
        Inl e \<Rightarrow> LoadFails e
      | Inr state \<Rightarrow>
          (case st_credentials state of
             None \<Rightarrow> if st_decommissioned state then InertUntilShutdown else NotEnrolled
           | Some creds \<Rightarrow>
               (let decommissioned = st_decommissioned state
                in Starts creds
                     \<lparr>ls_state = state, ls_clock = guard_new (st_high_water_mark state) m, ls_blocked = True,
                      ls_warnings = warnings_new, ls_decommissioned = decommissioned,
                      ls_events_closed = False\<rparr>
                     (if decommissioned then [Command AckDecommission] else []))))"

text \<open>What \<open>wait_for_shutdown\<close> waits for: Ctrl+C, on Unix SIGTERM, and the service's stop (sent or dropped).\<close>

record signals =
  ctrl_c :: bool
  sigterm :: bool
  stop_resolved :: bool

definition shutdown_signal :: "bool \<Rightarrow> signals \<Rightarrow> bool" where
  "shutdown_signal unix sig = (if unix then ctrl_c sig \<or> sigterm sig else ctrl_c sig)"

definition wait_for_shutdown :: "bool \<Rightarrow> bool \<Rightarrow> signals \<Rightarrow> bool" where
  "wait_for_shutdown unix external_stop sig =
     (if external_stop then shutdown_signal unix sig \<or> stop_resolved sig else shutdown_signal unix sig)"

section \<open>Enrollment\<close>

record http_response =
  http_status :: nat
  http_body :: "string option"

definition is_success :: "http_response \<Rightarrow> bool" where
  "is_success r \<longleftrightarrow> 200 \<le> http_status r \<and> http_status r < 300"

text \<open>\<open>parse_enrolled\<close> reads the machine's id and secret of a response's JSON, \<open>json_message\<close> the reason in
  an error envelope.\<close>

record enroll_lib =
  parse_enrolled :: "string \<Rightarrow> (string \<times> string) option"
  json_message :: "string \<Rightarrow> string option"

datatype enroll_error =
    Unreachable
  | Rejected nat string
  | BadResponse
  | EnrollLoadFails io_kind
  | EnrollSaveFails io_kind

definition enroll_url :: "string \<Rightarrow> string" where
  "enroll_url server = trim_end CHR ''/'' server @ ''/machines/enroll''"

definition rejection :: "enroll_lib \<Rightarrow> http_response \<Rightarrow> enroll_error" where
  "rejection lib r =
     (let body = (case http_body r of Some b \<Rightarrow> b | None \<Rightarrow> '''')
      in Rejected (http_status r) (case json_message lib body of Some reason \<Rightarrow> reason | None \<Rightarrow> body))"

definition enrolled_state :: "string \<Rightarrow> string \<times> string \<Rightarrow> agent_state \<Rightarrow> agent_state" where
  "enrolled_state server parsed state =
     (let state = state\<lparr>st_credentials := Some \<lparr>server_url = server, machine_id = fst parsed, machine_secret = snd parsed\<rparr>\<rparr>
      in state\<lparr>st_decommissioned := False, st_session := None\<rparr>)"

text \<open>\<open>post\<close> is the API's answer to a URL and a token (\<open>None\<close>: not reached); the result is the id printed.\<close>

definition enroll ::
  "'c store \<Rightarrow> enroll_lib \<Rightarrow> (string \<Rightarrow> string \<Rightarrow> http_response option) \<Rightarrow> string \<Rightarrow> string \<Rightarrow> datetime
     \<Rightarrow> bool \<Rightarrow> bool \<Rightarrow> 'c save_fault option \<Rightarrow> 'c fs \<Rightarrow> (enroll_error + string) \<times> 'c fs" where
  "enroll s lib post server token now refused rename_works fault fs =
     (case post (enroll_url server) token of
        None \<Rightarrow> (Inl Unreachable, fs)
      | Some response \<Rightarrow>
          if \<not> is_success response then (Inl (rejection lib response), fs)
          else (case Option.bind (http_body response) (parse_enrolled lib) of
                  None \<Rightarrow> (Inl BadResponse, fs)
                | Some parsed \<Rightarrow>
                    (case load_for_enroll s now refused rename_works fs of
                       (Inl e, fs1) \<Rightarrow> (Inl (EnrollLoadFails e), fs1)
                     | (Inr state, fs1) \<Rightarrow>
                         (case save s (enrolled_state server parsed state) fault fs1 of
                            (Inl e, fs2) \<Rightarrow> (Inl (EnrollSaveFails e), fs2)
                          | (Inr _, fs2) \<Rightarrow> (Inr (fst parsed), fs2)))))"

section \<open>Lemmas\<close>

declare accept_decommission_def [handler_defs] on_tick_def [handler_defs] Let_def [handler_defs]

text \<open>The loop over a list of inputs. A panic and a break end the process; here they keep the state.\<close>

definition loop_step :: "loop_state \<Rightarrow> loop_input \<Rightarrow> action list \<times> loop_state" where
  "loop_step ls i = (case handle ls i of None \<Rightarrow> ([], ls) | Some (plan, fl, ls') \<Rightarrow> (plan, ls'))"

lemma loop_step_simps [simp]:
  "loop_step ls ShutdownRequested = ([SaveState (ls_state ls)], ls)"
  "loop_step ls (EventRecv e m) = on_event ls e m"
  "loop_step ls (TickAt r) = (case on_tick ls r of None \<Rightarrow> ([], ls) | Some res \<Rightarrow> res)"
  by (auto simp: loop_step_def split: prod.splits option.splits)

subsection \<open>Ticks\<close>

lemma enforce_cases:
  "enforce (if usable then Allowed else Blocked) blocked =
     (if usable then (if blocked then [EnableUsage] else []) else [DisableUsage], \<not> usable)"
  by auto

lemma on_tick_managed:
  assumes "\<not> ls_decommissioned ls" and "guard_now (ls_clock ls) r = Some (t, g)"
  defines "session \<equiv> snd (advance (st_session (ls_state ls)) t)"
  defines "state \<equiv> (ls_state ls)\<lparr>st_high_water_mark := t, st_session := session\<rparr>"
  shows "on_tick ls r = Some
     ((if usable_at (st_session (ls_state ls)) t then (if ls_blocked ls then [EnableUsage] else [])
       else [DisableUsage])
      @ map Warn (fst (reconcile (ls_warnings ls) session t)) @ [SaveState state],
      ls\<lparr>ls_state := state, ls_clock := g, ls_blocked := \<not> usable_at (st_session (ls_state ls)) t,
         ls_warnings := snd (reconcile (ls_warnings ls) session t)\<rparr>)"
proof -
  have adv: "advance (st_session (ls_state ls)) t =
      (if usable_at (st_session (ls_state ls)) t then Allowed else Blocked, session)"
    using advance_desired [of "st_session (ls_state ls)" t] by (simp add: prod_eq_iff session_def)
  show ?thesis
    using assms(1,2) guard_now_mark [OF assms(2)]
    unfolding on_tick_def adv enforce_cases Let_def prod.case state_def
    by (simp add: adv enforce_cases case_prod_unfold)
qed

lemma on_tick_decommissioned [simp]: "ls_decommissioned ls \<Longrightarrow> on_tick ls r = Some ([], ls)"
  by (simp add: on_tick_def)

lemma on_tick_panics: "on_tick ls r = None \<longleftrightarrow> \<not> ls_decommissioned ls \<and> guard_now (ls_clock ls) r = None"
  by (auto simp: handler_defs split: option.splits prod.splits)

lemma on_event_decommissioned:
  "ls_decommissioned ls \<Longrightarrow> fst (on_event ls e m) = [] \<and> ls_state (snd (on_event ls e m)) = ls_state ls
     \<and> ls_decommissioned (snd (on_event ls e m))"
  by (cases "(ls, e, m)" rule: on_event.cases) auto

text \<open>A tick by cases: no effect, a panic, or the plan of a managed machine.\<close>

lemma on_tick_cases:
  obtains (inert) "ls_decommissioned ls" and "on_tick ls r = Some ([], ls)"
  | (panics) "\<not> ls_decommissioned ls" and "guard_now (ls_clock ls) r = None" and "on_tick ls r = None"
  | (ticks) t g where "\<not> ls_decommissioned ls" and "guard_now (ls_clock ls) r = Some (t, g)"
  by (cases "ls_decommissioned ls"; cases "guard_now (ls_clock ls) r") (auto simp: on_tick_panics)

subsection \<open>The parts of a plan\<close>

fun is_enforcement :: "action \<Rightarrow> bool" where
  "is_enforcement DisableUsage = True"
| "is_enforcement EnableUsage = True"
| "is_enforcement a = False"

fun is_warning :: "action \<Rightarrow> bool" where
  "is_warning (Warn e) = True"
| "is_warning a = False"

lemma filter_Warn [simp]:
  "filter is_enforcement (map Warn es) = []" "filter (\<lambda>a. \<not> is_warning a) (map Warn es) = []"
  by (induction es) auto

lemma on_event_enforcement: "filter is_enforcement (fst (on_event ls e m)) = []"
  by (cases "(ls, e, m)" rule: on_event.cases) (auto simp: handler_defs split: prod.splits)

lemma on_event_blocked: "ls_blocked (snd (on_event ls e m)) = ls_blocked ls"
  by (cases "(ls, e, m)" rule: on_event.cases) (auto simp: handler_defs split: prod.splits)

text \<open>The loop's variables without those of the warnings.\<close>

definition with_warnings :: "expiry_warnings \<Rightarrow> loop_state \<Rightarrow> loop_state" where
  "with_warnings w ls = ls\<lparr>ls_warnings := w\<rparr>"

lemma with_warnings_simps [simp]:
  "ls_state (with_warnings w ls) = ls_state ls" "ls_clock (with_warnings w ls) = ls_clock ls"
  "ls_blocked (with_warnings w ls) = ls_blocked ls" "ls_warnings (with_warnings w ls) = w"
  "ls_decommissioned (with_warnings w ls) = ls_decommissioned ls"
  "ls_events_closed (with_warnings w ls) = ls_events_closed ls"
  "with_warnings w (with_warnings v ls) = with_warnings w ls"
  by (simp_all add: with_warnings_def)

lemma on_event_with_warnings:
  "fst (on_event (with_warnings w ls) e m) = fst (on_event ls e m)
   \<and> snd (on_event (with_warnings w ls) e m) = with_warnings w (snd (on_event ls e m))"
  by (cases "(ls, e, m)" rule: on_event.cases) (auto simp: handler_defs with_warnings_def split: prod.splits)

lemma loop_step_without_warnings:
  "\<exists>v. snd (loop_step (with_warnings w ls) i) = with_warnings v (snd (loop_step ls i))
     \<and> filter (\<lambda>a. \<not> is_warning a) (fst (loop_step (with_warnings w ls) i)) =
       filter (\<lambda>a. \<not> is_warning a) (fst (loop_step ls i))"
proof (cases i)
  case ShutdownRequested
  then show ?thesis by auto
next
  case (EventRecv e m)
  then show ?thesis using on_event_with_warnings [of w ls e m] by auto
next
  case (TickAt r)
  show ?thesis
  proof (rule on_tick_cases [of ls r])
    assume "ls_decommissioned ls"
    then show ?thesis using TickAt by auto
  next
    assume panics: "\<not> ls_decommissioned ls" "guard_now (ls_clock ls) r = None" "on_tick ls r = None"
    moreover have "on_tick (with_warnings w ls) r = None" using panics by (simp add: on_tick_panics)
    ultimately show ?thesis using TickAt by auto
  next
    fix t g assume ticks: "\<not> ls_decommissioned ls" "guard_now (ls_clock ls) r = Some (t, g)"
    then show ?thesis
      using TickAt on_tick_managed [OF ticks] on_tick_managed [of "with_warnings w ls" r t g]
      by (auto simp: with_warnings_def)
  qed
qed

subsection \<open>Enforcement over a run\<close>

lemma loop_step_enforcement:
  "filter is_enforcement (fst (loop_step ls i)) = [] \<and> ls_blocked (snd (loop_step ls i)) = ls_blocked ls
   \<or> filter is_enforcement (fst (loop_step ls i)) = [DisableUsage] \<and> ls_blocked (snd (loop_step ls i))
   \<or> filter is_enforcement (fst (loop_step ls i)) = [EnableUsage] \<and> ls_blocked ls
       \<and> \<not> ls_blocked (snd (loop_step ls i))"
proof (cases i)
  case ShutdownRequested
  then show ?thesis by simp
next
  case (EventRecv e m)
  then show ?thesis using on_event_enforcement on_event_blocked by simp
next
  case (TickAt r)
  show ?thesis
  proof (rule on_tick_cases [of ls r])
    fix t g assume "\<not> ls_decommissioned ls" and "guard_now (ls_clock ls) r = Some (t, g)"
    from on_tick_managed [OF this] show ?thesis using TickAt by auto
  qed (use TickAt in auto)
qed

text \<open>The enforcement calls of a run: releases happen only out of a block, and never twice in a row.\<close>

lemma enforcement_alternates:
  defines "calls ls is \<equiv> filter is_enforcement (fst (run_out loop_step ls is))"
  shows "successively (\<lambda>a b. \<not> (a = EnableUsage \<and> b = EnableUsage)) (calls ls is)
     \<and> (\<not> ls_blocked ls \<longrightarrow> calls ls is = [] \<or> hd (calls ls is) = DisableUsage)"
proof (induction "is" arbitrary: ls)
  case Nil
  show ?case by (simp add: calls_def)
next
  case (Cons i "is")
  let ?ls = "snd (loop_step ls i)"
  have c: "calls ls (i # is) = filter is_enforcement (fst (loop_step ls i)) @ calls ?ls is"
    by (simp add: calls_def)
  show ?case
    using loop_step_enforcement [of ls i] Cons.IH [of ?ls]
    by (cases "calls ?ls is") (auto simp: c)
qed

subsection \<open>The trusted mark\<close>

definition loop_mark :: "loop_state \<Rightarrow> datetime" where
  "loop_mark ls = high_water_mark (ls_clock ls)"

lemma on_event_mark: "loop_mark ls \<le> loop_mark (snd (on_event ls e m))"
  by (cases "(ls, e, m)" rule: on_event.cases) (auto simp: handler_defs loop_mark_def split: prod.splits)

lemma loop_step_mark: "loop_mark ls \<le> loop_mark (snd (loop_step ls i))"
proof (cases i)
  case (TickAt r)
  show ?thesis
  proof (rule on_tick_cases [of ls r])
    fix t g assume a: "\<not> ls_decommissioned ls" "guard_now (ls_clock ls) r = Some (t, g)"
    from on_tick_managed [OF this] guard_now_forward [OF a(2)] guard_now_mark [OF a(2)]
    show ?thesis using TickAt by (simp add: loop_mark_def)
  qed (use TickAt in auto)
qed (use on_event_mark in auto)

interpretation loop: forward_mark "\<lambda>ls i. snd (loop_step ls i)" loop_mark
  by unfold_locales (rule loop_step_mark)

subsection \<open>Enrollment\<close>

lemma load_for_enroll_recorded:
  assumes "load_for_enroll s now refused rename_works fs = (res, fs1)"
  shows "recorded s fs1 = recorded s fs
     \<and> (\<forall>st. res = Inr st \<longrightarrow> recorded s fs = Some st \<or> recorded s fs = None \<and> st = agent_state_default now)"
  using assms
  by (auto simp: load_for_enroll_def load_def read_file_def recorded_def fs_rename_def
      split: option.splits sum.splits if_splits)

text \<open>An enrollment that succeeds records the identity of the answer in the state there was.\<close>

lemma enroll_answered:
  assumes "codec_ok (store_codec s)"
    and "enroll s lib post server token now refused rename_works fault fs = (result, fs')"
  shows "(\<exists>e. result = Inl e \<and> recorded s fs' = recorded s fs)
     \<or> (\<exists>mid old secret. result = Inr mid
         \<and> (recorded s fs = Some old \<or> recorded s fs = None \<and> old = agent_state_default now)
         \<and> recorded s fs' = Some (enrolled_state server (mid, secret) old)
         \<and> (\<exists>response. post (enroll_url server) token = Some response \<and> is_success response
              \<and> Option.bind (http_body response) (parse_enrolled lib) = Some (mid, secret)))"
proof (cases "post (enroll_url server) token")
  case None
  then show ?thesis using assms(2) by (auto simp: enroll_def)
next
  case (Some response)
  show ?thesis
  proof (cases "is_success response \<and> Option.bind (http_body response) (parse_enrolled lib) \<noteq> None")
    case False
    then have "is_success response \<Longrightarrow> Option.bind (http_body response) (parse_enrolled lib) = None" by blast
    then show ?thesis using assms(2) Some by (cases "is_success response") (auto simp: enroll_def)
  next
    case True
    then obtain mid secret where ok: "is_success response"
      "Option.bind (http_body response) (parse_enrolled lib) = Some (mid, secret)" by auto
    obtain res fs1 where l: "load_for_enroll s now refused rename_works fs = (res, fs1)"
      by (cases "load_for_enroll s now refused rename_works fs")
    note lr = load_for_enroll_recorded [OF l]
    show ?thesis
    proof (cases res)
      case (Inl e)
      then show ?thesis using assms(2) Some ok l lr by (auto simp: enroll_def)
    next
      case (Inr old)
      show ?thesis
      proof (cases rule: save_cases [of s "enrolled_state server (mid, secret) old" fault fs1])
        case (refused e pt)
        then show ?thesis
          using assms Some ok l lr Inr recorded_save_at [OF assms(1), of "enrolled_state server (mid, secret) old" pt fs1]
          by (auto simp: enroll_def simp del: save_at.simps)
      next
        case completed
        then show ?thesis
          using assms Some ok l lr Inr recorded_save_at [OF assms(1), of "enrolled_state server (mid, secret) old" Renamed fs1]
          by (auto simp: enroll_def simp del: save_at.simps)
      qed
    qed
  qed
qed

lemma enroll_recorded:
  assumes "codec_ok (store_codec s)"
    and "enroll s lib post server token now refused rename_works fault fs = (result, fs')"
  shows "(\<exists>e. result = Inl e \<and> recorded s fs' = recorded s fs)
     \<or> (\<exists>mid old secret. result = Inr mid
         \<and> (recorded s fs = Some old \<or> recorded s fs = None \<and> old = agent_state_default now)
         \<and> recorded s fs' = Some (enrolled_state server (mid, secret) old))"
  using enroll_answered [OF assms] by blast

section \<open>Properties\<close>

definition example_loop :: loop_state where
  "example_loop = \<lparr>ls_state = \<lparr>st_credentials = Some example_credentials, st_decommissioned = False,
       st_session = Some example_session, st_last_applied_at = 0, st_high_water_mark = 0\<rparr>,
     ls_clock = guard_new 0 0, ls_blocked = True, ls_warnings = warnings_new, ls_decommissioned = False,
     ls_events_closed = False\<rparr>"

text \<open>C10. A tick of a managed machine enforces exactly what the session and the trusted time say, before
  anything else: it blocks when there is no active session strictly before its deadline, releases
  when there is one and the machine was blocked, and otherwise leaves the machine alone; then come
  the warnings, then the save of the state with the trusted time as its mark.\<close>

theorem tick_enforces_exactly:
  assumes "\<not> ls_decommissioned ls" and "guard_now (ls_clock ls) r = Some (t, g)"
  shows "\<exists>ls' effects. on_tick ls r = Some
     ((if usable_at (st_session (ls_state ls)) t then (if ls_blocked ls then [EnableUsage] else [])
       else [DisableUsage]) @ map Warn effects @ [SaveState (ls_state ls')], ls')
     \<and> (ls_blocked ls' \<longleftrightarrow> \<not> usable_at (st_session (ls_state ls)) t)
     \<and> st_high_water_mark (ls_state ls') = t
     \<and> st_session (ls_state ls') = map_option (\<lambda>s. expire_locally s t) (st_session (ls_state ls))
     \<and> st_credentials (ls_state ls') = st_credentials (ls_state ls) \<and> \<not> ls_decommissioned ls'"
  using on_tick_managed [OF assms] assms(1) by (auto simp: advance_session)

theorem tick_enforces_exactly_witness:
  "\<exists>ls' effects. on_tick example_loop \<lparr>os_now = secs 1800, mono_elapsed = 0, mono_anchor = 0\<rparr> = Some
     ([DisableUsage] @ map Warn effects @ [SaveState (ls_state ls')], ls')"
proof -
  have d: "\<not> ls_decommissioned example_loop" by (simp add: example_loop_def)
  have g: "guard_now (ls_clock example_loop) \<lparr>os_now = secs 1800, mono_elapsed = 0, mono_anchor = 0\<rparr> =
      Some (secs 1800, \<lparr>high_water_mark = secs 1800, anchor = 0\<rparr>)"
    by (simp add: example_loop_def guard_new_def guard_now_def secs_def)
  have "\<not> usable_at (st_session (ls_state example_loop)) (secs 1800)"
    by (simp add: example_loop_def usable_at_def example_session_def)
  with tick_enforces_exactly [OF d g] show ?thesis by auto
qed

text \<open>The warnings can never influence enforcement: two runs of the loop that differ only in the
  state of the warnings make the same calls apart from the warnings themselves (enforcement, saves
  with the same contents, acknowledgements, in the same order) and end in the same state.\<close>

theorem warnings_never_touch_enforcement:
  "filter (\<lambda>a. \<not> is_warning a) (fst (run_out loop_step (with_warnings w ls) is))
     = filter (\<lambda>a. \<not> is_warning a) (fst (run_out loop_step ls is))
   \<and> with_warnings v (snd (run_out loop_step (with_warnings w ls) is))
     = with_warnings v (snd (run_out loop_step ls is))"
proof (induction "is" arbitrary: ls w)
  case Nil
  show ?case by simp
next
  case (Cons i "is")
  obtain u where "snd (loop_step (with_warnings w ls) i) = with_warnings u (snd (loop_step ls i))"
    using loop_step_without_warnings by blast
  with Cons.IH [of u "snd (loop_step ls i)"] loop_step_without_warnings [of w ls i] show ?case by simp
qed

text \<open>The machine is released only on the way out of a block: in any run of the loop from its start,
  two releases never follow each other without a block in between, so an allowed machine is left
  alone for as long as it stays allowed.\<close>

theorem release_only_out_of_a_block:
  "successively (\<lambda>a b. \<not> (a = EnableUsage \<and> b = EnableUsage))
     (filter is_enforcement (fst (run_out loop_step ls is)))"
  using enforcement_alternates [of ls "is"] by blast

text \<open>A decommissioned machine is left alone for good: whatever ticks, session messages, duplicate
  decommissions or clock changes follow, the loop never blocks, never releases, never warns, issues
  no further command and leaves the persisted state as it is; the one call it can still make is the
  save of that same state at shutdown.\<close>

theorem decommissioned_loop_is_inert:
  assumes "ls_decommissioned ls"
  shows "set (fst (run_out loop_step ls is)) \<subseteq> {SaveState (ls_state ls)}
     \<and> ls_state (snd (run_out loop_step ls is)) = ls_state ls
     \<and> ls_decommissioned (snd (run_out loop_step ls is))"
  using assms
proof (induction "is" arbitrary: ls)
  case Nil
  then show ?case by simp
next
  case (Cons i "is")
  have "set (fst (loop_step ls i)) \<subseteq> {SaveState (ls_state ls)} \<and> ls_state (snd (loop_step ls i)) = ls_state ls
      \<and> ls_decommissioned (snd (loop_step ls i))"
    using Cons.prems on_event_decommissioned by (cases i) auto
  with Cons.IH [of "snd (loop_step ls i)"] show ?case by auto
qed

theorem decommissioned_loop_is_inert_witness:
  "set (fst (run_out loop_step (example_loop\<lparr>ls_decommissioned := True\<rparr>)
      [TickAt \<lparr>os_now = 5, mono_elapsed = 1, mono_anchor = 1\<rparr>,
       EventRecv (Some (SessionState (Some example_session) 9)) 2, EventRecv (Some Decommission) 3, ShutdownRequested]))
     \<subseteq> {SaveState (ls_state (example_loop\<lparr>ls_decommissioned := True\<rparr>))}"
  using decommissioned_loop_is_inert [of "example_loop\<lparr>ls_decommissioned := True\<rparr>"
      "[TickAt \<lparr>os_now = 5, mono_elapsed = 1, mono_anchor = 1\<rparr>,
       EventRecv (Some (SessionState (Some example_session) 9)) 2, EventRecv (Some Decommission) 3, ShutdownRequested]"]
  by (simp del: run_out_Cons)

text \<open>C32. Enrollment is all or nothing, and keeps the clock: when it reports success the API answered the
  token with a success, and the state file records exactly the identity of that answer (its machine
  id, which is also the one reported, and its secret, under the server asked), managed, without a
  session, and with the trusted mark and the message gate of the old state, if there was one; when it
  fails, for whatever reason (API not reached, token rejected, bad answer, unreadable or unwritable
  state), what the state file records is unchanged.\<close>

theorem enroll_all_or_nothing:
  assumes "codec_ok (store_codec s)"
    and "enroll s lib post server token now refused rename_works fault fs = (result, fs')"
  shows "case result of
       Inl e \<Rightarrow> recorded s fs' = recorded s fs
     | Inr mid \<Rightarrow> \<exists>old response secret. (recorded s fs = Some old \<or> recorded s fs = None \<and> old = agent_state_default now)
         \<and> post (enroll_url server) token = Some response \<and> is_success response
         \<and> Option.bind (http_body response) (parse_enrolled lib) = Some (mid, secret)
         \<and> recorded s fs' = Some (old\<lparr>st_credentials := Some \<lparr>server_url = server, machine_id = mid, machine_secret = secret\<rparr>,
              st_decommissioned := False, st_session := None\<rparr>)"
  using enroll_answered [OF assms] by (fastforce simp: enrolled_state_def)

definition example_enroll_lib :: enroll_lib where
  "example_enroll_lib = \<lparr>parse_enrolled = (\<lambda>b. if b = ''ok'' then Some (''m-1'', ''s3cret'') else None),
     json_message = (\<lambda>b. None)\<rparr>"

lemma example_enrolls:
  "load_for_enroll example_store 9 False True Map.empty = (Inr (agent_state_default 9), Map.empty)"
  by (simp add: load_for_enroll_def load_def read_file_def)

theorem enroll_all_or_nothing_witness:
  "recorded example_store (snd (enroll example_store example_enroll_lib
      (\<lambda>url token. Some \<lparr>http_status = 401, http_body = Some ''no''\<rparr>) ''https://t.example'' ''tok'' 9 False True None
      Map.empty)) = recorded example_store Map.empty
   \<and> recorded example_store (snd (enroll example_store example_enroll_lib
      (\<lambda>url token. Some \<lparr>http_status = 200, http_body = Some ''ok''\<rparr>) ''https://t.example'' ''tok'' 9 False True None
      Map.empty)) = Some ((agent_state_default 9)\<lparr>st_credentials :=
        Some \<lparr>server_url = ''https://t.example'', machine_id = ''m-1'', machine_secret = ''s3cret''\<rparr>\<rparr>)"
proof
  have c: "codec_ok (store_codec example_store)" by (simp add: example_store_def plain_codec_ok)
  have "enroll example_store example_enroll_lib (\<lambda>url token. Some \<lparr>http_status = 401, http_body = Some ''no''\<rparr>)
      ''https://t.example'' ''tok'' 9 False True None Map.empty = (Inl (Rejected 401 ''no''), Map.empty)"
    by (simp add: enroll_def is_success_def rejection_def example_enroll_lib_def)
  from enroll_all_or_nothing [OF c this]
  show "recorded example_store (snd (enroll example_store example_enroll_lib
      (\<lambda>url token. Some \<lparr>http_status = 401, http_body = Some ''no''\<rparr>) ''https://t.example'' ''tok'' 9 False True None
      Map.empty)) = recorded example_store Map.empty"
    by (simp add: enroll_def is_success_def)
  let ?post = "\<lambda>url token. Some \<lparr>http_status = 200, http_body = Some ''ok''\<rparr>"
  let ?st = "enrolled_state ''https://t.example'' (''m-1'', ''s3cret'') (agent_state_default 9)"
  let ?fs = "save_at example_store ?st Renamed Map.empty"
  have e: "enroll example_store example_enroll_lib ?post ''https://t.example'' ''tok'' 9 False True None Map.empty = (Inr ''m-1'', ?fs)"
    by (simp add: enroll_def is_success_def example_enroll_lib_def example_enrolls save_ok_fault_free del: save_at.simps)
  have "recorded example_store Map.empty = None" by (simp add: recorded_def)
  with enroll_all_or_nothing [OF c e]
  show "recorded example_store (snd (enroll example_store example_enroll_lib ?post ''https://t.example'' ''tok'' 9 False True None
      Map.empty)) = Some ((agent_state_default 9)\<lparr>st_credentials :=
        Some \<lparr>server_url = ''https://t.example'', machine_id = ''m-1'', machine_secret = ''s3cret''\<rparr>\<rparr>)"
    unfolding e by (auto simp: example_enroll_lib_def agent_state_default_def simp del: save_at.simps)
qed

end
