(* ===== verification/Countdown.thy ===== *)
theory Countdown imports Agent begin

text \<open>
  A session from its grant to the lock, seen from outside: the run loop over ticks of an honest clock,
  through the trusted clock, the session state machine, enforcement and the warnings. The loop lets
  the session expire in the tick that finds it past its deadline and evaluates the warnings on the
  expired session; the lemmas show that this changes nothing for the user.
\<close>

section \<open>Expiry and the warnings\<close>

lemma paced_later: "paced g p ts \<Longrightarrow> t \<in> set ts \<Longrightarrow> p \<le> t"
  by (induction ts arbitrary: p) force+

lemma expire_again: "t \<le> t' \<Longrightarrow> expire_locally (expire_locally s t) t' = expire_locally s t'"
  by (auto simp: expire_locally_def)

lemma usable_expired: "usable_at (Some (expire_locally s t)) t = usable_at (Some s) t"
  by (auto simp: expire_locally_def usable_at_def)

text \<open>A session that is not active has no deadline to warn about: nothing is said once nothing is up.\<close>

lemma expired_silent:
  assumes "w_key w = None" and "\<forall>x \<in> set xs. key_of (fst x) = None"
  shows "fst (run_out reconcile_in w xs) = []"
  using assms
proof (induction xs arbitrary: w)
  case (Cons x xs)
  have "reconcile_in w x = ([], w)"
    using Cons.prems by (simp add: reconcile_in_def reconcile_def rekey_def)
  then show ?case using Cons by simp
qed simp

lemma expiring_warnings:
  assumes "status s = Active" and "warnings_inv w" and "w_key w = key_of (Some s)" and "paced g p ts"
  shows "fst (run_out reconcile_in w (map (\<lambda>t. (Some (expire_locally s t), t)) ts))
     = fst (run_out reconcile_in w (map (Pair (Some s)) ts))"
  using assms(2-4)
proof (induction ts arbitrary: w p)
  case Nil
  then show ?case by simp
next
  case (Cons t ts)
  have rest: "paced g t ts" using Cons.prems(3) by simp
  show ?case
  proof (cases "t < expires_at s")
    case True
    then have "expire_locally s t = s" by (simp add: expire_locally_def)
    moreover have "w_key (snd (reconcile w (Some s) t)) = key_of (Some s)" by (rule reconcile_key)
    ultimately show ?thesis
      using Cons.IH [OF reconcile_inv [OF Cons.prems(1)] _ rest, of "Some s" t] by simp
  next
    case False
    let ?x = "Some (expire_locally s t)"
    have expired: "key_of (Some (expire_locally s t')) = None" if "t \<le> t'" for t'
      using that False assms(1) by (simp add: key_of_def expire_locally_def)
    have r: "remaining_secs (Some s) t \<le> 0"
      using False assms(1) by (auto simp: remaining_secs_def key_of_def num_seconds_def sgn_if pos_imp_zdiv_nonneg_iff)
    have quiet: "fst (reconcile w (Some s) t) = (if w_final_visible w then [DismissFinalWarning] else [])"
      "\<not> w_final_visible (snd (reconcile w (Some s) t))"
      using quiet_reconcile [OF Cons.prems(1) r] by simp_all
    have right: "fst (run_out reconcile_in (snd (reconcile w (Some s) t)) (map (Pair (Some s)) ts)) = []"
      by (rule after_deadline_silent [OF reconcile_inv [OF Cons.prems(1)] quiet(2) r rest])
    have key: "w_key w \<noteq> None" using Cons.prems(2) assms(1) by (simp add: key_of_def)
    have left: "fst (reconcile w ?x t) = (if w_final_visible w then [DismissFinalWarning] else [])"
      "w_key (snd (reconcile w ?x t)) = None"
      using expired [of t] key by (auto simp: reconcile_def rekey_def dismiss_final_def)
    have "fst (run_out reconcile_in (snd (reconcile w ?x t)) (map (\<lambda>t. (Some (expire_locally s t), t)) ts)) = []"
      using expired paced_later [OF rest] by (intro expired_silent [OF left(2)]) auto
    then show ?thesis using right left quiet by simp
  qed
qed

section \<open>Ticks of an honest clock\<close>

lemma honest_tick:
  assumes "\<not> ls_decommissioned ls" and "high_water_mark (ls_clock ls) \<le> os_now r" and "st_session (ls_state ls) = Some s"
  defines "ls' \<equiv> snd (loop_step ls (TickAt r))" and "plan \<equiv> fst (loop_step ls (TickAt r))"
  shows "filter is_warning plan = map Warn (fst (reconcile (ls_warnings ls) (Some (expire_locally s (os_now r))) (os_now r)))"
    and "filter is_enforcement plan =
      (if usable_at (Some s) (os_now r) then (if ls_blocked ls then [EnableUsage] else []) else [DisableUsage])"
    and "\<not> ls_decommissioned ls'" and "high_water_mark (ls_clock ls') = os_now r"
    and "st_session (ls_state ls') = Some (expire_locally s (os_now r))"
    and "ls_warnings ls' = snd (reconcile (ls_warnings ls) (Some (expire_locally s (os_now r))) (os_now r))"
    and "ls_blocked ls' = (\<not> usable_at (Some s) (os_now r))"
proof -
  have g: "guard_now (ls_clock ls) r = Some (os_now r, \<lparr>high_water_mark = os_now r, anchor = mono_anchor r\<rparr>)"
    using assms(2) by (simp add: guard_now_def)
  have w: "filter is_warning (map Warn es @ [SaveState st]) = map Warn es" for es st by (induction es) auto
  note tick = on_tick_managed [OF assms(1) g]
  show "filter is_warning plan = map Warn (fst (reconcile (ls_warnings ls) (Some (expire_locally s (os_now r))) (os_now r)))"
    "filter is_enforcement plan =
      (if usable_at (Some s) (os_now r) then (if ls_blocked ls then [EnableUsage] else []) else [DisableUsage])"
    "\<not> ls_decommissioned ls'" "high_water_mark (ls_clock ls') = os_now r"
    "st_session (ls_state ls') = Some (expire_locally s (os_now r))"
    "ls_warnings ls' = snd (reconcile (ls_warnings ls) (Some (expire_locally s (os_now r))) (os_now r))"
    "ls_blocked ls' = (\<not> usable_at (Some s) (os_now r))"
    using tick assms(1,3) w by (simp_all add: plan_def ls'_def advance_session)
qed

text \<open>The warnings of a run are those of the session as it expires, evaluated at the readings.\<close>

lemma ticks_warnings:
  assumes "\<not> ls_decommissioned ls" and "st_session (ls_state ls) = Some s"
    and "paced g (high_water_mark (ls_clock ls)) (map os_now rs)"
  shows "filter is_warning (fst (run_out loop_step ls (map TickAt rs)))
     = map Warn (fst (run_out reconcile_in (ls_warnings ls) (map (\<lambda>t. (Some (expire_locally s t), t)) (map os_now rs))))"
  using assms
proof (induction rs arbitrary: ls s)
  case Nil
  then show ?case by simp
next
  case (Cons r rs)
  have hon: "high_water_mark (ls_clock ls) \<le> os_now r" and rest: "paced g (os_now r) (map os_now rs)"
    using Cons.prems(3) by auto
  note tick = honest_tick [OF Cons.prems(1) hon Cons.prems(2)]
  have same: "map (\<lambda>t. (Some (expire_locally (expire_locally s (os_now r)) t), t)) (map os_now rs)
      = map (\<lambda>t. (Some (expire_locally s t), t)) (map os_now rs)"
    using paced_later [OF rest] by (auto intro: expire_again)
  let ?ls = "snd (loop_step ls (TickAt r))"
  have "filter is_warning (fst (run_out loop_step ?ls (map TickAt rs)))
     = map Warn (fst (run_out reconcile_in (ls_warnings ?ls)
         (map (\<lambda>t. (Some (expire_locally (expire_locally s (os_now r)) t), t)) (map os_now rs))))"
    by (rule Cons.IH [OF tick(3,5)]) (use rest in \<open>simp add: tick(4) del: loop_step_simps\<close>)
  then have "filter is_warning (fst (run_out loop_step ?ls (map TickAt rs)))
     = map Warn (fst (run_out reconcile_in (snd (reconcile (ls_warnings ls) (Some (expire_locally s (os_now r))) (os_now r)))
         (map (\<lambda>t. (Some (expire_locally s t), t)) (map os_now rs))))"
    unfolding same tick(6) .
  then show ?case using tick(1) by (simp del: loop_step_simps)
qed

text \<open>The enforcement of a run: a release at the start if needed, then a lock at every tick from the
  deadline on.\<close>

lemma ticks_enforcement:
  assumes "\<not> ls_decommissioned ls" and "st_session (ls_state ls) = Some s0"
    and "\<forall>t \<ge> high_water_mark (ls_clock ls). expire_locally s0 t = expire_locally s t" and "status s = Active"
    and "\<not> ls_blocked ls \<or> expires_at s \<le> high_water_mark (ls_clock ls)"
    and "paced g (high_water_mark (ls_clock ls)) (map os_now rs)"
  shows "filter is_enforcement (fst (run_out loop_step ls (map TickAt rs)))
     = replicate (length (filter (\<lambda>r. expires_at s \<le> os_now r) rs)) DisableUsage"
  using assms
proof (induction rs arbitrary: ls s0)
  case Nil
  then show ?case by simp
next
  case (Cons r rs)
  have hon: "high_water_mark (ls_clock ls) \<le> os_now r" and rest: "paced g (os_now r) (map os_now rs)"
    using Cons.prems(6) by auto
  note tick = honest_tick [OF Cons.prems(1) hon Cons.prems(2)]
  have usable: "usable_at (Some s0) (os_now r) \<longleftrightarrow> os_now r < expires_at s"
  proof -
    have "expire_locally s0 (os_now r) = expire_locally s (os_now r)" using Cons.prems(3) hon by blast
    then have "usable_at (Some s0) (os_now r) = usable_at (Some s) (os_now r)"
      using usable_expired [of s0 "os_now r"] usable_expired [of s "os_now r"] by simp
    then show ?thesis using Cons.prems(4) by (simp add: usable_at_def)
  qed
  have later: "\<forall>t \<ge> os_now r. expire_locally (expire_locally s0 (os_now r)) t = expire_locally s t"
    using Cons.prems(3) hon by (auto simp: expire_again)
  have "filter is_enforcement (fst (run_out loop_step (snd (loop_step ls (TickAt r))) (map TickAt rs)))
     = replicate (length (filter (\<lambda>r. expires_at s \<le> os_now r) rs)) DisableUsage"
  proof (rule Cons.IH [OF tick(3,5) _ Cons.prems(4)])
    show "\<forall>t \<ge> high_water_mark (ls_clock (snd (loop_step ls (TickAt r)))).
        expire_locally (expire_locally s0 (os_now r)) t = expire_locally s t"
      unfolding tick(4) by (rule later)
    show "\<not> ls_blocked (snd (loop_step ls (TickAt r))) \<or> expires_at s \<le> high_water_mark (ls_clock (snd (loop_step ls (TickAt r))))"
      unfolding tick(4,7) using usable by auto
    show "paced g (high_water_mark (ls_clock (snd (loop_step ls (TickAt r))))) (map os_now rs)"
      unfolding tick(4) by (rule rest)
  qed
  moreover have "filter is_enforcement (fst (loop_step ls (TickAt r))) = (if expires_at s \<le> os_now r then [DisableUsage] else [])"
    unfolding tick(2) using usable Cons.prems(5) hon by auto
  ultimately show ?case by (simp del: loop_step_simps)
qed

section \<open>Properties\<close>

text \<open>C30. A session from the grant to the lock: on a managed machine with an honest clock, ticks at most
  30 seconds apart from more than ten minutes before the deadline to past it, the user sees exactly
  the 10-minute, the 5-minute and the 1-minute notice, one final warning with 1 to 30 seconds left
  and its removal, in this order and each once; and the machine is released once at the start (if it
  was blocked), left alone up to the deadline, and locked at every tick from the deadline on.\<close>

theorem session_from_grant_to_lock:
  assumes "\<not> ls_decommissioned ls" and "ls_warnings ls = warnings_new" and "st_session (ls_state ls) = Some s"
    and "status s = Active" and "high_water_mark (ls_clock ls) \<le> os_now r"
    and "paced (secs 30) (os_now r) (map os_now rs)" and "600 < remaining_secs (Some s) (os_now r)"
    and "remaining_secs (Some s) (last (map os_now (r # rs))) \<le> 0"
  shows "\<exists>left. 0 < left \<and> left \<le> 30
     \<and> filter is_warning (fst (run_out loop_step ls (map TickAt (r # rs)))) =
         map Warn [Notify ten_minute_notice, Notify five_minute_notice, Notify one_minute_notice,
           ShowFinalWarning left, DismissFinalWarning]
     \<and> filter is_enforcement (fst (run_out loop_step ls (map TickAt (r # rs)))) =
         (if ls_blocked ls then [EnableUsage] else [])
           @ replicate (length (filter (\<lambda>r. expires_at s \<le> os_now r) rs)) DisableUsage"
proof -
  let ?t = "os_now r" and ?ts = "map os_now rs"
  let ?w = "\<lparr>w_key = key_of (Some s), w_fired = None, w_last_seen = Some ?t, w_final_visible = False\<rparr>"
  let ?ls = "snd (loop_step ls (TickAt r))"
  have before: "?t < expires_at s"
  proof -
    have "0 < num_seconds (expires_at s - ?t)" using assms(4,7) by (simp add: remaining_secs_def key_of_def)
    then show ?thesis by (simp add: num_seconds_pos_iff)
  qed
  then have live: "expire_locally s ?t = s" "usable_at (Some s) ?t"
    using assms(4) by (simp_all add: expire_locally_def usable_at_def)
  note tick = honest_tick [OF assms(1,5,3), unfolded live(1)]
  have fresh: "reconcile warnings_new (Some s) ?t = ([], ?w)"
    using reconcile_fresh [of "Some s" ?t] assms(7) by (simp add: arriving_late_level_cases)
  have step: "in_step ?w (Some s) ?t" "level_for (remaining_secs (Some s) ?t) = None"
    using assms(7) by (simp_all add: in_step_def level_for_cases)
  obtain left where left: "0 < left" "left \<le> 30"
    "fst (run_out reconcile_in ?w (map (Pair (Some s)) ?ts)) = to_come None left"
    using countdown_from [OF step(1) _ assms(6)] assms(7,8) step(2) by auto
  have "filter is_warning (fst (run_out loop_step ?ls (map TickAt rs)))
      = map Warn (fst (run_out reconcile_in (ls_warnings ?ls) (map (\<lambda>t. (Some (expire_locally s t), t)) ?ts)))"
    by (rule ticks_warnings [OF tick(3,5), of "secs 30"]) (use assms(6) in \<open>simp add: tick(4) del: loop_step_simps\<close>)
  also have "ls_warnings ?ls = ?w" unfolding tick(6) assms(2) fresh by simp
  also have "fst (run_out reconcile_in ?w (map (\<lambda>t. (Some (expire_locally s t), t)) ?ts)) = to_come None left"
    using expiring_warnings [OF assms(4) in_step_inv [OF step(1)] _ assms(6)] assms(7) left(3) by simp
  finally have warned: "filter is_warning (fst (run_out loop_step ?ls (map TickAt rs))) = map Warn (to_come None left)" .
  have "filter is_enforcement (fst (run_out loop_step ?ls (map TickAt rs)))
      = replicate (length (filter (\<lambda>r. expires_at s \<le> os_now r) rs)) DisableUsage"
  proof (rule ticks_enforcement [OF tick(3,5) _ assms(4)])
    show "\<not> ls_blocked ?ls \<or> expires_at s \<le> high_water_mark (ls_clock ?ls)" unfolding tick(7) using live(2) by simp
    show "paced (secs 30) (high_water_mark (ls_clock ?ls)) ?ts" unfolding tick(4) by (rule assms(6))
  qed simp
  then show ?thesis using left(1,2) warned tick(1,2) live(2)
    by (intro exI [of _ left]) (simp add: assms(2) fresh del: loop_step_simps)
qed

text \<open>The witness: ten minutes and ten seconds, a tick every half minute.\<close>

theorem session_from_grant_to_lock_witness:
  "\<exists>left. filter is_warning (fst (run_out loop_step example_loop
       (map TickAt (\<lparr>os_now = secs 1190, mono_elapsed = 0, mono_anchor = 0\<rparr>
          # map (\<lambda>n. \<lparr>os_now = secs (1200 + 30 * int n), mono_elapsed = 0, mono_anchor = 0\<rparr>) [0..<21])))) =
         map Warn [Notify ten_minute_notice, Notify five_minute_notice, Notify one_minute_notice,
           ShowFinalWarning left, DismissFinalWarning]"
proof -
  let ?r = "\<lparr>os_now = secs 1190, mono_elapsed = 0, mono_anchor = 0\<rparr>"
  let ?rs = "map (\<lambda>n. \<lparr>os_now = secs (1200 + 30 * int n), mono_elapsed = 0, mono_anchor = 0\<rparr>) [0..<21]"
  have l: "\<not> ls_decommissioned example_loop" "ls_warnings example_loop = warnings_new"
    "st_session (ls_state example_loop) = Some example_session" "status example_session = Active"
    "high_water_mark (ls_clock example_loop) \<le> os_now ?r"
    by (simp_all add: example_loop_def example_session_def guard_new_def secs_def)
  have "paced (secs 30) (os_now ?r) (map os_now ?rs)" and "600 < remaining_secs (Some example_session) (os_now ?r)"
    and "remaining_secs (Some example_session) (last (map os_now (?r # ?rs))) \<le> 0"
    by (simp_all add: upt_rec remaining_secs_def key_of_def example_session_def secs_def num_seconds_def)
  from session_from_grant_to_lock [OF l this] show ?thesis by blast
qed

end
