(* ===== verification/World.thy ===== *)
theory World imports Agent begin

text \<open>
  The whole agent on a machine: the process (the run loop performing its plan call by call, the
  connection task, the two channels between them), the disk it leaves behind, and what happens to
  them, one step at a time and in any interleaving: starting, taking a branch of the select,
  performing the next call of a plan, a step of the connection task, a failing save, a panic, a
  crash at any moment (in the middle of a save too), a shutdown, and enrolling from the command
  line. The invariants hold in every reachable state. The thread that delivers the warnings, for which
  an orderly exit waits, is added in the theory Delivery.
\<close>

section \<open>States and steps\<close>

record agent_proc =
  pr_creds :: credentials
  pr_loop :: loop_state
  pr_plan :: "action list"
  pr_flow :: flow
  pr_events :: "server_event list"
  pr_cmds :: "client_command list"
  pr_client :: client_state

datatype process = Down | Inert | Up agent_proc

record 'c world =
  w_fs :: "'c fs"
  w_proc :: process

text \<open>\<open>env_exclusive\<close>: enrolling is only ever run while the agent is stopped (as the installer does).\<close>

record 'c env =
  env_store :: "'c store"
  env_lib :: ws_lib
  env_enroll :: enroll_lib
  env_exclusive :: bool

datatype label =
    Boots
  | BootFails
  | Takes loop_input
  | Acts action
  | ActFails action
  | Panics
  | Exits
  | ClientActs "client_act list"
  | Crashes
  | Enrolls "enroll_error + string"
  | EnrollCrashes

text \<open>Which branches of the select can be ready: an event must be the next one of the channel, and the
  channel ends when the connection task has, and all its events were received.\<close>

fun available :: "agent_proc \<Rightarrow> loop_input \<Rightarrow> bool" where
  "available p (EventRecv (Some e) m) = (\<exists>rest. pr_events p = e # rest)"
| "available p (EventRecv None m) = (pr_events p = [] \<and> pr_client p = Stopped)"
| "available p i = True"

fun events_after :: "loop_input \<Rightarrow> server_event list \<Rightarrow> server_event list" where
  "events_after (EventRecv (Some e) m) es = tl es"
| "events_after i es = es"

text \<open>
  What the connection task takes from the command channel at an input, as what is left of it: a dial
  that connects drains it, a received command is its first one. The channel does not end while the
  loop runs, so the task never receives the end. \<open>None\<close>: the input cannot occur now.
\<close>

fun feed :: "ws_lib \<Rightarrow> credentials \<Rightarrow> client_state \<Rightarrow> client_command list \<Rightarrow> client_input \<Rightarrow> client_command list option"
  where
  "feed lib creds (Dialing b a) cmds (Dial d) =
     (if request_ok lib (to_ws_url (server_url creds)) \<and> header_ok lib (auth_value creds) \<and> connects d
      then (if queued d = cmds then Some [] else None)
      else (if queued d = [] then Some cmds else None))"
| "feed lib creds (Serving b c) cmds (Serve (Recv (Some cmd) ok)) =
     (case cmds of [] \<Rightarrow> None | x # rest \<Rightarrow> if x = cmd then Some rest else None)"
| "feed lib creds (Serving b c) cmds (Serve (Recv None ok)) = None"
| "feed lib creds (Serving b c) cmds (Serve i) = Some cmds"
| "feed lib creds st cmds i = None"

text \<open>Performing the first call of a plan, other than a save, on the process.\<close>

fun perform :: "action \<Rightarrow> agent_proc \<Rightarrow> agent_proc" where
  "perform (Command cmd) p = p\<lparr>pr_cmds := pr_cmds p @ [cmd]\<rparr>"
| "perform a p = p"

definition booted :: "credentials \<Rightarrow> loop_state \<Rightarrow> action list \<Rightarrow> agent_proc" where
  "booted creds ls plan = \<lparr>pr_creds = creds, pr_loop = ls, pr_plan = plan, pr_flow = Continue,
     pr_events = [], pr_cmds = [], pr_client = client_start\<rparr>"

inductive world_step :: "'c env \<Rightarrow> 'c world \<Rightarrow> label \<Rightarrow> 'c world \<Rightarrow> bool" for e where
  boot: "w_proc w = Down \<Longrightarrow> run_start (env_store e) now refused m (w_fs w) = Starts creds ls plan \<Longrightarrow>
     world_step e w Boots (w\<lparr>w_proc := Up (booted creds ls plan)\<rparr>)"
| boot_inert: "w_proc w = Down \<Longrightarrow> run_start (env_store e) now refused m (w_fs w) = InertUntilShutdown \<Longrightarrow>
     world_step e w Boots (w\<lparr>w_proc := Inert\<rparr>)"
| boot_fails: "w_proc w = Down \<Longrightarrow>
     run_start (env_store e) now refused m (w_fs w) \<in> insert NotEnrolled (range LoadFails) \<Longrightarrow>
     world_step e w BootFails w"
| inert_exit: "w_proc w = Inert \<Longrightarrow> world_step e w Exits (w\<lparr>w_proc := Down\<rparr>)"
| take: "w_proc w = Up p \<Longrightarrow> pr_plan p = [] \<Longrightarrow> pr_flow p = Continue \<Longrightarrow> enabled (pr_loop p) i \<Longrightarrow>
     available p i \<Longrightarrow> handle (pr_loop p) i = Some (plan, fl, ls) \<Longrightarrow>
     world_step e w (Takes i) (w\<lparr>w_proc :=
       Up (p\<lparr>pr_loop := ls, pr_plan := plan, pr_flow := fl, pr_events := events_after i (pr_events p)\<rparr>)\<rparr>)"
| panic: "w_proc w = Up p \<Longrightarrow> pr_plan p = [] \<Longrightarrow> pr_flow p = Continue \<Longrightarrow> handle (pr_loop p) i = None \<Longrightarrow>
     world_step e w Panics (w\<lparr>w_proc := Down\<rparr>)"
| act: "w_proc w = Up p \<Longrightarrow> pr_plan p = a # plan \<Longrightarrow> \<nexists>st. a = SaveState st \<Longrightarrow>
     world_step e w (Acts a) (w\<lparr>w_proc := Up (perform a (p\<lparr>pr_plan := plan\<rparr>))\<rparr>)"
| act_save: "w_proc w = Up p \<Longrightarrow> pr_plan p = SaveState st # plan \<Longrightarrow>
     save (env_store e) st fault (w_fs w) = (Inr u, fs) \<Longrightarrow>
     world_step e w (Acts (SaveState st)) (w\<lparr>w_fs := fs, w_proc := Up (p\<lparr>pr_plan := plan\<rparr>)\<rparr>)"
| save_fails: "w_proc w = Up p \<Longrightarrow> pr_plan p = SaveState st # plan \<Longrightarrow>
     save (env_store e) st fault (w_fs w) = (Inl err, fs) \<Longrightarrow>
     world_step e w (ActFails (SaveState st)) (w\<lparr>w_fs := fs, w_proc := Down\<rparr>)"
| exit: "w_proc w = Up p \<Longrightarrow> pr_plan p = [] \<Longrightarrow> pr_flow p = Break \<Longrightarrow>
     world_step e w Exits (w\<lparr>w_proc := Down\<rparr>)"
| client: "w_proc w = Up p \<Longrightarrow> feed (env_lib e) (pr_creds p) (pr_client p) (pr_cmds p) i = Some cmds \<Longrightarrow>
     client_step (env_lib e) (pr_creds p) (pr_client p) i = (out, st) \<Longrightarrow>
     world_step e w (ClientActs out) (w\<lparr>w_proc :=
       Up (p\<lparr>pr_client := st, pr_cmds := cmds, pr_events := pr_events p @ emitted out\<rparr>)\<rparr>)"
| crash: "w_proc w \<noteq> Down \<Longrightarrow> world_step e w Crashes (w\<lparr>w_proc := Down\<rparr>)"
| crash_in_save: "w_proc w = Up p \<Longrightarrow> pr_plan p = SaveState st # plan \<Longrightarrow>
     world_step e w Crashes (w\<lparr>w_fs := save_at (env_store e) st pt (w_fs w), w_proc := Down\<rparr>)"
| enroll_run: "env_exclusive e \<longrightarrow> w_proc w = Down \<Longrightarrow>
     enroll (env_store e) (env_enroll e) post server token now refused rename_works fault (w_fs w) = (res, fs) \<Longrightarrow>
     world_step e w (Enrolls res) (w\<lparr>w_fs := fs\<rparr>)"
| enroll_crash: "env_exclusive e \<longrightarrow> w_proc w = Down \<Longrightarrow>
     load_for_enroll (env_store e) now refused rename_works (w_fs w) = (Inr state, fs) \<Longrightarrow>
     world_step e w EnrollCrashes
       (w\<lparr>w_fs := save_at (env_store e) (enrolled_state server parsed state) pt fs\<rparr>)"

inductive_cases world_stepE: "world_step e w l w'"

inductive_simps world_step_simps:
  "world_step e w (Acts a) w'"
  "world_step e w (ClientActs out) w'"

abbreviation world_path :: "'c env \<Rightarrow> 'c world \<Rightarrow> label list \<Rightarrow> 'c world \<Rightarrow> bool" where
  "world_path e \<equiv> steps (world_step e)"

lemmas world_path_step = path_step [of "world_step e" for e]
  and world_path_front = path_front [of "world_step e" for e]
  and world_path_trans = path_trans [of "world_step e" for e]

section \<open>Invariants\<close>

subsection \<open>Of the loop\<close>

definition loop_ok :: "credentials \<Rightarrow> loop_state \<Rightarrow> bool" where
  "loop_ok creds ls \<longleftrightarrow>
     ls_decommissioned ls = st_decommissioned (ls_state ls)
     \<and> st_high_water_mark (ls_state ls) = high_water_mark (ls_clock ls)
     \<and> st_credentials (ls_state ls) = Some creds"

text \<open>Whether every acknowledgement command of a plan comes when the disk says decommissioned, if the
  disk says \<open>d\<close> at the start of the plan and its saves succeed.\<close>

fun ack_safe :: "bool \<Rightarrow> action list \<Rightarrow> bool" where
  "ack_safe d [] = True"
| "ack_safe d (SaveState st # plan) = ack_safe (st_decommissioned st) plan"
| "ack_safe d (Command cmd # plan) = (d \<and> ack_safe d plan)"
| "ack_safe d (a # plan) = ack_safe d plan"

text \<open>What every plan is, given the loop's variables it comes with.\<close>

definition plan_ok :: "action list \<Rightarrow> loop_state \<Rightarrow> bool" where
  "plan_ok plan ls \<longleftrightarrow>
     (\<forall>st. SaveState st \<in> set plan \<longrightarrow> st = ls_state ls)
     \<and> (ls_decommissioned ls \<longrightarrow> filter is_enforcement plan = [])"

lemma ack_safe_quiet: "list_all (\<lambda>a. \<forall>cmd. a \<noteq> Command cmd) plan \<Longrightarrow> ack_safe d plan"
  by (induction d plan rule: ack_safe.induct) auto

lemma tick_ok:
  assumes "loop_ok creds ls" and "on_tick ls r = Some (plan, ls')"
  shows "loop_ok creds ls'" and "plan_ok plan ls'" and "ack_safe d plan"
    and "ls_decommissioned ls' = ls_decommissioned ls"
proof -
  have "loop_ok creds ls' \<and> plan_ok plan ls' \<and> list_all (\<lambda>a. \<forall>cmd. a \<noteq> Command cmd) plan
    \<and> ls_decommissioned ls' = ls_decommissioned ls"
  proof (rule on_tick_cases [of ls r])
    assume "ls_decommissioned ls" and "on_tick ls r = Some ([], ls)"
    then show ?thesis using assms by (auto simp: plan_ok_def)
  next
    assume "on_tick ls r = None"
    then show ?thesis using assms by simp
  next
    fix t g assume a: "\<not> ls_decommissioned ls" "guard_now (ls_clock ls) r = Some (t, g)"
    from on_tick_managed [OF a] guard_now_mark [OF a(2)] show ?thesis
      using assms a(1) by (auto simp: plan_ok_def loop_ok_def list_all_iff)
  qed
  then show "loop_ok creds ls'" "plan_ok plan ls'" "ack_safe d plan"
    "ls_decommissioned ls' = ls_decommissioned ls"
    by (auto intro: ack_safe_quiet)
qed

lemma event_ok:
  assumes "loop_ok creds ls"
  shows "loop_ok creds (snd (on_event ls ev m))" and "plan_ok (fst (on_event ls ev m)) (snd (on_event ls ev m))"
    and "ack_safe d (fst (on_event ls ev m))"
    and "ls_decommissioned ls \<Longrightarrow> ls_decommissioned (snd (on_event ls ev m))"
  using assms
  by (cases "(ls, ev, m)" rule: on_event.cases; auto simp: handler_defs loop_ok_def plan_ok_def split: prod.splits)+

lemma handle_ok:
  assumes "loop_ok creds ls" and "handle ls i = Some (plan, fl, ls')"
  shows "loop_ok creds ls'" and "plan_ok plan ls'" and "ack_safe d plan" and "loop_mark ls \<le> loop_mark ls'"
    and "ls_decommissioned ls \<Longrightarrow> ls_decommissioned ls'"
proof -
  have step: "loop_step ls i = (plan, ls')" using assms(2) by (simp add: loop_step_def)
  show "loop_mark ls \<le> loop_mark ls'" using loop_step_mark [of ls i] by (simp add: step)
  have "loop_ok creds ls' \<and> plan_ok plan ls' \<and> ack_safe d plan \<and> (ls_decommissioned ls \<longrightarrow> ls_decommissioned ls')"
  proof (cases i)
    case ShutdownRequested
    then show ?thesis using assms by (auto simp: plan_ok_def)
  next
    case (EventRecv ev m)
    then have "on_event ls ev m = (plan, ls')" using assms(2) by (auto split: prod.splits)
    then show ?thesis using event_ok [OF assms(1), where ev = ev and m = m] by auto
  next
    case (TickAt r)
    then have "on_tick ls r = Some (plan, ls')" using assms(2) by auto
    then show ?thesis using tick_ok [OF assms(1)] by blast
  qed
  then show "loop_ok creds ls'" "plan_ok plan ls'" "ack_safe d plan"
    "ls_decommissioned ls \<Longrightarrow> ls_decommissioned ls'" by blast+
qed

subsection \<open>Of the process and the disk\<close>

fun client_acks :: "client_state \<Rightarrow> bool" where
  "client_acks (Dialing b a) = a"
| "client_acks (Serving b c) = ack c"
| "client_acks Stopped = False"

definition proc_ok :: "agent_proc \<Rightarrow> bool" where
  "proc_ok p \<longleftrightarrow> loop_ok (pr_creds p) (pr_loop p) \<and> plan_ok (pr_plan p) (pr_loop p)"

text \<open>The disk under a running process: it records a state, of no later mark, decommissioned only if the
  process is, and decommissioned whenever an acknowledgement is on its way.\<close>

definition disk_ok :: "agent_proc \<Rightarrow> agent_state \<Rightarrow> bool" where
  "disk_ok p st \<longleftrightarrow>
     st_high_water_mark st \<le> loop_mark (pr_loop p)
     \<and> (st_decommissioned st \<longrightarrow> ls_decommissioned (pr_loop p))
     \<and> ack_safe (st_decommissioned st) (pr_plan p)
     \<and> (pr_cmds p \<noteq> [] \<or> client_acks (pr_client p) \<longrightarrow> st_decommissioned st)"

definition world_ok :: "'c env \<Rightarrow> 'c world \<Rightarrow> bool" where
  "world_ok e w \<longleftrightarrow>
     (\<forall>p. w_proc w = Up p \<longrightarrow> proc_ok p \<and> (\<exists>st. recorded (env_store e) (w_fs w) = Some st \<and> disk_ok p st))"

lemma client_acks_step:
  assumes "client_step lib creds st i = (out, st')" and "feed lib creds st cmds i = Some left"
  shows "client_acks st' \<Longrightarrow> client_acks st \<or> cmds \<noteq> []"
    and "Send DecommissionAck \<in> set out \<Longrightarrow> client_acks st \<or> cmds \<noteq> []"
    and "left \<noteq> [] \<Longrightarrow> cmds \<noteq> []"
proof -
  have fed: "cmds = commands i @ left"
    using assms(2) by (cases "(lib, creds, st, cmds, i)" rule: feed.cases)
      (auto split: if_splits list.splits)
  have idle: "st = Stopped \<Longrightarrow> st' = Stopped \<and> out = []" using assms(1) by simp
  have acks: "client_acks x \<longleftrightarrow> acked x" if "x \<noteq> Stopped" for x using that by (cases x) auto
  show "client_acks st' \<Longrightarrow> client_acks st \<or> cmds \<noteq> []"
    using becomes_acked [of st lib creds i] acks [of st] acks [of st'] idle assms(1) fed
    by (cases "st' = Stopped") auto
  show "Send DecommissionAck \<in> set out \<Longrightarrow> client_acks st \<or> cmds \<noteq> []"
    using sends_ack_step [of lib creds st i] acks [of st] idle assms(1) fed by (cases "st = Stopped") auto
  show "left \<noteq> [] \<Longrightarrow> cmds \<noteq> []" using fed by simp
qed

lemma run_start_Starts:
  assumes "run_start s now refused m fs = Starts creds ls plan"
  shows "\<exists>st. recorded s fs = Some st \<and> st_credentials st = Some creds
     \<and> ls = \<lparr>ls_state = st, ls_clock = guard_new (st_high_water_mark st) m, ls_blocked = True,
          ls_warnings = warnings_new, ls_decommissioned = st_decommissioned st, ls_events_closed = False\<rparr>
     \<and> plan = (if st_decommissioned st then [Command AckDecommission] else [])"
proof -
  obtain st where st: "load s now refused fs = Inr st" and c: "st_credentials st = Some creds"
    using assms by (auto simp: run_start_def Let_def split: sum.splits option.splits if_splits)
  have "st \<noteq> agent_state_default now" using c by (auto simp: agent_state_default_def)
  then have "recorded s fs = Some st" using load_Inr_cases [OF st] by blast
  then show ?thesis using assms st c by (auto simp: run_start_def Let_def)
qed

lemma booted_ok:
  assumes "run_start s now refused m fs = Starts creds ls plan"
  shows "proc_ok (booted creds ls plan) \<and> (\<exists>st. recorded s fs = Some st \<and> disk_ok (booted creds ls plan) st)"
  using run_start_Starts [OF assms]
  by (auto simp: proc_ok_def loop_ok_def plan_ok_def disk_ok_def booted_def guard_new_def loop_mark_def
      client_start_def)

subsection \<open>Every step keeps them\<close>

lemma plan_ok_tail: "plan_ok (a # plan) ls \<Longrightarrow> plan_ok plan ls"
  by (auto simp: plan_ok_def split: if_splits)

lemma take_ok:
  assumes "proc_ok p" and "disk_ok p st" and "pr_plan p = []" and "handle (pr_loop p) i = Some (plan, fl, ls)"
  shows "proc_ok (p\<lparr>pr_loop := ls, pr_plan := plan, pr_flow := fl, pr_events := es\<rparr>)
     \<and> disk_ok (p\<lparr>pr_loop := ls, pr_plan := plan, pr_flow := fl, pr_events := es\<rparr>) st"
proof -
  have "loop_ok (pr_creds p) (pr_loop p)" using assms(1) by (simp add: proc_ok_def)
  note h = handle_ok [OF this assms(4)]
  then show ?thesis using assms(2) by (auto simp: proc_ok_def disk_ok_def)
qed

lemma act_ok:
  assumes "proc_ok p" and "disk_ok p st" and "pr_plan p = a # plan" and "\<nexists>st. a = SaveState st"
  shows "proc_ok (perform a (p\<lparr>pr_plan := plan\<rparr>)) \<and> disk_ok (perform a (p\<lparr>pr_plan := plan\<rparr>)) st"
  using assms plan_ok_tail [of a plan "pr_loop p"]
  by (cases a) (auto simp: proc_ok_def disk_ok_def)

lemma saved_ok:
  assumes "proc_ok p" and "disk_ok p st0" and "pr_plan p = SaveState st # plan"
  shows "st = ls_state (pr_loop p) \<and> proc_ok (p\<lparr>pr_plan := plan\<rparr>) \<and> disk_ok (p\<lparr>pr_plan := plan\<rparr>) st"
proof
  show st: "st = ls_state (pr_loop p)" using assms(1,3) by (auto simp: proc_ok_def plan_ok_def)
  have "loop_ok (pr_creds p) (pr_loop p)" and "plan_ok plan (pr_loop p)"
    using assms(1,3) plan_ok_tail by (auto simp: proc_ok_def)
  then show "proc_ok (p\<lparr>pr_plan := plan\<rparr>) \<and> disk_ok (p\<lparr>pr_plan := plan\<rparr>) st"
    using assms(2,3) unfolding st by (simp add: proc_ok_def disk_ok_def loop_ok_def loop_mark_def)
qed

lemma client_ok:
  assumes "proc_ok p" and "disk_ok p d"
    and "feed lib creds (pr_client p) (pr_cmds p) i = Some cmds" and "client_step lib creds (pr_client p) i = (out, st)"
  shows "proc_ok (p\<lparr>pr_client := st, pr_cmds := cmds, pr_events := es\<rparr>)
     \<and> disk_ok (p\<lparr>pr_client := st, pr_cmds := cmds, pr_events := es\<rparr>) d
     \<and> (Send DecommissionAck \<in> set out \<longrightarrow> st_decommissioned d)"
  using assms(1,2) client_acks_step [OF assms(4,3)] by (auto simp: proc_ok_def disk_ok_def)

text \<open>What a step of a running process does to the disk: nothing, or a save of the loop's state, complete
  or stopped.\<close>

lemma completed_save: "save s st fault fs = (Inr u, fs') \<Longrightarrow> fs' = save_at s st Renamed fs"
  by (cases rule: save_cases [of s st fault fs]) auto

lemma failed_save: "save s st fault fs = (Inl err, fs') \<Longrightarrow> save_stopped s st fs fs'"
  by (cases rule: save_cases [of s st fault fs]) (auto simp: save_stopped_def)

lemma enroll_mark:
  assumes "codec_ok (store_codec s)"
    and "enroll s lib post server token now refused rename_works fault fs = (res, fs')" and "recorded s fs = Some st"
  shows "\<exists>st'. recorded s fs' = Some st' \<and> st_high_water_mark st \<le> st_high_water_mark st'"
  using enroll_recorded [OF assms(1,2)] assms(3) by (auto simp: enrolled_state_def Let_def)

lemma world_step_ok:
  assumes "world_step e w l w'" and "codec_ok (store_codec (env_store e))" and "env_exclusive e" and "world_ok e w"
  shows "world_ok e w'"
  using assms(1)
proof (cases rule: world_step.cases)
  case (boot now refused m creds ls plan)
  then show ?thesis using booted_ok [OF boot(4)] by (simp add: world_ok_def)
next
  case (take p i plan fl ls)
  then show ?thesis using assms(4) take_ok [of p _ i plan fl ls] by (auto simp: world_ok_def)
next
  case (act p a plan)
  then show ?thesis using assms(4) act_ok [of p _ a plan] by (auto simp: world_ok_def)
next
  case (act_save p st plan fault u fs)
  then have "recorded (env_store e) fs = Some st"
    using completed_save [OF act_save(5)] recorded_save_at [OF assms(2), of st Renamed] by simp
  then show ?thesis using assms(4) act_save saved_ok [of p _ st plan] by (auto simp: world_ok_def)
next
  case (client p i cmds out st)
  then show ?thesis using assms(4) client_ok [of p _ "env_lib e" "pr_creds p" i cmds out st]
    by (auto simp: world_ok_def)
qed (use assms(3,4) in \<open>auto simp: world_ok_def\<close>)

text \<open>What a step does to what the disk records.\<close>

lemma disk_step:
  assumes "world_step e w l w'" and "codec_ok (store_codec (env_store e))" and "world_ok e w"
    and "recorded (env_store e) (w_fs w) = Some st"
  obtains (same) "recorded (env_store e) (w_fs w') = Some st"
  | (saved) p where "w_proc w = Up p" and "disk_ok p st" and "proc_ok p"
      and "recorded (env_store e) (w_fs w') = Some (ls_state (pr_loop p))"
  | (enrolled) server parsed where "l \<in> insert EnrollCrashes (range Enrolls)"
      and "recorded (env_store e) (w_fs w') = Some (enrolled_state server parsed st)"
proof -
  have running: "disk_ok p st \<and> proc_ok p" if "w_proc w = Up p" for p
    using that assms(3,4) by (auto simp: world_ok_def)
  have saving: thesis
    if "w_proc w = Up p" "pr_plan p = SaveState st1 # plan"
      "recorded (env_store e) (w_fs w') = recorded (env_store e) (w_fs w) \<or> recorded (env_store e) (w_fs w') = Some st1" for p st1 plan
    using that running [OF that(1)] saved_ok [of p st st1 plan] same saved assms(4) by auto
  show thesis
    using assms(1)
  proof (cases rule: world_step.cases)
    case (act_save p st1 plan fault u fs)
    then show ?thesis
      using saving [of p st1 plan] completed_save [OF act_save(5)] recorded_save_at [OF assms(2), of st1 Renamed] by simp
  next
    case (save_fails p st1 plan fault err fs)
    then show ?thesis
      using saving [of p st1 plan] failed_save [OF save_fails(5)]
        disk.reads_stopped [of "env_store e" st1 "w_fs w" fs] assms(2) by (simp add: store_sound_def)
  next
    case (crash_in_save p st1 plan pt)
    then show ?thesis
      using saving [of p st1 plan] recorded_save_at [OF assms(2), of st1 pt "w_fs w"] by (simp split: if_splits)
  next
    case (enroll_run post server token now refused rename_works fault res fs)
    then show ?thesis
      using enroll_recorded [OF assms(2) enroll_run(4)] assms(4) same enrolled by fastforce
  next
    case (enroll_crash now refused rename_works state fs server parsed pt)
    then show ?thesis
      using load_for_enroll_recorded [OF enroll_crash(4)] recorded_save_at [OF assms(2), of "enrolled_state server parsed state" pt fs]
        assms(4) same enrolled [of server parsed] by (auto split: if_splits)
  qed (use same assms(4) in simp_all)
qed

subsection \<open>Along paths\<close>

lemma path_ok:
  assumes "world_path e w ls w'" and "codec_ok (store_codec (env_store e))" and "env_exclusive e" and "world_ok e w"
  shows "world_ok e w'"
  using assms(1,4) by (induction rule: steps.induct) (auto intro: world_step_ok [OF _ assms(2,3)])

lemma down_ok: "w_proc w = Down \<Longrightarrow> world_ok e w"
  by (simp add: world_ok_def)

lemma disk_mark_step:
  assumes "world_step e w l w'" and "codec_ok (store_codec (env_store e))" and "world_ok e w"
    and "recorded (env_store e) (w_fs w) = Some st"
  shows "\<exists>st'. recorded (env_store e) (w_fs w') = Some st' \<and> st_high_water_mark st \<le> st_high_water_mark st'"
  using assms
proof (cases rule: disk_step)
  case (saved p)
  then show ?thesis by (auto simp: disk_ok_def proc_ok_def loop_ok_def loop_mark_def)
qed (auto simp: enrolled_state_def Let_def)

lemma disk_mark_path:
  assumes "world_path e w ls w'" and "codec_ok (store_codec (env_store e))" and "env_exclusive e" and "world_ok e w"
    and "recorded (env_store e) (w_fs w) = Some st"
  shows "\<exists>st'. recorded (env_store e) (w_fs w') = Some st' \<and> st_high_water_mark st \<le> st_high_water_mark st'"
proof -
  let ?I = "\<lambda>w. world_ok e w \<and> (\<exists>st'. recorded (env_store e) (w_fs w) = Some st' \<and> st_high_water_mark st \<le> st_high_water_mark st')"
  have "?I w2" if "world_step e w1 l w2" "?I w1" for w1 l w2
  proof -
    from that(2) obtain st1 where "recorded (env_store e) (w_fs w1) = Some st1"
      "st_high_water_mark st \<le> st_high_water_mark st1" "world_ok e w1" by blast
    with disk_mark_step [OF that(1) assms(2)] world_step_ok [OF that(1) assms(2,3)] show ?thesis by force
  qed
  then show ?thesis using path_invariant [OF assms(1), of ?I "\<lambda>l. True" "\<lambda>l. True"] assms(4,5)
    by (auto simp: list_all_iff)
qed

text \<open>Labels of enrolling, and of enforcement.\<close>

fun is_enroll :: "label \<Rightarrow> bool" where
  "is_enroll (Enrolls res) = True"
| "is_enroll EnrollCrashes = True"
| "is_enroll l = False"

fun enforces :: "label \<Rightarrow> bool" where
  "enforces (Acts a) = is_enforcement a"
| "enforces l = False"

fun takes_event :: "server_event \<Rightarrow> label \<Rightarrow> bool" where
  "takes_event ev (Takes (EventRecv (Some ev') m)) = (ev = ev')"
| "takes_event ev l = False"

definition disk_decommissioned :: "'c env \<Rightarrow> 'c world \<Rightarrow> bool" where
  "disk_decommissioned e w \<longleftrightarrow> (\<exists>st. recorded (env_store e) (w_fs w) = Some st \<and> st_decommissioned st)"

lemma decommissioned_step:
  assumes "world_step e w l w'" and "codec_ok (store_codec (env_store e))" and "world_ok e w"
    and "disk_decommissioned e w" and "\<not> is_enroll l"
  shows "disk_decommissioned e w'" and "\<not> enforces l"
proof -
  obtain st where st: "recorded (env_store e) (w_fs w) = Some st" "st_decommissioned st"
    using assms(4) by (auto simp: disk_decommissioned_def)
  show "disk_decommissioned e w'"
    using assms(1-3) st(1)
  proof (cases rule: disk_step)
    case (saved p)
    then show ?thesis using st(2) by (auto simp: disk_decommissioned_def disk_ok_def proc_ok_def loop_ok_def)
  qed (use assms(5) st(2) in \<open>auto simp: disk_decommissioned_def\<close>)
  show "\<not> enforces l"
    using assms(1)
  proof (cases rule: world_step.cases)
    case (act p a plan)
    then show ?thesis using assms(3) st
      by (auto simp: world_ok_def disk_ok_def proc_ok_def plan_ok_def split: if_splits)
  qed auto
qed

lemma decommissioned_path:
  assumes "world_path e w ls w'" and "codec_ok (store_codec (env_store e))" and "env_exclusive e" and "world_ok e w"
    and "disk_decommissioned e w" and "list_all (\<lambda>l. \<not> is_enroll l) ls"
  shows "disk_decommissioned e w' \<and> list_all (\<lambda>l. \<not> enforces l) ls"
  using path_invariant [OF assms(1), of "\<lambda>w. world_ok e w \<and> disk_decommissioned e w" _ "\<lambda>l. \<not> enforces l"] assms(4-6)
    decommissioned_step [OF _ assms(2)] world_step_ok [OF _ assms(2,3)] by blast

subsection \<open>A blocked machine without news\<close>

text \<open>A state whose session, judged at its own trusted mark, does not allow use.\<close>

definition held_back :: "agent_state \<Rightarrow> bool" where
  "held_back st \<longleftrightarrow> \<not> usable_at (st_session st) (st_high_water_mark st)"

definition all_held_back :: "'c env \<Rightarrow> 'c world \<Rightarrow> bool" where
  "all_held_back e w \<longleftrightarrow>
     (\<exists>st. recorded (env_store e) (w_fs w) = Some st \<and> held_back st)
     \<and> (\<forall>p. w_proc w = Up p \<longrightarrow> held_back (ls_state (pr_loop p)) \<and> EnableUsage \<notin> set (pr_plan p))"

lemma no_session_unusable [simp]: "\<not> usable_at None t"
  by (simp add: usable_at_def)

lemma held_back_event:
  assumes "loop_ok creds ls" and "held_back (ls_state ls)" and "\<nexists>session t. ev = Some (SessionState session t)"
  shows "held_back (ls_state (snd (on_event ls ev m))) \<and> EnableUsage \<notin> set (fst (on_event ls ev m))"
proof (cases "(ls, ev, m)" rule: on_event.cases)
  case (3 ls server_time m)
  then have "usable_at (st_session (ls_state ls)) (max (high_water_mark (ls_clock ls)) server_time) \<Longrightarrow> False"
    using assms(1,2) usable_at_antimono [of "st_session (ls_state ls)"] by (auto simp: held_back_def loop_ok_def)
  then show ?thesis using 3 assms(2) by (auto simp: held_back_def handler_defs)
qed (use assms no_session_unusable in \<open>auto simp: held_back_def handler_defs\<close>)

lemma held_back_tick:
  assumes "loop_ok creds ls" and "held_back (ls_state ls)" and "on_tick ls r = Some (plan, ls')"
  shows "held_back (ls_state ls') \<and> EnableUsage \<notin> set plan \<and> (\<not> ls_decommissioned ls \<longrightarrow> hd plan = DisableUsage)"
proof (rule on_tick_cases [of ls r])
  fix t g assume a: "\<not> ls_decommissioned ls" "guard_now (ls_clock ls) r = Some (t, g)"
  have "\<not> usable_at (st_session (ls_state ls)) t"
    using assms(1,2) guard_now_forward [OF a(2)] usable_at_antimono [of "st_session (ls_state ls)" t]
    by (auto simp: held_back_def loop_ok_def)
  moreover from this have "\<not> usable_at (snd (advance (st_session (ls_state ls)) t)) t"
    by (cases "st_session (ls_state ls)") (auto simp: advance_session usable_at_def expire_locally_def)
  ultimately show ?thesis using on_tick_managed [OF a] assms(3) by (auto simp: held_back_def)
qed (use assms in auto)

lemma held_back_handle:
  assumes "loop_ok creds ls" and "held_back (ls_state ls)" and "handle ls i = Some (plan, fl, ls')"
    and "\<nexists>session t m. i = EventRecv (Some (SessionState session t)) m"
  shows "held_back (ls_state ls') \<and> EnableUsage \<notin> set plan"
proof (cases i)
  case ShutdownRequested
  then show ?thesis using assms by auto
next
  case (EventRecv ev m)
  then have "on_event ls ev m = (plan, ls')" using assms(3) by (auto split: prod.splits)
  moreover have "\<nexists>session t. ev = Some (SessionState session t)" using assms(4) EventRecv by auto
  ultimately show ?thesis using held_back_event [OF assms(1,2), of ev m] by simp
next
  case (TickAt r)
  then have "on_tick ls r = Some (plan, ls')" using assms(3) by auto
  then show ?thesis using held_back_tick [OF assms(1,2)] by blast
qed

fun no_session_news :: "label \<Rightarrow> bool" where
  "no_session_news (Takes (EventRecv (Some (SessionState session t)) m)) = False"
| "no_session_news l = True"

lemma no_session_news_Takes:
  "no_session_news (Takes i) \<longleftrightarrow> (\<nexists>session t m. i = EventRecv (Some (SessionState session t)) m)"
  by (cases "Takes i" rule: no_session_news.cases) auto

lemma held_back_step:
  assumes "world_step e w l w'" and "codec_ok (store_codec (env_store e))" and "env_exclusive e" and "world_ok e w"
    and "all_held_back e w" and "no_session_news l"
  shows "all_held_back e w'" and "l \<noteq> Acts EnableUsage"
proof -
  obtain st where st: "recorded (env_store e) (w_fs w) = Some st" "held_back st"
    using assms(5) by (auto simp: all_held_back_def)
  have disk: "\<exists>st'. recorded (env_store e) (w_fs w') = Some st' \<and> held_back st'"
    using assms(1,2,4) st(1)
  proof (cases rule: disk_step)
    case (saved p)
    then show ?thesis using assms(5) by (auto simp: all_held_back_def)
  qed (use st(2) in \<open>auto simp: enrolled_state_def Let_def held_back_def usable_at_def\<close>)
  have ok: "loop_ok (pr_creds p) (pr_loop p)" if "w_proc w = Up p" for p
    using that assms(4) by (auto simp: world_ok_def proc_ok_def)
  have proc: "held_back (ls_state (pr_loop q)) \<and> EnableUsage \<notin> set (pr_plan q)" if "w_proc w' = Up q" for q
    using assms(1)
  proof (cases rule: world_step.cases)
    case (boot now refused m creds ls plan)
    then show ?thesis using run_start_Starts [OF boot(4)] st that by (auto simp: booted_def)
  next
    case (take p i plan fl ls)
    have "held_back (ls_state ls) \<and> EnableUsage \<notin> set plan"
      using held_back_handle [OF ok [OF take(3)] _ take(8)] assms(5,6) take(1,3)
      by (auto simp: all_held_back_def no_session_news_Takes)
    then show ?thesis using that take(2) by auto
  next
    case (act p a plan)
    then show ?thesis using assms(5) that by (cases a) (auto simp: all_held_back_def)
  next
    case (enroll_run post server token now refused rename_works fault res fs)
    then show ?thesis using assms(3) that by simp
  next
    case (enroll_crash now refused rename_works state fs server parsed pt)
    then show ?thesis using assms(3) that by simp
  qed (use assms(5) that in \<open>auto simp: all_held_back_def\<close>)
  show "all_held_back e w'" using disk proc by (auto simp: all_held_back_def)
  show "l \<noteq> Acts EnableUsage"
    using assms(1,5) by (auto simp: all_held_back_def elim: world_stepE)
qed

lemma held_back_path:
  assumes "world_path e w ls w'" and "codec_ok (store_codec (env_store e))" and "env_exclusive e" and "world_ok e w"
    and "all_held_back e w" and "list_all no_session_news ls"
  shows "all_held_back e w' \<and> Acts EnableUsage \<notin> set ls"
  using path_invariant [OF assms(1), of "\<lambda>w. world_ok e w \<and> all_held_back e w" no_session_news "\<lambda>l. l \<noteq> Acts EnableUsage"]
    assms(4-6) held_back_step [OF _ assms(2,3)] world_step_ok [OF _ assms(2,3)] by (auto simp: list_all_iff)

subsection \<open>A managed machine without a decommission\<close>

definition all_managed :: "'c env \<Rightarrow> credentials \<Rightarrow> 'c world \<Rightarrow> bool" where
  "all_managed e creds w \<longleftrightarrow>
     (\<exists>st. recorded (env_store e) (w_fs w) = Some st \<and> \<not> st_decommissioned st \<and> st_credentials st = Some creds)
     \<and> (\<forall>p. w_proc w = Up p \<longrightarrow> \<not> ls_decommissioned (pr_loop p) \<and> pr_creds p = creds)"

lemma handle_decommissions:
  assumes "handle ls i = Some (plan, fl, ls')" and "\<not> ls_decommissioned ls" and "ls_decommissioned ls'"
  shows "\<exists>m. i = EventRecv (Some Decommission) m"
proof (cases i)
  case (EventRecv ev m)
  then have "on_event ls ev m = (plan, ls')" using assms(1) by (auto split: prod.splits)
  then show ?thesis using EventRecv assms(2,3)
    by (cases "(ls, ev, m)" rule: on_event.cases) (auto simp: handler_defs split: prod.splits if_splits)
next
  case (TickAt r)
  then show ?thesis using assms
    by (auto simp: on_tick_def Let_def split: option.splits prod.splits if_splits)
qed (use assms in auto)

lemma managed_step:
  assumes "world_step e w l w'" and "codec_ok (store_codec (env_store e))" and "world_ok e w"
    and "all_managed e creds w" and "\<not> is_enroll l" and "\<not> takes_event Decommission l"
  shows "all_managed e creds w'"
proof -
  obtain st where st: "recorded (env_store e) (w_fs w) = Some st" "\<not> st_decommissioned st" "st_credentials st = Some creds"
    using assms(4) by (auto simp: all_managed_def)
  have "\<exists>st'. recorded (env_store e) (w_fs w') = Some st' \<and> \<not> st_decommissioned st' \<and> st_credentials st' = Some creds"
    using assms(1-3) st(1)
  proof (cases rule: disk_step)
    case (saved p)
    then show ?thesis using assms(4) by (auto simp: all_managed_def proc_ok_def loop_ok_def)
  qed (use assms(5) st(2,3) in auto)
  moreover have "\<not> ls_decommissioned (pr_loop q) \<and> pr_creds q = creds" if "w_proc w' = Up q" for q
    using assms(1)
  proof (cases rule: world_step.cases)
    case (boot now refused m creds ls plan)
    then show ?thesis using run_start_Starts [OF boot(4)] st that by (auto simp: booted_def)
  next
    case (take p i plan fl ls)
    then show ?thesis using handle_decommissions [OF take(8)] assms(4,6) that by (auto simp: all_managed_def)
  next
    case (act p a plan)
    then show ?thesis using assms(4) that by (cases a) (auto simp: all_managed_def)
  qed (use assms(4,5) that in \<open>auto simp: all_managed_def\<close>)
  ultimately show ?thesis by (auto simp: all_managed_def)
qed

lemma managed_path:
  assumes "world_path e w ls w'" and "codec_ok (store_codec (env_store e))" and "env_exclusive e" and "world_ok e w"
    and "all_managed e creds w" and "list_all (\<lambda>l. \<not> is_enroll l \<and> \<not> takes_event Decommission l) ls"
  shows "all_managed e creds w'"
  using path_invariant [OF assms(1), of "\<lambda>w. world_ok e w \<and> all_managed e creds w" _ "\<lambda>l. True"] assms(4-6)
    managed_step [OF _ assms(2)] world_step_ok [OF _ assms(2,3)] by blast

subsection \<open>The plan can always be finished\<close>

text \<open>What the disk records after a plan whose saves succeed.\<close>

fun saved_by :: "action list \<Rightarrow> agent_state option \<Rightarrow> agent_state option" where
  "saved_by [] r = r"
| "saved_by (SaveState st # plan) r = saved_by plan (Some st)"
| "saved_by (a # plan) r = saved_by plan r"

fun plan_commands :: "action list \<Rightarrow> client_command list" where
  "plan_commands [] = []"
| "plan_commands (Command cmd # plan) = cmd # plan_commands plan"
| "plan_commands (a # plan) = plan_commands plan"

lemma drain_plan:
  assumes "codec_ok (store_codec (env_store e))" and "w_proc w = Up p"
  shows "\<exists>w' p'. world_path e w (map Acts (pr_plan p)) w' \<and> w_proc w' = Up p' \<and> pr_plan p' = []
     \<and> pr_loop p' = pr_loop p \<and> pr_flow p' = pr_flow p \<and> pr_events p' = pr_events p
     \<and> recorded (env_store e) (w_fs w') = saved_by (pr_plan p) (recorded (env_store e) (w_fs w))
     \<and> pr_creds p' = pr_creds p \<and> pr_client p' = pr_client p \<and> pr_cmds p' = pr_cmds p @ plan_commands (pr_plan p)"
  using assms(2)
proof (induction "pr_plan p" arbitrary: w p)
  case Nil
  then show ?case using steps.here by force
next
  case (Cons a plan)
  obtain w1 p1 where step: "world_step e w (Acts a) w1" and p1: "w_proc w1 = Up p1" "pr_plan p1 = plan"
      "pr_loop p1 = pr_loop p" "pr_flow p1 = pr_flow p" "pr_events p1 = pr_events p"
      "pr_creds p1 = pr_creds p" "pr_client p1 = pr_client p" "pr_cmds p1 = pr_cmds p @ plan_commands [a]"
    and r: "recorded (env_store e) (w_fs w1) = saved_by [a] (recorded (env_store e) (w_fs w))"
  proof (cases "\<exists>st. a = SaveState st")
    case True
    then obtain st where st: "a = SaveState st" by blast
    from world_step.act_save [OF Cons.prems, of st plan e None] save_ok_fault_free [of "env_store e" st "w_fs w"] Cons.hyps(2)
      recorded_save_at [OF assms(1), of st Renamed "w_fs w"]
    show thesis by (intro that [of _ "p\<lparr>pr_plan := plan\<rparr>"]) (auto simp: st simp del: save_at.simps)
  next
    case False
    let ?p = "perform a (p\<lparr>pr_plan := plan\<rparr>)"
    have "pr_plan ?p = plan \<and> pr_loop ?p = pr_loop p \<and> pr_flow ?p = pr_flow p \<and> pr_events ?p = pr_events p
        \<and> pr_creds ?p = pr_creds p \<and> pr_client ?p = pr_client p \<and> pr_cmds ?p = pr_cmds p @ plan_commands [a]" and "saved_by [a] d = d" for d
      using False by (cases a; simp)+
    with world_step.act [OF Cons.prems Cons.hyps(2) [symmetric] False, of e] show thesis
      by (intro that [of "w\<lparr>w_proc := Up ?p\<rparr>" ?p]) simp_all
  qed
  have "saved_by (a # plan) r = saved_by plan (saved_by [a] r)"
    and "plan_commands (a # plan) = plan_commands [a] @ plan_commands plan" for r by (cases a; auto)+
  moreover from Cons.hyps(1) [OF p1(2) [symmetric] p1(1)] obtain w' p' where
    "world_path e w1 (map Acts plan) w'" "w_proc w' = Up p'" "pr_plan p' = []"
    "pr_loop p' = pr_loop p" "pr_flow p' = pr_flow p" "pr_events p' = pr_events p"
    "recorded (env_store e) (w_fs w') = saved_by plan (recorded (env_store e) (w_fs w1))"
    "pr_creds p' = pr_creds p" "pr_client p' = pr_client p" "pr_cmds p' = pr_cmds p1 @ plan_commands plan"
    using p1 by auto
  ultimately show ?case using world_path_front [OF step] Cons.hyps(2) [symmetric] r p1(8) by auto
qed

text \<open>A tick taken by an idle, managed process, and its whole plan.\<close>

lemma take_tick:
  assumes "w_proc w = Up p" and "pr_plan p = []" and "pr_flow p = Continue"
    and "on_tick (pr_loop p) r = Some (plan, ls)"
  shows "\<exists>w' p'. world_step e w (Takes (TickAt r)) w' \<and> w_proc w' = Up p' \<and> pr_plan p' = plan \<and> w_fs w' = w_fs w
     \<and> pr_loop p' = ls \<and> pr_flow p' = Continue"
  using world_step.take [OF assms(1-3), of "TickAt r" plan Continue ls e] assms(4) by force

lemma saved_by_tick:
  assumes "on_tick ls r = Some (plan, ls')" and "\<not> ls_decommissioned ls"
  shows "saved_by plan d = Some (ls_state ls')"
proof (rule on_tick_cases [of ls r])
  fix t g assume a: "\<not> ls_decommissioned ls" "guard_now (ls_clock ls) r = Some (t, g)"
  have "saved_by (map Warn es @ [SaveState st]) d = Some st" for es st by (induction es) auto
  then show ?thesis using on_tick_managed [OF a] assms(1) by (auto split: if_splits)
qed (use assms in auto)

section \<open>An example machine\<close>

definition example_env :: "(agent_state + string) env" where
  "example_env = \<lparr>env_store = example_store, env_lib = example_lib, env_enroll = example_enroll_lib, env_exclusive = True\<rparr>"

definition example_disk :: "agent_state \<Rightarrow> (agent_state + string) fs" where
  "example_disk st = [state_path example_store \<mapsto> \<lparr>f_contents = Inl st, f_mode = owner_only\<rparr>]"

definition example_world :: "agent_state \<Rightarrow> (agent_state + string) world" where
  "example_world st = \<lparr>w_fs = example_disk st, w_proc = Down\<rparr>"

definition example_managed :: agent_state where
  "example_managed = ls_state example_loop"

definition example_released :: agent_state where
  "example_released = example_managed\<lparr>st_decommissioned := True, st_session := None\<rparr>"

lemma example_codec: "codec_ok (store_codec (env_store example_env))" "env_exclusive example_env"
  by (simp_all add: example_env_def example_store_def plain_codec_ok)

lemma example_recorded [simp]:
  "recorded (env_store example_env) (w_fs (example_world st)) = Some st"
  "recorded (env_store example_env) (example_disk st) = Some st"
  by (simp_all add: recorded_def example_world_def example_disk_def example_env_def example_store_def plain_codec_def)

lemma example_down [simp]: "w_proc (example_world st) = Down"
  by (simp add: example_world_def)

definition example_booted :: "agent_state \<Rightarrow> (agent_state + string) world" where
  "example_booted st = (example_world st)\<lparr>w_proc := Up (booted example_credentials
     \<lparr>ls_state = st, ls_clock = guard_new (st_high_water_mark st) 0, ls_blocked = True,
       ls_warnings = warnings_new, ls_decommissioned = st_decommissioned st, ls_events_closed = False\<rparr>
     (if st_decommissioned st then [Command AckDecommission] else []))\<rparr>"

lemma example_boot:
  assumes "st_credentials st = Some example_credentials"
  shows "world_step example_env (example_world st) Boots (example_booted st)"
  unfolding example_booted_def
proof (rule world_step.boot)
  show "run_start (env_store example_env) 9 False 0 (w_fs (example_world st)) = Starts example_credentials
    \<lparr>ls_state = st, ls_clock = guard_new (st_high_water_mark st) 0, ls_blocked = True,
       ls_warnings = warnings_new, ls_decommissioned = st_decommissioned st, ls_events_closed = False\<rparr>
     (if st_decommissioned st then [Command AckDecommission] else [])"
    using load_recorded [of "env_store example_env" "w_fs (example_world st)" st 9] assms
    by (simp add: run_start_def Let_def)
qed simp

lemma example_credentials_recorded [simp]:
  "st_credentials example_managed = Some example_credentials" "\<not> st_decommissioned example_managed"
  "st_credentials example_released = Some example_credentials" "st_decommissioned example_released"
  "st_session example_released = None"
  by (simp_all add: example_managed_def example_released_def example_loop_def)

text \<open>A released machine starts again and acknowledges on its first connection.\<close>

lemma example_ack:
  obtains w p out w' where
    "world_path example_env (example_world example_released) [Boots, Acts (Command AckDecommission)] w"
    and "world_step example_env w (ClientActs out) w'" and "Send DecommissionAck \<in> set out"
    and "w_proc w = Up p" and "pr_creds p = example_credentials"
proof -
  let ?d = "\<lparr>connects = True, queued = [AckDecommission], ack_send_ok = True\<rparr>"
  obtain p where p: "w_proc (example_booted example_released) = Up p" "pr_plan p = [Command AckDecommission]"
      "pr_creds p = example_credentials" "pr_client p = client_start" "pr_cmds p = []"
    by (auto simp: example_booted_def booted_def)
  from world_step.act [OF p(1,2)] obtain w where
    "world_step example_env (example_booted example_released) (Acts (Command AckDecommission)) w"
    and w: "w_proc w = Up (p\<lparr>pr_plan := [], pr_cmds := [AckDecommission]\<rparr>)" using p(5) by force
  then have path: "world_path example_env (example_world example_released) [Boots, Acts (Command AckDecommission)] w"
    using world_path_front [OF example_boot world_path_step] by simp
  have "Send DecommissionAck \<in> set (fst (client_step example_lib example_credentials client_start (Dial ?d)))"
    by (simp add: client_eval)
  moreover obtain out st where cs: "client_step example_lib example_credentials client_start (Dial ?d) = (out, st)"
    by fastforce
  moreover have "feed example_lib example_credentials client_start [AckDecommission] (Dial ?d) = Some []"
    by (simp add: client_start_def example_lib_def)
  ultimately obtain w' where step: "world_step example_env w (ClientActs out) w'" and out: "Send DecommissionAck \<in> set out"
    using world_step.client [OF w, of example_env "Dial ?d" "[]" out st] p(3,4) by (auto simp: example_env_def)
  show ?thesis using that [OF path step out w] p(3) by simp
qed

section \<open>Properties\<close>

text \<open>C1. The acknowledgement is never sent before the decommission is durable: in every life of the
  machine, with crashes, failing saves and restarts anywhere and the connection task running
  concurrently with the loop, whenever the connection task hands an acknowledgement to the socket
  the state file already records the machine as decommissioned, so no crash after it can bring
  enforcement back.\<close>

theorem ack_only_after_durable_record:
  assumes "codec_ok (store_codec (env_store e))" and "env_exclusive e" and "w_proc w0 = Down"
    and "world_path e w0 ls w" and "world_step e w (ClientActs out) w'" and "Send DecommissionAck \<in> set out"
  shows "\<exists>st. recorded (env_store e) (w_fs w) = Some st \<and> st_decommissioned st
     \<and> recorded (env_store e) (w_fs w') = Some st"
proof -
  have ok: "world_ok e w" by (rule path_ok [OF assms(4,1,2) down_ok [OF assms(3)]])
  obtain p i cmds st where p: "w_proc w = Up p"
    and f: "feed (env_lib e) (pr_creds p) (pr_client p) (pr_cmds p) i = Some cmds"
    and c: "client_step (env_lib e) (pr_creds p) (pr_client p) i = (out, st)" and w': "w_fs w' = w_fs w"
    using assms(5) by (auto simp: world_step_simps)
  obtain d where d: "recorded (env_store e) (w_fs w) = Some d" "proc_ok p" "disk_ok p d"
    using ok p by (auto simp: world_ok_def)
  show ?thesis using client_ok [OF d(2,3) f c] d(1) assms(6) w' by auto
qed

theorem ack_only_after_durable_record_witness:
  "\<exists>ls w out w'. world_path example_env (example_world example_released) ls w
     \<and> world_step example_env w (ClientActs out) w' \<and> Send DecommissionAck \<in> set out
     \<and> (\<exists>st. recorded (env_store example_env) (w_fs w) = Some st \<and> st_decommissioned st)"
proof -
  obtain w p out w' where path: "world_path example_env (example_world example_released) [Boots, Acts (Command AckDecommission)] w"
    and step: "world_step example_env w (ClientActs out) w'" and out: "Send DecommissionAck \<in> set out"
    by (rule example_ack)
  show ?thesis
    using ack_only_after_durable_record [OF example_codec example_down path step out] path step out by blast
qed

text \<open>C2. A decommission is final: once the state file records it, no tick, message or restart, and no
  crash, in the middle of a save or elsewhere, ever leads to another call that blocks or releases the machine,
  and the record itself is never lost, until the machine is enrolled anew.\<close>

theorem decommission_survives_everything:
  assumes "codec_ok (store_codec (env_store e))" and "env_exclusive e" and "w_proc w0 = Down"
    and "world_path e w0 ls0 w" and "disk_decommissioned e w"
    and "world_path e w ls w'" and "list_all (\<lambda>l. \<not> is_enroll l) ls"
  shows "disk_decommissioned e w' \<and> list_all (\<lambda>l. \<not> enforces l) ls"
  using decommissioned_path [OF assms(6,1,2) path_ok [OF assms(4,1,2) down_ok [OF assms(3)]] assms(5,7)] .

theorem decommission_survives_everything_witness:
  "\<exists>ls w'. ls \<noteq> [] \<and> world_path example_env (example_world example_released) ls w'
     \<and> disk_decommissioned example_env w' \<and> list_all (\<lambda>l. \<not> enforces l) ls"
proof -
  have d: "disk_decommissioned example_env (example_world example_released)" by (simp add: disk_decommissioned_def)
  have step: "world_step example_env (example_world example_released) Boots (example_booted example_released)"
    by (rule example_boot) simp
  show ?thesis
    using decommission_survives_everything [OF example_codec example_down steps.here d world_path_step [OF step]]
      world_path_step [OF step] by (intro exI [of _ "[Boots]"]) auto
qed

text \<open>C18. The anti-rollback mark on disk never goes back: over any life of the machine, restarts, crashes
  in the middle of a save, failing saves, clocks set to anything and enrolling again included, a
  state recorded later has a mark at least that of one recorded earlier, and a recorded state never
  becomes unreadable.\<close>

theorem recorded_mark_never_back:
  assumes "codec_ok (store_codec (env_store e))" and "env_exclusive e" and "w_proc w0 = Down"
    and "world_path e w0 ls0 w" and "recorded (env_store e) (w_fs w) = Some st" and "world_path e w ls w'"
  shows "\<exists>st'. recorded (env_store e) (w_fs w') = Some st' \<and> st_high_water_mark st \<le> st_high_water_mark st'"
  using disk_mark_path [OF assms(6,1,2) path_ok [OF assms(4,1,2) down_ok [OF assms(3)]] assms(5)] .

theorem recorded_mark_never_back_witness:
  "\<exists>w' st'. world_path example_env (example_world example_managed) [Boots] w'
     \<and> recorded (env_store example_env) (w_fs w') = Some st'
     \<and> st_high_water_mark example_managed \<le> st_high_water_mark st'"
proof -
  have step: "world_step example_env (example_world example_managed) Boots (example_booted example_managed)"
    by (rule example_boot) simp
  show ?thesis
    using recorded_mark_never_back [OF example_codec example_down steps.here example_recorded(1) world_path_step [OF step]]
      world_path_step [OF step] by blast
qed

text \<open>A block cannot be waited out, rebooted away or undone by turning back the clock: a machine whose
  recorded session does not allow use at its recorded mark is not released by anything but a session
  message from the server. However often it is restarted or crashes, whatever its clock says, and
  even if it is enrolled again, the agent makes no releasing call, and every state it records or
  runs with keeps denying use.\<close>

theorem offline_block_survives_restarts:
  assumes "codec_ok (store_codec (env_store e))" and "env_exclusive e" and "w_proc w = Down"
    and "recorded (env_store e) (w_fs w) = Some st" and "\<not> usable_at (st_session st) (st_high_water_mark st)"
    and "world_path e w ls w'" and "list_all no_session_news ls"
  shows "Acts EnableUsage \<notin> set ls
     \<and> (\<exists>st'. recorded (env_store e) (w_fs w') = Some st' \<and> held_back st')
     \<and> (\<forall>p. w_proc w' = Up p \<longrightarrow> held_back (ls_state (pr_loop p)))"
proof -
  have "all_held_back e w" using assms(3-5) by (simp add: all_held_back_def held_back_def)
  from held_back_path [OF assms(6,1,2) down_ok [OF assms(3)] this assms(7)]
  show ?thesis by (auto simp: all_held_back_def)
qed

theorem offline_block_survives_restarts_witness:
  "Acts EnableUsage \<notin> set [Boots]
   \<and> (\<exists>w'. world_path example_env (example_world (example_managed\<lparr>st_high_water_mark := secs 1800\<rparr>)) [Boots] w'
     \<and> (\<forall>p. w_proc w' = Up p \<longrightarrow> held_back (ls_state (pr_loop p))))"
proof -
  let ?st = "example_managed\<lparr>st_high_water_mark := secs 1800\<rparr>"
  have step: "world_step example_env (example_world ?st) Boots (example_booted ?st)"
    by (rule example_boot) simp
  have "\<not> usable_at (st_session ?st) (st_high_water_mark ?st)"
    by (simp add: example_managed_def example_loop_def usable_at_def example_session_def secs_def)
  from offline_block_survives_restarts [OF example_codec example_down example_recorded(1) this world_path_step [OF step]]
  show ?thesis using world_path_step [OF step] by auto
qed

text \<open>Nothing but a decommission message from the server releases a managed machine from Taymna: as
  long as none is taken up (and nobody enrolls it anew), every restart, crash, failing save, close
  code, error or broken connection leaves it recorded as managed, with its credential.\<close>

theorem only_a_decommission_relinquishes:
  assumes "codec_ok (store_codec (env_store e))" and "env_exclusive e" and "w_proc w = Down"
    and "recorded (env_store e) (w_fs w) = Some st" and "\<not> st_decommissioned st" and "st_credentials st = Some creds"
    and "world_path e w ls w'" and "list_all (\<lambda>l. \<not> is_enroll l \<and> \<not> takes_event Decommission l) ls"
  shows "\<exists>st'. recorded (env_store e) (w_fs w') = Some st' \<and> \<not> st_decommissioned st'
     \<and> st_credentials st' = Some creds \<and> (\<forall>p. w_proc w' = Up p \<longrightarrow> \<not> ls_decommissioned (pr_loop p))"
proof -
  have "all_managed e creds w" using assms(3-6) by (simp add: all_managed_def)
  from managed_path [OF assms(7,1,2) down_ok [OF assms(3)] this assms(8)]
  show ?thesis by (auto simp: all_managed_def)
qed

theorem only_a_decommission_relinquishes_witness:
  "\<exists>w' st'. world_path example_env (example_world example_managed) [Boots, Crashes] w'
     \<and> recorded (env_store example_env) (w_fs w') = Some st' \<and> \<not> st_decommissioned st'"
proof -
  have "world_step example_env (example_world example_managed) Boots (example_booted example_managed)"
    by (rule example_boot) simp
  moreover have "w_proc (example_booted example_managed) \<noteq> Down" by (simp add: example_booted_def)
  ultimately have path: "world_path example_env (example_world example_managed) [Boots, Crashes]
      ((example_booted example_managed)\<lparr>w_proc := Down\<rparr>)"
    using world_path_front [OF _ world_path_step [OF world_step.crash]] by blast
  from only_a_decommission_relinquishes [OF example_codec example_down example_recorded(1) _ _ path]
  show ?thesis using path by auto
qed

text \<open>C11. Enforcement needs no one's cooperation: from every reachable state of a running managed machine
  whose clock reading puts the session past its deadline (or that has none), the loop alone, with no
  step of the network, the server or the connection task, gets to the blocking call: it finishes
  the plan at hand, takes the tick and blocks first.\<close>

theorem block_is_always_reachable:
  assumes "codec_ok (store_codec (env_store e))" and "w_proc w = Up p" and "pr_flow p = Continue"
    and "\<not> ls_decommissioned (pr_loop p)" and "guard_now (ls_clock (pr_loop p)) r = Some (t, g)"
    and "\<not> usable_at (st_session (ls_state (pr_loop p))) t"
  shows "\<exists>w'. world_path e w (map Acts (pr_plan p) @ [Takes (TickAt r), Acts DisableUsage]) w'"
proof -
  obtain w1 p1 where w1: "world_path e w (map Acts (pr_plan p)) w1" "w_proc w1 = Up p1" "pr_plan p1 = []"
    "pr_loop p1 = pr_loop p" "pr_flow p1 = Continue"
    using drain_plan [OF assms(1,2)] assms(3) by auto
  obtain plan ls where tick: "on_tick (pr_loop p1) r = Some (DisableUsage # plan, ls)"
    using on_tick_managed [OF assms(4,5)] assms(6) w1(4) by auto
  obtain w2 p2 where w2: "world_step e w1 (Takes (TickAt r)) w2" "w_proc w2 = Up p2" "pr_plan p2 = DisableUsage # plan"
    using take_tick [OF w1(2,3,5) tick, of e] by blast
  have "world_step e w2 (Acts DisableUsage) (w2\<lparr>w_proc := Up (perform DisableUsage (p2\<lparr>pr_plan := plan\<rparr>))\<rparr>)"
    using w2 by (intro world_step.act) auto
  from world_path_trans [OF world_path_front [OF w2(1) world_path_step [OF this]] w1(1)] show ?thesis by auto
qed

theorem block_is_always_reachable_witness:
  "\<exists>w'. world_path example_env (example_booted example_managed)
     [Takes (TickAt \<lparr>os_now = secs 1800, mono_elapsed = 0, mono_anchor = 0\<rparr>), Acts DisableUsage] w'"
proof -
  let ?r = "\<lparr>os_now = secs 1800, mono_elapsed = 0, mono_anchor = 0\<rparr>"
  obtain p where p: "w_proc (example_booted example_managed) = Up p" "pr_flow p = Continue" "pr_plan p = []"
      "pr_loop p = \<lparr>ls_state = example_managed, ls_clock = guard_new 0 0, ls_blocked = True,
       ls_warnings = warnings_new, ls_decommissioned = False, ls_events_closed = False\<rparr>"
    by (auto simp: example_booted_def booted_def example_managed_def example_loop_def)
  have d: "\<not> ls_decommissioned (pr_loop p)" by (simp add: p)
  have g: "guard_now (ls_clock (pr_loop p)) ?r = Some (secs 1800, \<lparr>high_water_mark = secs 1800, anchor = 0\<rparr>)"
    by (simp add: p guard_new_def guard_now_def secs_def)
  have u: "\<not> usable_at (st_session (ls_state (pr_loop p))) (secs 1800)"
    by (simp add: p example_managed_def example_loop_def usable_at_def example_session_def)
  show ?thesis using block_is_always_reachable [OF example_codec(1) p(1,2) d g u] by (simp add: p(3))
qed

text \<open>C39. Enrolling while the agent runs is lost: when a machine is enrolled (successfully, with any new
  identity) under a running managed agent, that agent's next tick writes its own state back, and the
  disk again holds the old credential.\<close>

theorem running_agent_overwrites_enrollment:
  assumes "codec_ok (store_codec (env_store e))" and "\<not> env_exclusive e"
    and "w_proc w = Up p" and "proc_ok p" and "pr_plan p = []" and "pr_flow p = Continue"
    and "\<not> ls_decommissioned (pr_loop p)" and "guard_now (ls_clock (pr_loop p)) r = Some (t, g)"
    and "enroll (env_store e) (env_enroll e) post server token now refused rename_works fault (w_fs w) = (Inr mid, fs)"
  shows "\<exists>acts w' st. world_path e w (Enrolls (Inr mid) # Takes (TickAt r) # map Acts acts) w'
     \<and> recorded (env_store e) (w_fs w') = Some st \<and> st_credentials st = Some (pr_creds p)"
proof -
  let ?w1 = "w\<lparr>w_fs := fs\<rparr>"
  have step: "world_step e w (Enrolls (Inr mid)) ?w1" using assms(2,9) by (intro world_step.enroll_run) auto
  obtain plan ls where tick: "on_tick (pr_loop p) r = Some (plan, ls)"
    using on_tick_managed [OF assms(7,8)] by blast
  have "w_proc ?w1 = Up p" using assms(3) by simp
  from take_tick [OF this assms(5,6) tick, of e] obtain w2 p2 where
    w2: "world_step e ?w1 (Takes (TickAt r)) w2" "w_proc w2 = Up p2" "pr_plan p2 = plan" by blast
  obtain w3 where w3: "world_path e w2 (map Acts plan) w3"
    "recorded (env_store e) (w_fs w3) = Some (ls_state ls)"
    using drain_plan [OF assms(1) w2(2)] w2(3) saved_by_tick [OF tick assms(7)] by auto
  have "st_credentials (ls_state ls) = Some (pr_creds p)"
    using tick_ok(1) [OF _ tick, of "pr_creds p"] assms(4) by (auto simp: proc_ok_def loop_ok_def)
  with world_path_front [OF step world_path_front [OF w2(1) w3(1)]] w3(2) show ?thesis by blast
qed

theorem running_agent_overwrites_enrollment_witness:
  "\<exists>acts w' st. world_path (example_env\<lparr>env_exclusive := False\<rparr>) (example_booted example_managed)
       (Enrolls (Inr ''m-1'') # Takes (TickAt \<lparr>os_now = 9, mono_elapsed = 0, mono_anchor = 0\<rparr>) # map Acts acts) w'
     \<and> recorded example_store (w_fs w') = Some st \<and> st_credentials st = Some example_credentials"
proof -
  let ?e = "example_env\<lparr>env_exclusive := False\<rparr>" and ?w = "example_booted example_managed"
  let ?r = "\<lparr>os_now = 9, mono_elapsed = 0, mono_anchor = 0\<rparr>"
  let ?post = "\<lambda>url token. Some \<lparr>http_status = 200, http_body = Some ''ok''\<rparr>"
  obtain p where p: "w_proc ?w = Up p" "pr_flow p = Continue" "pr_plan p = []" "pr_creds p = example_credentials"
      "pr_loop p = \<lparr>ls_state = example_managed, ls_clock = guard_new 0 0, ls_blocked = True,
       ls_warnings = warnings_new, ls_decommissioned = False, ls_events_closed = False\<rparr>"
    by (auto simp: example_booted_def booted_def example_managed_def example_loop_def)
  have ok: "proc_ok p"
    by (simp add: proc_ok_def loop_ok_def plan_ok_def p guard_new_def) (simp add: example_managed_def example_loop_def)
  have d: "\<not> ls_decommissioned (pr_loop p)" by (simp add: p)
  have g: "guard_now (ls_clock (pr_loop p)) ?r = Some (9, \<lparr>high_water_mark = 9, anchor = 0\<rparr>)"
    by (simp add: p guard_new_def guard_now_def)
  have l: "load_for_enroll example_store 9 False True (w_fs ?w) = (Inr example_managed, w_fs ?w)"
    using load_recorded [of example_store "w_fs ?w" example_managed 9] example_recorded(2) [of example_managed]
    by (simp add: load_for_enroll_def example_booted_def example_world_def example_env_def)
  then obtain fs where "enroll (env_store ?e) (env_enroll ?e) ?post ''https://t.example'' ''tok'' 9 False True None (w_fs ?w) =
      (Inr ''m-1'', fs)"
    by (simp add: enroll_def is_success_def example_env_def example_enroll_lib_def save_ok_fault_free)
  from running_agent_overwrites_enrollment [OF _ _ p(1) ok p(3,2) d g this] example_codec(1) p(4)
  show ?thesis by (simp add: example_env_def)
qed

end
