(* ===== verification/Lifecycle.thy ===== *)
theory Lifecycle imports World begin

text \<open>
  What Taymna promises about a machine, as a specification of three phases, and the proof that the
  agent of the theory World implements it: the phase is read off the state file, the calls of the
  agent are its observations, and every life of the machine is a life the specification allows.
\<close>

section \<open>The specification\<close>

datatype phase = Unenrolled | Managed | Released

datatype observation = Locks | Unlocks | Acknowledges | EnrollAttempt | Internal

text \<open>
  Only a managed machine is locked and unlocked. It is released by a step of its own (the save that
  records the decommission), only a released machine acknowledges, and only enrolling makes a machine
  managed. Nothing else changes the phase: no crash, no restart, no error.
\<close>

inductive lifecycle :: "phase \<Rightarrow> observation \<Rightarrow> phase \<Rightarrow> bool" where
  locks: "lifecycle Managed Locks Managed"
| unlocks: "lifecycle Managed Unlocks Managed"
| relinquishes: "lifecycle Managed Internal Released"
| acknowledges: "lifecycle Released Acknowledges Released"
| enrolls: "lifecycle ph EnrollAttempt Managed"
| enroll_fails: "lifecycle ph EnrollAttempt ph"
| internal: "lifecycle ph Internal ph"

code_pred lifecycle .

inductive_simps lifecycle_simps [simp]:
  "lifecycle ph Locks ph'"
  "lifecycle ph Unlocks ph'"
  "lifecycle ph Acknowledges ph'"
  "lifecycle ph EnrollAttempt ph'"
  "lifecycle ph Internal ph'"

text \<open>What the specification alone gives: a machine leaves the released phase only through an enrollment,
  and is not locked or unlocked before.\<close>

lemma released_stays:
  assumes "steps lifecycle Released obs ph" and "EnrollAttempt \<notin> set obs"
  shows "ph = Released \<and> set obs \<subseteq> {Acknowledges, Internal}"
proof -
  have step: "ph' = Released \<and> o1 \<in> {Acknowledges, Internal}"
    if "lifecycle ph o1 ph'" "ph = Released" "o1 \<noteq> EnrollAttempt" for ph o1 ph'
    using that by cases auto
  from path_invariant [OF assms(1), of "\<lambda>ph. ph = Released" "\<lambda>o1. o1 \<noteq> EnrollAttempt" "\<lambda>o1. o1 \<in> {Acknowledges, Internal}"]
  show ?thesis using step assms(2) by (auto simp: list_all_iff)
qed

section \<open>The abstraction\<close>

definition phase_of :: "agent_state option \<Rightarrow> phase" where
  "phase_of r =
     (case r of
        None \<Rightarrow> Unenrolled
      | Some st \<Rightarrow>
          if st_decommissioned st then Released
          else if st_credentials st = None then Unenrolled else Managed)"

definition phase :: "'c env \<Rightarrow> 'c world \<Rightarrow> phase" where
  "phase e w = phase_of (recorded (env_store e) (w_fs w))"

fun observe :: "label \<Rightarrow> observation" where
  "observe (Acts DisableUsage) = Locks"
| "observe (Acts EnableUsage) = Unlocks"
| "observe (ClientActs out) = (if Send DecommissionAck \<in> set out then Acknowledges else Internal)"
| "observe (Enrolls res) = EnrollAttempt"
| "observe EnrollCrashes = EnrollAttempt"
| "observe l = Internal"

lemma phase_of_simps [simp]:
  "phase_of None = Unenrolled"
  "st_decommissioned st \<Longrightarrow> phase_of (Some st) = Released"
  "\<not> st_decommissioned st \<Longrightarrow> st_credentials st = Some creds \<Longrightarrow> phase_of (Some st) = Managed"
  by (simp_all add: phase_of_def)

lemma phase_of_enrolled [simp]: "phase_of (Some (enrolled_state server parsed st)) = Managed"
  by (simp add: enrolled_state_def Let_def)

section \<open>The invariant\<close>

text \<open>Beside the invariant of the world: what is recorded under a running process has a credential.\<close>

definition lifecycle_inv :: "'c env \<Rightarrow> 'c world \<Rightarrow> bool" where
  "lifecycle_inv e w \<longleftrightarrow> codec_ok (store_codec (env_store e)) \<and> env_exclusive e \<and> world_ok e w
     \<and> (\<forall>p. w_proc w = Up p \<longrightarrow> (\<exists>st creds. recorded (env_store e) (w_fs w) = Some st \<and> st_credentials st = Some creds))"

lemma observe_enroll: "observe l = EnrollAttempt \<longleftrightarrow> is_enroll l"
  by (cases l rule: observe.cases) auto

lemma disk_changes_internally:
  "world_step e w l w' \<Longrightarrow> w_fs w' \<noteq> w_fs w \<Longrightarrow> observe l = Internal \<or> is_enroll l"
  by (erule world_stepE) auto

lemma enroll_down: "world_step e w l w' \<Longrightarrow> is_enroll l \<Longrightarrow> env_exclusive e \<Longrightarrow> w_proc w = Down \<and> w_proc w' = Down"
  by (erule world_stepE) auto

text \<open>A process that runs after a step ran before it or was started by it.\<close>

lemma running_after:
  assumes "world_step e w l w'" and "w_proc w' = Up q"
  shows "(\<exists>p. w_proc w = Up p)
    \<or> (\<exists>st creds. recorded (env_store e) (w_fs w') = Some st \<and> st_credentials st = Some creds)"
  using assms
proof (cases rule: world_step.cases)
  case (boot now refused m creds ls plan)
  then show ?thesis using run_start_Starts [OF boot(4)] by auto
qed auto

lemma lifecycle_inv_step:
  assumes "lifecycle_inv e w" and "world_step e w l w'"
  shows "lifecycle_inv e w'"
proof -
  have ok: "codec_ok (store_codec (env_store e))" "env_exclusive e" "world_ok e w"
    using assms(1) by (simp_all add: lifecycle_inv_def)
  have "\<exists>st creds. recorded (env_store e) (w_fs w') = Some st \<and> st_credentials st = Some creds" if q: "w_proc w' = Up q" for q
    using running_after [OF assms(2) q]
  proof
    assume "\<exists>p. w_proc w = Up p"
    then obtain p st creds where p: "w_proc w = Up p" "recorded (env_store e) (w_fs w) = Some st" "st_credentials st = Some creds"
      using assms(1) by (auto simp: lifecycle_inv_def)
    from assms(2) ok(1,3) p(2) show ?thesis
    proof (cases rule: disk_step)
      case (saved r)
      then show ?thesis by (auto simp: proc_ok_def loop_ok_def)
    qed (use p in \<open>auto simp: enrolled_state_def Let_def\<close>)
  qed
  with ok world_step_ok [OF assms(2) ok] show ?thesis by (simp add: lifecycle_inv_def)
qed

section \<open>The simulation\<close>

text \<open>What a step does to the phase.\<close>

lemma phase_step:
  assumes "lifecycle_inv e w" and "world_step e w l w'"
  shows "phase e w' = phase e w
     \<or> phase e w = Managed \<and> phase e w' = Released \<and> observe l = Internal
     \<or> is_enroll l \<and> phase e w' = Managed"
proof (cases "recorded (env_store e) (w_fs w)")
  case (Some st)
  have ok: "codec_ok (store_codec (env_store e))" "env_exclusive e" "world_ok e w"
    using assms(1) by (simp_all add: lifecycle_inv_def)
  from assms(2) ok(1,3) Some show ?thesis
  proof (cases rule: disk_step)
    case (saved p)
    then have "observe l = Internal \<or> w_fs w' = w_fs w"
      using disk_changes_internally [OF assms(2)] enroll_down [OF assms(2) _ ok(2)] by auto
    then show ?thesis
      using saved assms(1) Some
      by (cases "st_decommissioned st") (auto simp: phase_def lifecycle_inv_def disk_ok_def proc_ok_def loop_ok_def phase_of_def)
  qed (use Some in \<open>auto simp: phase_def\<close>)
next
  case None
  then have down: "w_proc w \<noteq> Up p" for p using assms(1) by (auto simp: lifecycle_inv_def)
  have codec: "codec_ok (store_codec (env_store e))" using assms(1) by (simp add: lifecycle_inv_def)
  from assms(2) show ?thesis
  proof (cases rule: world_step.cases)
    case (enroll_run post server token now refused rename_works fault res fs)
    then show ?thesis using enroll_recorded [OF codec enroll_run(4)] None by (auto simp: phase_def)
  next
    case (enroll_crash now refused rename_works state fs server parsed pt)
    then show ?thesis
      using load_for_enroll_recorded [OF enroll_crash(4)] recorded_save_at [OF codec, of "enrolled_state server parsed state" pt fs] None
      by (auto simp: phase_def split: if_splits)
  qed (use down in \<open>auto simp: phase_def\<close>)
qed

text \<open>In which phase the observable calls are made.\<close>

lemma enforces_managed:
  assumes "lifecycle_inv e w" and "world_step e w l w'" and "enforces l"
  shows "phase e w = Managed"
proof -
  obtain p where "w_proc w = Up p" using assms(2,3) by (auto elim!: world_stepE)
  then obtain st creds where st: "recorded (env_store e) (w_fs w) = Some st" "st_credentials st = Some creds"
    using assms(1) by (auto simp: lifecycle_inv_def)
  have "\<not> is_enroll l" using assms(3) by (cases l) auto
  then have "\<not> st_decommissioned st"
    using decommissioned_step(2) [OF assms(2)] assms(1,3) st by (auto simp: lifecycle_inv_def disk_decommissioned_def)
  then show ?thesis using st by (simp add: phase_def)
qed

lemma acknowledges_released:
  assumes "lifecycle_inv e w" and "world_step e w (ClientActs out) w'" and "Send DecommissionAck \<in> set out"
  shows "phase e w = Released"
proof -
  obtain p i cmds st where p: "w_proc w = Up p"
    and f: "feed (env_lib e) (pr_creds p) (pr_client p) (pr_cmds p) i = Some cmds"
    and c: "client_step (env_lib e) (pr_creds p) (pr_client p) i = (out, st)"
    using assms(2) by (auto simp: world_step_simps)
  obtain d where "recorded (env_store e) (w_fs w) = Some d" "proc_ok p" "disk_ok p d"
    using assms(1) p by (auto simp: lifecycle_inv_def world_ok_def)
  then show ?thesis using client_ok [OF _ _ f c, of d] assms(3) by (simp add: phase_def)
qed

lemma fs_kept: "world_step e w l w' \<Longrightarrow> observe l \<notin> {Internal, EnrollAttempt} \<Longrightarrow> phase e w' = phase e w"
  using disk_changes_internally [of e w l w'] by (cases "w_fs w' = w_fs w") (auto simp: phase_def observe_enroll)

lemma world_simulates:
  assumes "lifecycle_inv e w" and "world_step e w l w'"
  shows "lifecycle (phase e w) (observe l) (phase e w')"
proof (cases "observe l \<in> {Internal, EnrollAttempt}")
  case True
  then show ?thesis using phase_step [OF assms] observe_enroll [of l] by auto
next
  case False
  have kept: "phase e w' = phase e w" by (rule fs_kept [OF assms(2) False])
  show ?thesis
  proof (cases "enforces l")
    case True
    then have "observe l \<in> {Locks, Unlocks}" by (cases l rule: observe.cases) auto
    then show ?thesis using enforces_managed [OF assms True] kept by auto
  next
    case False
    with \<open>observe l \<notin> {Internal, EnrollAttempt}\<close> obtain out where "l = ClientActs out" "Send DecommissionAck \<in> set out"
      by (cases l rule: observe.cases) (auto split: if_splits)
    then show ?thesis using acknowledges_released [OF assms(1)] assms(2) kept by simp
  qed
qed

interpretation lifecycle: simulation "world_step e" "lifecycle_inv e" lifecycle "phase e" observe
  for e :: "'c env"
  by unfold_locales (rule lifecycle_inv_step, assumption, assumption, rule world_simulates, assumption, assumption)

section \<open>Properties\<close>

text \<open>C6. The agent implements the lifecycle: every life of a machine, from any state file, through any
  interleaving of ticks, messages, saves, failures, crashes, restarts and enrollments, is one that
  the three-phase specification allows, with the phase read off the state file.\<close>

theorem agent_refines_lifecycle:
  assumes "codec_ok (store_codec (env_store e))" and "env_exclusive e" and "w_proc w = Down"
    and "world_path e w ls w'"
  shows "steps lifecycle (phase e w) (map observe ls) (phase e w')"
proof -
  have "lifecycle_inv e w" using assms(1-3) by (simp add: lifecycle_inv_def down_ok)
  with assms(4) show ?thesis by (rule lifecycle.sim_steps)
qed

theorem agent_refines_lifecycle_witness:
  "\<exists>w'. world_path example_env (example_world example_released) [Boots, Crashes] w'
     \<and> steps lifecycle Released [Internal, Internal] (phase example_env w')"
proof -
  have "world_step example_env (example_world example_released) Boots (example_booted example_released)"
    by (rule example_boot) simp
  moreover have "w_proc (example_booted example_released) \<noteq> Down" by (simp add: example_booted_def)
  ultimately have path: "world_path example_env (example_world example_released) [Boots, Crashes]
      ((example_booted example_released)\<lparr>w_proc := Down\<rparr>)"
    using world_path_front [OF _ world_path_step [OF world_step.crash]] by blast
  from agent_refines_lifecycle [OF example_codec example_down path] show ?thesis
    using path by (auto simp: phase_def)
qed

end
