(* ===== verification/States.thy ===== *)
theory States imports World begin

text \<open>
  What holds of every state the agent records or runs with. A property of states that enrolling
  establishes and every branch of the select keeps (as long as the branches taken are allowed ones)
  holds of the disk and of the running loop along every path: the locale \<open>state_property\<close> proves it
  once, over crashes, restarts and failing saves, and is interpreted for the shape of the states and
  for the deadline of the session.
\<close>

section \<open>Properties of states as an interface\<close>

definition everywhere :: "(agent_state \<Rightarrow> bool) \<Rightarrow> 'c env \<Rightarrow> 'c world \<Rightarrow> bool" where
  "everywhere P e w \<longleftrightarrow> (\<forall>st. recorded (env_store e) (w_fs w) = Some st \<longrightarrow> P st)
     \<and> (\<forall>p. w_proc w = Up p \<longrightarrow> P (ls_state (pr_loop p)))"

fun takes_only :: "(loop_input \<Rightarrow> bool) \<Rightarrow> label \<Rightarrow> bool" where
  "takes_only A (Takes i) = A i"
| "takes_only A l = True"

lemma takes_only_all [simp]: "list_all (takes_only (\<lambda>i. True)) ls"
proof -
  have "takes_only (\<lambda>i. True) l" for l by (cases l) auto
  then show ?thesis by (simp add: list_all_iff)
qed

locale state_property =
  fixes P :: "agent_state \<Rightarrow> bool" and A :: "loop_input \<Rightarrow> bool"
  assumes enrolled: "P (enrolled_state server parsed st)"
    and handled: "loop_ok creds ls \<Longrightarrow> P (ls_state ls) \<Longrightarrow> A i \<Longrightarrow> handle ls i = Some (plan, fl, ls') \<Longrightarrow> P (ls_state ls')"
begin

lemma recorded_step:
  assumes "world_step e w l w'" and "codec_ok (store_codec (env_store e))" and "world_ok e w" and "everywhere P e w"
    and "recorded (env_store e) (w_fs w') = Some st'"
  shows "P st'"
proof (cases "recorded (env_store e) (w_fs w)")
  case (Some st)
  from assms(1-3) this show ?thesis
    by (cases rule: disk_step) (use assms(4,5) Some enrolled in \<open>auto simp: everywhere_def\<close>)
next
  case None
  then have down: "w_proc w \<noteq> Up p" for p using assms(3) by (auto simp: world_ok_def)
  from assms(1) show ?thesis
  proof (cases rule: world_step.cases)
    case (enroll_run post server token now refused rename_works fault res fs)
    then show ?thesis using enroll_recorded [OF assms(2) enroll_run(4)] None assms(5) enrolled by auto
  next
    case (enroll_crash now refused rename_works state fs server parsed pt)
    then show ?thesis
      using load_for_enroll_recorded [OF enroll_crash(4)] recorded_save_at [OF assms(2), of "enrolled_state server parsed state" pt fs]
        None assms(5) enrolled [of server parsed state] by (auto split: if_splits)
  qed (use down None assms(5) in auto)
qed

lemma everywhere_step:
  assumes "world_step e w l w'" and "codec_ok (store_codec (env_store e))" and "world_ok e w" and "everywhere P e w"
    and "takes_only A l"
  shows "everywhere P e w'"
proof -
  have "P (ls_state (pr_loop q))" if "w_proc w' = Up q" for q
    using assms(1)
  proof (cases rule: world_step.cases)
    case (boot now refused m creds ls plan)
    then show ?thesis using run_start_Starts [OF boot(4)] assms(4) that by (auto simp: booted_def everywhere_def)
  next
    case (take p i plan fl ls)
    then show ?thesis using handled [OF _ _ _ take(8)] assms(3-5) that by (auto simp: everywhere_def world_ok_def proc_ok_def)
  next
    case (act p a plan)
    then show ?thesis using assms(4) that by (cases a) (auto simp: everywhere_def)
  qed (use assms(4) that in \<open>auto simp: everywhere_def\<close>)
  with recorded_step [OF assms(1-4)] show ?thesis by (simp add: everywhere_def)
qed

lemma everywhere_path:
  assumes "world_path e w ls w'" and "codec_ok (store_codec (env_store e))" and "env_exclusive e"
    and "world_ok e w" and "everywhere P e w" and "list_all (takes_only A) ls"
  shows "world_ok e w' \<and> everywhere P e w'"
  using assms(1,4-6)
  by (induction rule: steps.induct) (auto intro: world_step_ok [OF _ assms(2,3)] everywhere_step [OF _ assms(2)])

end

section \<open>The shape of states\<close>

definition state_wf :: "agent_state \<Rightarrow> bool" where
  "state_wf st \<longleftrightarrow> st_credentials st \<noteq> None \<and> (st_decommissioned st \<longrightarrow> st_session st = None)"

lemma handle_wf:
  assumes "loop_ok creds ls" and "state_wf (ls_state ls)" and "handle ls i = Some (plan, fl, ls')"
  shows "state_wf (ls_state ls')"
proof (cases i)
  case ShutdownRequested
  then show ?thesis using assms by simp
next
  case (EventRecv ev m)
  then have "on_event ls ev m = (plan, ls')" using assms(3) by (auto split: prod.splits)
  then show ?thesis using assms(1,2)
    by (cases "(ls, ev, m)" rule: on_event.cases) (auto simp: handler_defs state_wf_def loop_ok_def split: prod.splits if_splits)
next
  case (TickAt r)
  then have t: "on_tick ls r = Some (plan, ls')" using assms(3) by auto
  show ?thesis
  proof (rule on_tick_cases [of ls r])
    fix t g assume a: "\<not> ls_decommissioned ls" "guard_now (ls_clock ls) r = Some (t, g)"
    then show ?thesis using on_tick_managed [OF a] t assms(1,2) by (auto simp: state_wf_def loop_ok_def)
  qed (use t assms(2) in auto)
qed

interpretation shape: state_property state_wf "\<lambda>i. True"
proof
  show "state_wf (enrolled_state server parsed st)" for server parsed st
    by (simp add: state_wf_def enrolled_state_def Let_def)
qed (rule handle_wf)

section \<open>The deadline of the session\<close>

text \<open>Without a session message no state allows use after the deadline of the session there was.\<close>

definition deadline_within :: "datetime \<Rightarrow> agent_state \<Rightarrow> bool" where
  "deadline_within deadline st \<longleftrightarrow> (\<forall>s. st_session st = Some s \<longrightarrow> expires_at s \<le> deadline)"

fun no_news :: "loop_input \<Rightarrow> bool" where
  "no_news (EventRecv (Some (SessionState session t)) m) = False"
| "no_news i = True"

lemma takes_no_news [simp]: "takes_only no_news = no_session_news"
proof
  fix l show "takes_only no_news l = no_session_news l"
    by (cases l rule: no_session_news.cases) auto
qed

lemma handle_deadline:
  assumes "deadline_within deadline (ls_state ls)" and "no_news i" and "handle ls i = Some (plan, fl, ls')"
  shows "deadline_within deadline (ls_state ls')"
proof (cases i)
  case ShutdownRequested
  then show ?thesis using assms by simp
next
  case (EventRecv ev m)
  then have "on_event ls ev m = (plan, ls')" using assms(3) by (auto split: prod.splits)
  then show ?thesis using assms(1,2) EventRecv
    by (cases "(ls, ev, m)" rule: on_event.cases) (auto simp: handler_defs deadline_within_def split: prod.splits if_splits)
next
  case (TickAt r)
  then have t: "on_tick ls r = Some (plan, ls')" using assms(3) by auto
  show ?thesis
  proof (rule on_tick_cases [of ls r])
    fix t g assume a: "\<not> ls_decommissioned ls" "guard_now (ls_clock ls) r = Some (t, g)"
    then show ?thesis using on_tick_managed [OF a] t assms(1)
      by (cases "st_session (ls_state ls)") (auto simp: deadline_within_def advance_session expire_locally_def)
  qed (use t assms(1) in auto)
qed

interpretation deadline: state_property "deadline_within deadline" no_news for deadline
proof
  show "deadline_within deadline (enrolled_state server parsed st)" for server parsed st
    by (simp add: deadline_within_def enrolled_state_def Let_def)
qed (rule handle_deadline)

lemma deadline_blocks:
  assumes "deadline_within deadline st" and "deadline \<le> t"
  shows "\<not> usable_at (st_session st) t"
  using assms by (auto simp: deadline_within_def usable_at_def split: option.splits)

section \<open>Properties\<close>

text \<open>C4. The deadline is absolute: once the state file records a session, then without a further session
  message from the server, whatever time passes, however often the agent is restarted, crashes or
  is cut off, and whatever its clock showed before, every tick at which the clock reads the deadline
  or later blocks the machine as its first call (unless it has been decommissioned) and never
  releases it.\<close>

theorem offline_deadline_is_absolute:
  assumes "codec_ok (store_codec (env_store e))" and "env_exclusive e" and "w_proc w = Down"
    and "recorded (env_store e) (w_fs w) = Some st" and "st_session st = Some s"
    and "world_path e w ls w1" and "list_all no_session_news ls"
    and "world_step e w1 (Takes (TickAt r)) w2" and "expires_at s \<le> os_now r"
  shows "\<exists>p. w_proc w2 = Up p \<and> EnableUsage \<notin> set (pr_plan p)
     \<and> (ls_decommissioned (pr_loop p) \<or> (\<exists>rest. pr_plan p = DisableUsage # rest))"
proof -
  have "everywhere (deadline_within (expires_at s)) e w"
    using assms(3-5) by (simp add: everywhere_def deadline_within_def)
  then have all: "everywhere (deadline_within (expires_at s)) e w1"
    using deadline.everywhere_path [OF assms(6,1,2) down_ok [OF assms(3)]] assms(7) by simp
  from assms(8) obtain p plan fl ls' where p: "w_proc w1 = Up p" "handle (pr_loop p) (TickAt r) = Some (plan, fl, ls')"
    "w_proc w2 = Up (p\<lparr>pr_loop := ls', pr_plan := plan, pr_flow := fl, pr_events := pr_events p\<rparr>)"
    by (auto elim!: world_stepE)
  then have t: "on_tick (pr_loop p) r = Some (plan, ls')" by auto
  have "EnableUsage \<notin> set plan \<and> (ls_decommissioned ls' \<or> (\<exists>rest. plan = DisableUsage # rest))"
  proof (rule on_tick_cases [of "pr_loop p" r])
    fix now g assume a: "\<not> ls_decommissioned (pr_loop p)" "guard_now (ls_clock (pr_loop p)) r = Some (now, g)"
    have "\<not> usable_at (st_session (ls_state (pr_loop p))) now"
      using all p(1) assms(9) guard_now_ge_os [OF a(2)]
      by (intro deadline_blocks [of "expires_at s"]) (auto simp: everywhere_def)
    then show ?thesis using on_tick_managed [OF a] t by auto
  qed (use t in auto)
  then show ?thesis using p(3) by auto
qed

theorem offline_deadline_is_absolute_witness:
  "\<exists>w2 p. world_path example_env (example_world example_managed)
       [Boots, Takes (TickAt \<lparr>os_now = secs 1800, mono_elapsed = 0, mono_anchor = 0\<rparr>)] w2
     \<and> w_proc w2 = Up p \<and> EnableUsage \<notin> set (pr_plan p)"
proof -
  let ?r = "\<lparr>os_now = secs 1800, mono_elapsed = 0, mono_anchor = 0\<rparr>"
  have step: "world_step example_env (example_world example_managed) Boots (example_booted example_managed)"
    by (rule example_boot) simp
  obtain p where p: "w_proc (example_booted example_managed) = Up p" "pr_plan p = []" "pr_flow p = Continue"
      "pr_loop p = example_loop"
    by (auto simp: example_booted_def booted_def example_managed_def example_loop_def)
  obtain plan ls where "on_tick (pr_loop p) ?r = Some (plan, ls)"
    using on_tick_managed [of "pr_loop p" ?r "secs 1800" "\<lparr>high_water_mark = secs 1800, anchor = 0\<rparr>"]
    by (auto simp: p example_loop_def guard_new_def guard_now_def secs_def)
  from take_tick [OF p(1-3) this, of example_env] obtain w2 where
    tick: "world_step example_env (example_booted example_managed) (Takes (TickAt ?r)) w2" by blast
  have s: "st_session example_managed = Some example_session" "expires_at example_session \<le> os_now ?r"
    by (simp_all add: example_managed_def example_loop_def example_session_def)
  from offline_deadline_is_absolute [OF example_codec example_down example_recorded(1) s(1) world_path_step [OF step] _ tick s(2)]
  show ?thesis using world_path_front [OF step world_path_step [OF tick]] by auto
qed

text \<open>C17. The agent only ever writes well-formed states: on a machine whose state file was written by
  nobody else, every state recorded and every state the loop runs with has a credential, and is not
  decommissioned and with a session at the same time.\<close>

theorem recorded_states_well_formed:
  assumes "codec_ok (store_codec (env_store e))" and "env_exclusive e" and "w_proc w = Down"
    and "recorded (env_store e) (w_fs w) = None" and "world_path e w ls w'"
  shows "(\<forall>st. recorded (env_store e) (w_fs w') = Some st \<longrightarrow> state_wf st)
     \<and> (\<forall>p. w_proc w' = Up p \<longrightarrow> state_wf (ls_state (pr_loop p)))"
proof -
  have "everywhere state_wf e w" using assms(3,4) by (simp add: everywhere_def)
  then have "everywhere state_wf e w'"
    using shape.everywhere_path [OF assms(5,1,2) down_ok [OF assms(3)]] takes_only_all [of ls] by blast
  then show ?thesis by (simp add: everywhere_def)
qed

text \<open>The witness: a fresh machine is enrolled.\<close>

theorem recorded_states_well_formed_witness:
  "\<exists>w' st. world_path example_env \<lparr>w_fs = Map.empty, w_proc = Down\<rparr> [Enrolls (Inr ''m-1'')] w'
     \<and> recorded (env_store example_env) (w_fs w') = Some st \<and> state_wf st"
proof -
  let ?post = "\<lambda>url token. Some \<lparr>http_status = 200, http_body = Some ''ok''\<rparr>"
  let ?w = "\<lparr>w_fs = Map.empty, w_proc = Down\<rparr>"
  have "load_for_enroll example_store 9 False True Map.empty = (Inr (agent_state_default 9), Map.empty)"
    by (simp add: load_for_enroll_def load_def read_file_def)
  then obtain fs where enr: "enroll (env_store example_env) (env_enroll example_env) ?post ''https://t.example'' ''tok'' 9 False True None Map.empty =
      (Inr ''m-1'', fs)"
    by (simp add: enroll_def is_success_def example_env_def example_enroll_lib_def save_ok_fault_free)
  have "recorded (env_store example_env) fs \<noteq> None"
    using enroll_recorded [OF example_codec(1) enr] by auto
  then obtain st where st: "recorded (env_store example_env) fs = Some st" by blast
  have step: "world_step example_env ?w (Enrolls (Inr ''m-1'')) (?w\<lparr>w_fs := fs\<rparr>)"
    using world_step.enroll_run [of example_env ?w] enr by simp
  have none: "recorded (env_store example_env) (w_fs ?w) = None" by (simp add: recorded_def)
  show ?thesis
    using recorded_states_well_formed [OF example_codec _ none world_path_step [OF step]] world_path_step [OF step] st
    by (intro exI [of _ "?w\<lparr>w_fs := fs\<rparr>"] exI [of _ st]) simp
qed

end
