(* ===== verification/Progress.thy ===== *)
theory Progress imports World begin

text \<open>
  That the agent gets on: a branch of the select is taken and its plan performed, a process asked to
  stop leaves its state on disk (the whole shutdown, with the thread it waits for, is in the theory
  Delivery), and a session granted by the server releases the machine without further help.
\<close>

section \<open>Taking a branch of the select\<close>

lemma take_branch:
  assumes "w_proc w = Up p" and "pr_plan p = []" and "pr_flow p = Continue" and "enabled (pr_loop p) i"
    and "available p i" and "handle (pr_loop p) i = Some (plan, fl, ls)"
  shows "\<exists>w' p'. world_step e w (Takes i) w' \<and> w_proc w' = Up p' \<and> pr_plan p' = plan \<and> w_fs w' = w_fs w
     \<and> pr_loop p' = ls \<and> pr_flow p' = fl \<and> pr_creds p' = pr_creds p \<and> pr_client p' = pr_client p \<and> pr_cmds p' = pr_cmds p
     \<and> pr_events p' = events_after i (pr_events p)"
  using world_step.take [OF assms, of e] by force

text \<open>An idle process takes a branch and performs its whole plan.\<close>

lemma take_and_perform:
  assumes "codec_ok (store_codec (env_store e))" and "w_proc w = Up p" and "pr_plan p = []" and "pr_flow p = Continue"
    and "enabled (pr_loop p) i" and "available p i" and "handle (pr_loop p) i = Some (plan, fl, ls)"
  shows "\<exists>w' p'. world_path e w (Takes i # map Acts plan) w' \<and> w_proc w' = Up p' \<and> pr_plan p' = []
     \<and> pr_loop p' = ls \<and> pr_flow p' = fl \<and> recorded (env_store e) (w_fs w') = saved_by plan (recorded (env_store e) (w_fs w))
     \<and> pr_creds p' = pr_creds p \<and> pr_client p' = pr_client p \<and> pr_cmds p' = pr_cmds p @ plan_commands plan
     \<and> pr_events p' = events_after i (pr_events p)"
proof -
  obtain w1 p1 where w1: "world_step e w (Takes i) w1" "w_proc w1 = Up p1" "pr_plan p1 = plan" "w_fs w1 = w_fs w"
    "pr_loop p1 = ls" "pr_flow p1 = fl" "pr_creds p1 = pr_creds p" "pr_client p1 = pr_client p" "pr_cmds p1 = pr_cmds p"
    "pr_events p1 = events_after i (pr_events p)"
    using take_branch [OF assms(2-7), of e] by blast
  from drain_plan [OF assms(1) w1(2)] w1(3-10) world_path_front [OF w1(1)] show ?thesis by fastforce
qed

text \<open>The events branch taken until the channel is empty; a decommission among the events of a managed
  process puts the acknowledgement command into its channel.\<close>

fun event_work :: "label \<Rightarrow> bool" where
  "event_work (Takes (EventRecv (Some ev) m)) = True"
| "event_work (Acts a) = True"
| "event_work l = False"

lemma event_handled:
  "\<exists>plan ls. handle l (EventRecv (Some ev) m) = Some (plan, Continue, ls) \<and> ls_events_closed ls = ls_events_closed l
     \<and> ls_decommissioned ls = (ls_decommissioned l \<or> ev = Decommission)
     \<and> (\<not> ls_decommissioned l \<longrightarrow> ev = Decommission \<longrightarrow> plan_commands plan \<noteq> [])"
  by (cases ev) (auto simp: accept_decommission_def Let_def split: prod.splits)

lemma events_run:
  assumes "codec_ok (store_codec (env_store e))" and "w_proc w = Up p" and "pr_plan p = []" and "pr_flow p = Continue"
    and "\<not> ls_events_closed (pr_loop p)"
  shows "\<exists>as w' p'. world_path e w as w' \<and> list_all event_work as \<and> w_proc w' = Up p' \<and> pr_plan p' = [] \<and> pr_events p' = []
     \<and> pr_creds p' = pr_creds p \<and> pr_client p' = pr_client p \<and> pr_flow p' = Continue \<and> \<not> ls_events_closed (pr_loop p')
     \<and> (\<exists>zs. pr_cmds p' = pr_cmds p @ zs \<and> (Decommission \<in> set (pr_events p) \<longrightarrow> \<not> ls_decommissioned (pr_loop p) \<longrightarrow> zs \<noteq> []))"
  using assms(2-5)
proof (induction "pr_events p" arbitrary: w p)
  case Nil
  then show ?case using steps.here by (intro exI [of _ "[]"] exI [of _ w] exI [of _ p]) auto
next
  case (Cons ev evs)
  let ?i = "EventRecv (Some ev) 0"
  obtain plan ls where h: "handle (pr_loop p) ?i = Some (plan, Continue, ls)" "ls_events_closed ls = ls_events_closed (pr_loop p)"
    "ls_decommissioned ls = (ls_decommissioned (pr_loop p) \<or> ev = Decommission)"
    "\<not> ls_decommissioned (pr_loop p) \<longrightarrow> ev = Decommission \<longrightarrow> plan_commands plan \<noteq> []"
    using event_handled [of "pr_loop p" ev 0] by blast
  have ready: "enabled (pr_loop p) ?i" "available p ?i" using Cons.prems(4) Cons.hyps(2) [symmetric] by auto
  obtain w1 p1 where w1: "world_path e w (Takes ?i # map Acts plan) w1" "w_proc w1 = Up p1" "pr_plan p1 = []" "pr_loop p1 = ls"
    "pr_flow p1 = Continue" "pr_creds p1 = pr_creds p" "pr_client p1 = pr_client p" "pr_cmds p1 = pr_cmds p @ plan_commands plan"
    "pr_events p1 = evs"
    using take_and_perform [OF assms(1) Cons.prems(1-3) ready h(1)] Cons.hyps(2) [symmetric] by auto
  have "\<not> ls_events_closed (pr_loop p1)" using Cons.prems(4) h(2) w1(4) by simp
  from Cons.hyps(1) [OF w1(9) [symmetric] w1(2,3,5) this] obtain as w' p' zs where
    w': "world_path e w1 as w'" "list_all event_work as" "w_proc w' = Up p'" "pr_plan p' = []" "pr_events p' = []"
      "pr_creds p' = pr_creds p" "pr_client p' = pr_client p" "pr_flow p' = Continue" "\<not> ls_events_closed (pr_loop p')"
      "pr_cmds p' = pr_cmds p1 @ zs" "Decommission \<in> set evs \<longrightarrow> \<not> ls_decommissioned ls \<longrightarrow> zs \<noteq> []"
    using w1(4,6,7,9) by auto
  have "list_all event_work ((Takes ?i # map Acts plan) @ as)" using w'(2) by (auto simp: list_all_iff)
  then show ?case
    using world_path_trans [OF w'(1) w1(1)] w'(3-11) w1(8) h(3,4) Cons.hyps(2) [symmetric]
    by (intro exI [of _ "(Takes ?i # map Acts plan) @ as"] exI [of _ w'] exI [of _ p']) auto
qed

section \<open>Leaving the loop\<close>

text \<open>A process that has left the loop still has its state to save, or has saved it.\<close>

definition leaving_ok :: "'c env \<Rightarrow> 'c world \<Rightarrow> bool" where
  "leaving_ok e w \<longleftrightarrow> (\<forall>p. w_proc w = Up p \<longrightarrow> pr_flow p = Break \<longrightarrow>
     pr_plan p = [SaveState (ls_state (pr_loop p))]
     \<or> pr_plan p = [] \<and> recorded (env_store e) (w_fs w) = Some (ls_state (pr_loop p)))"

lemma handle_breaks: "handle ls i = Some (plan, Break, ls') \<Longrightarrow> plan = [SaveState (ls_state ls')]"
  by (cases i) (auto split: prod.splits)

lemma leaving_ok_step:
  assumes "world_step e w l w'" and "codec_ok (store_codec (env_store e))" and "env_exclusive e" and "leaving_ok e w"
  shows "leaving_ok e w'"
  using assms(1)
proof (cases rule: world_step.cases)
  case (boot now refused m creds ls plan)
  then show ?thesis by (simp add: leaving_ok_def booted_def)
next
  case (take p i plan fl ls)
  then show ?thesis using handle_breaks [of "pr_loop p" i plan ls] by (simp add: leaving_ok_def)
next
  case (act p a plan)
  then show ?thesis using assms(4) by (cases a) (auto simp: leaving_ok_def)
next
  case (act_save p st plan fault u fs)
  then have "recorded (env_store e) fs = Some st"
    using completed_save [OF act_save(5)] recorded_save_at [OF assms(2), of st Renamed] by simp
  then show ?thesis using act_save assms(4) by (auto simp: leaving_ok_def)
qed (use assms(3,4) in \<open>auto simp: leaving_ok_def\<close>)

lemma leaving_ok_path:
  assumes "world_path e w ls w'" and "codec_ok (store_codec (env_store e))" and "env_exclusive e" and "w_proc w = Down"
  shows "leaving_ok e w'"
proof -
  have "leaving_ok e w" using assms(4) by (simp add: leaving_ok_def)
  with assms(1) show ?thesis by (induction rule: steps.induct) (auto intro: leaving_ok_step [OF _ assms(2,3)])
qed

text \<open>The calls of the loop alone lead from any moment to a completed shutdown, if the save is not refused.\<close>

lemma shutdown_run:
  assumes "codec_ok (store_codec (env_store e))" and "w_proc w = Up p" and "pr_flow p = Continue"
  shows "\<exists>w'. world_path e w
       (map Acts (pr_plan p) @ [Takes ShutdownRequested, Acts (SaveState (ls_state (pr_loop p))), Exits]) w'
     \<and> w_proc w' = Down \<and> recorded (env_store e) (w_fs w') = Some (ls_state (pr_loop p))"
proof -
  obtain w1 p1 where w1: "world_path e w (map Acts (pr_plan p)) w1" "w_proc w1 = Up p1" "pr_plan p1 = []"
    "pr_loop p1 = pr_loop p" "pr_flow p1 = Continue"
    using drain_plan [OF assms(1,2)] assms(3) by auto
  obtain w2 p2 where w2: "world_path e w1 (Takes ShutdownRequested # map Acts [SaveState (ls_state (pr_loop p))]) w2"
    "w_proc w2 = Up p2" "pr_plan p2 = []" "pr_flow p2 = Break"
    "recorded (env_store e) (w_fs w2) = Some (ls_state (pr_loop p))"
    using take_and_perform [OF assms(1) w1(2,3,5), of ShutdownRequested "[SaveState (ls_state (pr_loop p))]" Break "pr_loop p"]
      w1(4) by auto
  let ?w = "w2\<lparr>w_proc := Down\<rparr>"
  from world_path_trans [OF world_path_trans [OF world_path_step [OF world_step.exit [OF w2(2-4)]] w2(1)] w1(1)]
  show ?thesis using w2(5) by (intro exI [of _ ?w]) simp
qed

section \<open>Properties\<close>

text \<open>C13. A session granted by the server opens the machine: when the next event is a session message
  newer than the last one applied, with an active session whose deadline lies after the next trusted
  reading, the loop alone applies and saves it, and the first thing the next tick does is release
  the machine it had blocked.\<close>

theorem granted_session_releases:
  assumes "codec_ok (store_codec (env_store e))" and "w_proc w = Up p" and "pr_flow p = Continue"
    and "\<not> ls_decommissioned (pr_loop p)" and "\<not> ls_events_closed (pr_loop p)" and "ls_blocked (pr_loop p)"
    and "pr_events p = SessionState (Some s) sent # rest" and "st_last_applied_at (ls_state (pr_loop p)) < sent"
    and "status s = Active"
    and "guard_now (resync_from_server (ls_clock (pr_loop p)) sent m) r = Some (t, g)" and "t < expires_at s"
  shows "\<exists>st w'. world_path e w
       (map Acts (pr_plan p) @ (Takes (EventRecv (Some (SessionState (Some s) sent)) m) # map Acts [SaveState st])
          @ [Takes (TickAt r), Acts EnableUsage]) w'
     \<and> st_session st = Some s \<and> recorded (env_store e) (w_fs w') = Some st"
proof -
  obtain w1 p1 where w1: "world_path e w (map Acts (pr_plan p)) w1" "w_proc w1 = Up p1" "pr_plan p1 = []"
    "pr_loop p1 = pr_loop p" "pr_flow p1 = Continue" "pr_events p1 = pr_events p"
    using drain_plan [OF assms(1,2)] assms(3) by auto
  let ?ev = "EventRecv (Some (SessionState (Some s) sent)) m"
  obtain st ls where h: "handle (pr_loop p1) ?ev = Some ([SaveState st], Continue, ls)"
    and ls: "ls_state ls = st" "st_session st = Some s" "ls_blocked ls" "\<not> ls_decommissioned ls"
      "ls_clock ls = resync_from_server (ls_clock (pr_loop p)) sent m"
    using assms(4,6,8) w1(4) by (auto simp: handler_defs apply_server_message_def)
  have ready: "enabled (pr_loop p1) ?ev" "available p1 ?ev" using assms(5,7) w1(4,6) by auto
  obtain w2 p2 where w2: "world_path e w1 (Takes ?ev # map Acts [SaveState st]) w2" "w_proc w2 = Up p2" "pr_plan p2 = []"
    "pr_loop p2 = ls" "pr_flow p2 = Continue" "recorded (env_store e) (w_fs w2) = Some st"
    using take_and_perform [OF assms(1) w1(2,3,5) ready h] by auto
  have "usable_at (st_session (ls_state ls)) t" using ls assms(9,11) by (simp add: usable_at_def)
  then obtain plan ls' where tick: "on_tick (pr_loop p2) r = Some (EnableUsage # plan, ls')"
    using on_tick_managed [of ls r t g] ls(3-5) assms(10) w2(4) by auto
  obtain w3 p3 where w3: "world_step e w2 (Takes (TickAt r)) w3" "w_proc w3 = Up p3" "pr_plan p3 = EnableUsage # plan"
    "w_fs w3 = w_fs w2"
    using take_tick [OF w2(2,3,5) tick, of e] by blast
  let ?w = "w3\<lparr>w_proc := Up (perform EnableUsage (p3\<lparr>pr_plan := plan\<rparr>))\<rparr>"
  have "world_step e w3 (Acts EnableUsage) ?w" using w3 by (intro world_step.act) auto
  from world_path_trans [OF world_path_trans [OF world_path_front [OF w3(1) world_path_step [OF this]] w2(1)] w1(1)]
  show ?thesis using ls(2) w2(6) w3(4) by (intro exI [of _ st] exI [of _ ?w]) simp
qed

definition example_granted :: "(agent_state + string) world" where
  "example_granted = (example_world example_managed)\<lparr>w_proc := Up ((booted example_credentials example_loop [])
     \<lparr>pr_events := [SessionState (Some (example_session\<lparr>expires_at := secs 7200\<rparr>)) (secs 1800)]\<rparr>)\<rparr>"

theorem granted_session_releases_witness:
  "\<exists>st w'. world_path example_env example_granted
       [Takes (EventRecv (Some (SessionState (Some (example_session\<lparr>expires_at := secs 7200\<rparr>)) (secs 1800))) 1),
        Acts (SaveState st), Takes (TickAt \<lparr>os_now = secs 1900, mono_elapsed = 0, mono_anchor = 0\<rparr>), Acts EnableUsage] w'"
proof -
  let ?r = "\<lparr>os_now = secs 1900, mono_elapsed = 0, mono_anchor = 0\<rparr>"
  obtain p where p: "w_proc example_granted = Up p" "pr_flow p = Continue" "pr_plan p = []" "pr_loop p = example_loop"
      "pr_events p = [SessionState (Some (example_session\<lparr>expires_at := secs 7200\<rparr>)) (secs 1800)]"
    by (auto simp: example_granted_def booted_def)
  have l: "\<not> ls_decommissioned (pr_loop p)" "\<not> ls_events_closed (pr_loop p)" "ls_blocked (pr_loop p)"
    "st_last_applied_at (ls_state (pr_loop p)) < secs 1800"
    by (simp_all add: p example_loop_def secs_def)
  have g: "guard_now (resync_from_server (ls_clock (pr_loop p)) (secs 1800) 1) ?r = Some (secs 1900, \<lparr>high_water_mark = secs 1900, anchor = 0\<rparr>)"
    by (simp add: p example_loop_def guard_new_def guard_now_def resync_from_server_def secs_def)
  have "status (example_session\<lparr>expires_at := secs 7200\<rparr>) = Active" "secs 1900 < expires_at (example_session\<lparr>expires_at := secs 7200\<rparr>)"
    by (simp_all add: example_session_def secs_def)
  from granted_session_releases [OF example_codec(1) p(1,2) l(1-3) p(5) l(4) this(1) g this(2)]
  show ?thesis by (auto simp: p(3))
qed

end
