(* ===== verification/Host.thy ===== *)
theory Host imports Warning Client begin

text \<open>
  What the platform modules of \<open>agent/src/platform/\<close> share: running a program of the operating
  system, and the text functions of the standard library they use. The operating system is not part
  of the repository: it is a parameter \<open>exec\<close>, a function from a command and a state of its own to an
  answer and its next state, so nothing is assumed about it. The commands run are kept in a log.
\<close>

section \<open>Running programs\<close>

record command =
  program :: string
  args :: "string list"
  envs :: "(string \<times> string) list"

record cmd_output =
  exit_ok :: bool
  stdout :: string

text \<open>\<open>None\<close> is a program that could not be started.\<close>

type_synonym 'o exec = "command \<Rightarrow> 'o \<Rightarrow> cmd_output option \<times> 'o"

record 'o host =
  host_os :: 'o
  host_ran :: "command list"

definition run_command :: "'o exec \<Rightarrow> command \<Rightarrow> 'o host \<Rightarrow> cmd_output option \<times> 'o host" where
  "run_command exec c h =
     (case exec c (host_os h) of
        (out, os) \<Rightarrow> (out, h\<lparr>host_os := os, host_ran := host_ran h @ [c]\<rparr>))"

lemma run_command_log [simp]: "host_ran (snd (run_command exec c h)) = host_ran h @ [c]"
  by (simp add: run_command_def split: prod.splits)

lemma run_command_answer: "fst (run_command exec c h) = fst (exec c (host_os h))"
  by (simp add: run_command_def split: prod.splits)

section \<open>Text\<close>

text \<open>\<open>char::is_whitespace\<close> on the code points below 256.\<close>

definition is_whitespace :: "char \<Rightarrow> bool" where
  "is_whitespace c \<longleftrightarrow>
     (let n = (of_char c :: nat) in 9 \<le> n \<and> n \<le> 13 \<or> n = 32 \<or> n = 133 \<or> n = 160)"

definition trim :: "string \<Rightarrow> string" where
  "trim s = rev (dropWhile is_whitespace (rev (dropWhile is_whitespace s)))"

text \<open>\<open>split_whitespace().next()\<close>: the first word, if there is one.\<close>

definition first_word :: "string \<Rightarrow> string option" where
  "first_word s =
     (case takeWhile (\<lambda>c. \<not> is_whitespace c) (dropWhile is_whitespace s) of
        [] \<Rightarrow> None
      | w \<Rightarrow> Some w)"

text \<open>\<open>str::lines\<close>: split at newlines, a carriage return before one dropped, no empty last line.\<close>

definition newline :: char where "newline = CHR 0x0A"
definition carriage_return :: char where "carriage_return = CHR 0x0D"

definition chomp :: "string \<Rightarrow> string" where
  "chomp l = (if l \<noteq> [] \<and> last l = carriage_return then butlast l else l)"

text \<open>The carriage return is part of a line's end only, so the text after the last newline keeps its own.\<close>

function lines :: "string \<Rightarrow> string list" where
  "lines s =
     (if s = [] then []
      else let l = takeWhile (\<lambda>c. c \<noteq> newline) s; rest = dropWhile (\<lambda>c. c \<noteq> newline) s
           in case rest of [] \<Rightarrow> [l] | nl # tail \<Rightarrow> chomp l # lines tail)"
  by pat_completeness auto
termination
proof (relation "measure length", simp)
  fix s l rest nl tail
  assume "rest = dropWhile (\<lambda>c. c \<noteq> newline) s" and "rest = nl # tail"
  then have "length (nl # tail) \<le> length s" using length_dropWhile_le by metis
  then show "(tail, s) \<in> measure length" by simp
qed

declare lines.simps [simp del]

text \<open>\<open>str::parse::<u32>\<close>: an optional plus sign and decimal digits, \<open>None\<close> when there is no digit, another
  character or a value that does not fit.\<close>

definition digit_value :: "char \<Rightarrow> nat" where
  "digit_value c = of_char c - 48"

definition parse_digits :: "string \<Rightarrow> nat option" where
  "parse_digits s =
     (if s \<noteq> [] \<and> list_all is_digit s then Some (foldl (\<lambda>n c. 10 * n + digit_value c) 0 s) else None)"

definition parse_u32 :: "string \<Rightarrow> 32 word option" where
  "parse_u32 s =
     (case parse_digits (case s of CHR ''+'' # digits \<Rightarrow> digits | _ \<Rightarrow> s) of
        Some n \<Rightarrow> if n < 2 ^ 32 then Some (of_nat n) else None
      | None \<Rightarrow> None)"

definition show_u32 :: "32 word \<Rightarrow> string" where
  "show_u32 w = nat_digits (unat w)"

text \<open>\<open>str::replace\<close> of one character by a text.\<close>

definition replace_char :: "char \<Rightarrow> string \<Rightarrow> string \<Rightarrow> string" where
  "replace_char c r s = concat (map (\<lambda>x. if x = c then r else [x]) s)"

text \<open>\<open>str::replace\<close> of a (non-empty) pattern: from the left, without overlaps.\<close>

function replace_all :: "string \<Rightarrow> string \<Rightarrow> string \<Rightarrow> string" where
  "replace_all pat r s =
     (case s of
        [] \<Rightarrow> []
      | c # cs \<Rightarrow>
          (case strip_prefix pat s of
             Some rest \<Rightarrow> if pat = [] then s else r @ replace_all pat r rest
           | None \<Rightarrow> c # replace_all pat r cs))"
  by pat_completeness auto
termination
  by (relation "measure (\<lambda>(pat, r, s). length s)") (auto simp: strip_prefix_Some)

declare replace_all.simps [simp del]

text \<open>\<open>i64::clamp\<close>.\<close>

definition clamp :: "int \<Rightarrow> int \<Rightarrow> int \<Rightarrow> int" where
  "clamp lo hi n = (if n < lo then lo else if hi < n then hi else n)"

lemma clamp_bounds: "lo \<le> hi \<Longrightarrow> lo \<le> clamp lo hi n \<and> clamp lo hi n \<le> hi"
  by (simp add: clamp_def)

section \<open>Lemmas on numbers as text\<close>

lemma foldl_digits: "foldl (\<lambda>n c. 10 * n + digit_value c) 0 (nat_digits n) = n"
proof (induction n rule: nat_digits.induct)
  case (1 n)
  have d: "digit_value (char_of (48 + k)) = k" if "k < 10" for k :: nat
    using that by (simp add: digit_value_def)
  show ?case
  proof (cases "n < 10")
    case True
    then show ?thesis using d by (simp add: nat_digits_small)
  next
    case False
    then have "foldl (\<lambda>n c. 10 * n + digit_value c) 0 (nat_digits n) = 10 * (n div 10) + n mod 10"
      using 1 d by (simp add: nat_digits_big)
    then show ?thesis by simp
  qed
qed

lemma parse_digits_show: "parse_digits (nat_digits n) = Some n"
  using nat_digits_are_digits [of n] foldl_digits [of n] by (simp add: parse_digits_def)

lemma nat_digits_no_sign: "nat_digits n \<noteq> CHR ''+'' # ds"
  using nat_digits_are_digits [of n] by (auto simp: is_digit_def)

text \<open>A number printed and read back is the same number.\<close>

lemma parse_show_u32: "parse_u32 (show_u32 w) = Some w"
proof -
  have "(case nat_digits (unat w) of CHR ''+'' # digits \<Rightarrow> digits | _ \<Rightarrow> nat_digits (unat w)) = nat_digits (unat w)"
    using nat_digits_no_sign [of "unat w"] by (auto split: list.splits char.splits bool.splits)
  then show ?thesis
    using parse_digits_show [of "unat w"] unsigned_less [of w, where 'a = nat] by (simp add: parse_u32_def show_u32_def)
qed

lemma digit_not_space: "is_digit c \<Longrightarrow> \<not> is_whitespace c"
  by (simp add: is_digit_def is_whitespace_def Let_def)

lemma trim_digits:
  "list_all is_digit ds \<Longrightarrow> ds \<noteq> [] \<Longrightarrow> list_all is_whitespace ws \<Longrightarrow> trim (ds @ ws) = ds"
proof -
  assume ds: "list_all is_digit ds" "ds \<noteq> []" and ws: "list_all is_whitespace ws"
  have "\<not> is_whitespace (hd ds)" "\<not> is_whitespace (last ds)"
    using ds digit_not_space hd_in_set last_in_set by (auto simp: list_all_iff)
  moreover from this ds(2) have "dropWhile is_whitespace (ds @ ws) = ds @ ws" by (cases ds) auto
  moreover from calculation ds(2) have "dropWhile is_whitespace (rev ds) = rev ds"
    by (cases ds rule: rev_cases) auto
  moreover have "dropWhile is_whitespace (rev ws @ rev ds) = dropWhile is_whitespace (rev ds)"
    using ws by (intro dropWhile_append2) (auto simp: list_all_iff)
  ultimately show ?thesis by (simp add: trim_def)
qed

end
