(* ===== verification/Linux.thy ===== *)
theory Linux imports Host begin

text \<open>
  Enforcement and notifications on Linux, \<open>agent/src/platform/linux.rs\<close>: the commands run and what is
  made of their answers. The notifier's state is the host (the operating system behind \<open>exec\<close> and the
  log of commands) and the mutex with the id of the final warning on screen. Programs' outputs are
  taken as text, their bytes being code points below 256.
\<close>

section \<open>Enforcement\<close>

definition loginctl :: "string list \<Rightarrow> command" where
  "loginctl as = \<lparr>program = ''loginctl'', args = as, envs = []\<rparr>"

text \<open>Every outcome of the command is only logged.\<close>

definition linux_disable_usage :: "'o exec \<Rightarrow> 'o host \<Rightarrow> 'o host" where
  "linux_disable_usage exec h = snd (run_command exec (loginctl [''lock-sessions'']) h)"

definition linux_enable_usage :: "'o host \<Rightarrow> 'o host" where
  "linux_enable_usage h = h"

section \<open>The desktop session\<close>

record desktop_session =
  user :: string
  uid :: "32 word"

text \<open>The value of a property in the output of \<open>show-session\<close>: the first line \<open>key=value\<close>.\<close>

fun find_property :: "string \<Rightarrow> string list \<Rightarrow> string option" where
  "find_property key [] = None"
| "find_property key (l # ls) =
     (case Option.bind (strip_prefix key l) (strip_prefix ''='') of
        Some v \<Rightarrow> Some v
      | None \<Rightarrow> find_property key ls)"

definition get_property :: "string \<Rightarrow> string \<Rightarrow> string option" where
  "get_property properties key = find_property key (lines properties)"

definition show_session :: "string \<Rightarrow> command" where
  "show_session sid = loginctl
     [''show-session'', sid, ''-p'', ''Active'', ''-p'', ''Type'', ''-p'', ''Name'', ''-p'', ''User'']"

definition is_graphical :: "string \<Rightarrow> bool" where
  "is_graphical properties \<longleftrightarrow>
     get_property properties ''Type'' \<in> {Some ''x11'', Some ''wayland'', Some ''mir''}"

definition session_of :: "string \<Rightarrow> desktop_session option" where
  "session_of properties =
     (case get_property properties ''Name'' of
        None \<Rightarrow> None
      | Some n \<Rightarrow>
          (case Option.bind (get_property properties ''User'') parse_u32 of
             None \<Rightarrow> None
           | Some u \<Rightarrow> Some \<lparr>user = n, uid = u\<rparr>))"

fun search_sessions :: "'o exec \<Rightarrow> string list \<Rightarrow> 'o host \<Rightarrow> desktop_session option \<times> 'o host" where
  "search_sessions exec [] h = (None, h)"
| "search_sessions exec (sid # ids) h =
     (case run_command exec (show_session sid) h of
        (None, h) \<Rightarrow> (None, h)
      | (Some out, h) \<Rightarrow>
          if \<not> exit_ok out then search_sessions exec ids h
          else if get_property (stdout out) ''Active'' = Some ''yes'' \<and> is_graphical (stdout out)
               then (session_of (stdout out), h)
               else search_sessions exec ids h)"

definition active_desktop_session :: "'o exec \<Rightarrow> 'o host \<Rightarrow> desktop_session option \<times> 'o host" where
  "active_desktop_session exec h =
     (case run_command exec (loginctl [''list-sessions'', ''--no-legend'']) h of
        (None, h) \<Rightarrow> (None, h)
      | (Some listed, h) \<Rightarrow>
          if \<not> exit_ok listed then (None, h)
          else search_sessions exec (List.map_filter first_word (lines (stdout listed))) h)"

section \<open>Running as the desktop user\<close>

definition runuser :: "desktop_session \<Rightarrow> string \<Rightarrow> string list \<Rightarrow> command" where
  "runuser session prog as =
     \<lparr>program = ''runuser'', args = [''-u'', user session, ''--'', prog] @ as,
      envs = [(''DBUS_SESSION_BUS_ADDRESS'', ''unix:path=/run/user/'' @ show_u32 (uid session) @ ''/bus''),
              (''XDG_RUNTIME_DIR'', ''/run/user/'' @ show_u32 (uid session))]\<rparr>"

definition run_as_desktop_user ::
  "'o exec \<Rightarrow> desktop_session \<Rightarrow> string \<Rightarrow> string list \<Rightarrow> 'o host \<Rightarrow> string option \<times> 'o host" where
  "run_as_desktop_user exec session prog as h =
     (case run_command exec (runuser session prog as) h of
        (None, h) \<Rightarrow> (None, h)
      | (Some out, h) \<Rightarrow> (if exit_ok out then Some (stdout out) else None, h))"

definition notify_send_args :: "string list \<Rightarrow> string \<Rightarrow> string \<Rightarrow> string list" where
  "notify_send_args options ttl txt = [''--app-name'', APP_NAME] @ options @ [ttl, txt]"

definition notify_send ::
  "'o exec \<Rightarrow> string list \<Rightarrow> string \<Rightarrow> string \<Rightarrow> 'o host \<Rightarrow> 32 word option \<times> 'o host" where
  "notify_send exec options ttl txt h =
     (case active_desktop_session exec h of
        (None, h) \<Rightarrow> (None, h)
      | (Some session, h) \<Rightarrow>
          (case run_as_desktop_user exec session ''notify-send'' (notify_send_args options ttl txt) h of
             (None, h) \<Rightarrow> (None, h)
           | (Some output, h) \<Rightarrow> (parse_u32 (trim output), h)))"

section \<open>The notifier\<close>

record 'o linux_notifier =
  ln_host :: "'o host"
  ln_final :: "32 word option"

definition linux_notifier_new :: "'o host \<Rightarrow> 'o linux_notifier" where
  "linux_notifier_new h = \<lparr>ln_host = h, ln_final = None\<rparr>"

definition linux_notify :: "'o exec \<Rightarrow> notice \<Rightarrow> 'o linux_notifier \<Rightarrow> 'o linux_notifier" where
  "linux_notify exec n d =
     (let urg = (case urgency_of n of Normal \<Rightarrow> ''normal'' | Critical \<Rightarrow> ''critical'')
      in d\<lparr>ln_host := snd (notify_send exec [''--urgency'', urg, ''--expire-time'', ''15000'']
             (title n) (body n) (ln_host d))\<rparr>)"

definition close_args :: "32 word \<Rightarrow> string list" where
  "close_args nid =
     [''call'', ''--session'', ''--dest'', ''org.freedesktop.Notifications'', ''--object-path'',
      ''/org/freedesktop/Notifications'', ''--method'', ''org.freedesktop.Notifications.CloseNotification'',
      show_u32 nid]"

definition linux_dismiss_final_warning :: "'o exec \<Rightarrow> 'o linux_notifier \<Rightarrow> 'o linux_notifier" where
  "linux_dismiss_final_warning exec d =
     (case ln_final d of
        None \<Rightarrow> d
      | Some nid \<Rightarrow>
          (let d = d\<lparr>ln_final := None\<rparr>
           in case active_desktop_session exec (ln_host d) of
                (None, h) \<Rightarrow> d\<lparr>ln_host := h\<rparr>
              | (Some session, h) \<Rightarrow>
                  d\<lparr>ln_host := snd (run_as_desktop_user exec session ''gdbus'' (close_args nid) h)\<rparr>))"

definition final_options :: "int \<Rightarrow> string list" where
  "final_options remaining =
     (let expire_ms = show_int (clamp 1 600 remaining * 1000)
      in [''--urgency'', ''critical'', ''--expire-time'', expire_ms, ''--print-id''])"

definition final_text :: "int \<Rightarrow> string" where
  "final_text remaining = show_int (max remaining 0) @ '' seconds remaining. '' @ FINAL_WARNING_BODY"

definition linux_show_final_warning :: "'o exec \<Rightarrow> int \<Rightarrow> 'o linux_notifier \<Rightarrow> 'o linux_notifier" where
  "linux_show_final_warning exec remaining d =
     (let d = linux_dismiss_final_warning exec d
      in case notify_send exec (final_options remaining) FINAL_WARNING_HEADLINE (final_text remaining) (ln_host d) of
           (Some nid, h) \<Rightarrow> d\<lparr>ln_host := h, ln_final := Some nid\<rparr>
         | (None, h) \<Rightarrow> d\<lparr>ln_host := h\<rparr>)"

section \<open>Lemmas\<close>

lemmas linux_defs = linux_notify_def linux_dismiss_final_warning_def linux_show_final_warning_def Let_def

text \<open>Whatever the operating system answers, this is a notifier.\<close>

lemma linux_dismissed [simp]: "ln_final (linux_dismiss_final_warning exec d) = None"
  by (simp add: linux_defs split: option.splits prod.splits)

lemma linux_notify_final [simp]: "ln_final (linux_notify exec n d) = ln_final d"
  by (simp add: linux_defs)

interpretation linux: user_notifier "linux_notify exec" "linux_show_final_warning exec"
  "linux_dismiss_final_warning exec" "\<lambda>d. ln_final d \<noteq> None" "\<lambda>d. True" for exec :: "'o exec"
  by unfold_locales simp_all

subsection \<open>The commands that are run\<close>

text \<open>The commands of an operation are those it appends to the log.\<close>

definition appends :: "command set \<Rightarrow> 'o host \<Rightarrow> 'o host \<Rightarrow> bool" where
  "appends A h h' \<longleftrightarrow> (\<exists>cs. host_ran h' = host_ran h @ cs \<and> set cs \<subseteq> A)"

lemma appends_refl [simp]: "appends A h h"
  by (simp add: appends_def)

lemma appends_trans: "appends A h h1 \<Longrightarrow> appends A h1 h2 \<Longrightarrow> appends A h h2"
  by (auto simp: appends_def)

lemma appends_run: "run_command exec c h = (out, h') \<Longrightarrow> c \<in> A \<Longrightarrow> appends A h h'"
  using run_command_log [of exec c h] by (auto simp: appends_def)

text \<open>An answer of the operating system to a command, in some state of its own.\<close>

definition answered :: "'o exec \<Rightarrow> command \<Rightarrow> cmd_output \<Rightarrow> bool" where
  "answered exec c out \<longleftrightarrow> (\<exists>os. fst (exec c os) = Some out)"

lemma run_command_answered: "run_command exec c h = (Some out, h') \<Longrightarrow> answered exec c out"
  by (auto simp: run_command_def answered_def split: prod.splits intro!: exI [of _ "host_os h"])

text \<open>What logind must have said of a session for it to be chosen.\<close>

definition reported_active :: "'o exec \<Rightarrow> desktop_session \<Rightarrow> bool" where
  "reported_active exec session \<longleftrightarrow>
     (\<exists>sid out. answered exec (show_session sid) out \<and> exit_ok out
        \<and> get_property (stdout out) ''Active'' = Some ''yes'' \<and> is_graphical (stdout out)
        \<and> get_property (stdout out) ''Name'' = Some (user session)
        \<and> Option.bind (get_property (stdout out) ''User'') parse_u32 = Some (uid session))"

definition session_queries :: "command set" where
  "session_queries = insert (loginctl [''list-sessions'', ''--no-legend'']) (range show_session)"

lemma session_of_Some:
  "session_of p = Some session \<Longrightarrow>
     get_property p ''Name'' = Some (user session)
     \<and> Option.bind (get_property p ''User'') parse_u32 = Some (uid session)"
  by (auto simp: session_of_def split: option.splits)

lemma search_sessions_ok:
  assumes "search_sessions exec ids h = (res, h')"
  shows "appends session_queries h h' \<and> (\<forall>session. res = Some session \<longrightarrow> reported_active exec session)"
  using assms
proof (induction ids arbitrary: h)
  case (Cons sid ids)
  obtain out h1 where r: "run_command exec (show_session sid) h = (out, h1)" by fastforce
  then have a: "appends session_queries h h1" by (rule appends_run) (simp add: session_queries_def)
  show ?case
  proof (cases out)
    case None
    then show ?thesis using Cons.prems r a by simp
  next
    case (Some o1)
    then show ?thesis
      using Cons r a run_command_answered [of exec "show_session sid" h o1 h1] session_of_Some [of "stdout o1"]
      by (auto simp: reported_active_def intro: appends_trans split: if_splits)
  qed
qed simp

lemma active_desktop_session_ok:
  assumes "active_desktop_session exec h = (res, h')"
  shows "appends session_queries h h' \<and> (\<forall>session. res = Some session \<longrightarrow> reported_active exec session)"
proof -
  obtain out h1 where r: "run_command exec (loginctl [''list-sessions'', ''--no-legend'']) h = (out, h1)" by fastforce
  then have "appends session_queries h h1" by (rule appends_run) (simp add: session_queries_def)
  then show ?thesis
    using assms r search_sessions_ok [of exec _ h1 res h']
    by (auto simp: active_desktop_session_def intro: appends_trans split: option.splits if_splits)
qed

text \<open>What a warning shows, and the commands that may show or close it.\<close>

fun shown_texts :: "warning_effect \<Rightarrow> (string \<times> string) set" where
  "shown_texts (Notify n) = {(title n, body n)}"
| "shown_texts (ShowFinalWarning r) = {(FINAL_WARNING_HEADLINE, final_text r)}"
| "shown_texts DismissFinalWarning = {}"

definition warning_commands :: "'o exec \<Rightarrow> (string \<times> string) set \<Rightarrow> command set" where
  "warning_commands exec txts = session_queries
     \<union> {runuser session ''notify-send'' (notify_send_args options ttl txt) | session options ttl txt.
          reported_active exec session \<and> (ttl, txt) \<in> txts}
     \<union> {runuser session ''gdbus'' (close_args nid) | session nid. reported_active exec session}"

lemma appends_mono: "appends A h h' \<Longrightarrow> A \<subseteq> B \<Longrightarrow> appends B h h'"
  by (auto simp: appends_def)

lemma run_as_appends:
  assumes "run_as_desktop_user exec session prog as h = (res, h')" and "runuser session prog as \<in> A"
  shows "appends A h h'"
proof -
  obtain out h1 where r: "run_command exec (runuser session prog as) h = (out, h1)" by fastforce
  then have "h1 = h'" using assms(1) by (auto simp: run_as_desktop_user_def split: option.splits)
  then show ?thesis using appends_run [OF r assms(2)] by simp
qed

lemma session_queries_warning: "session_queries \<subseteq> warning_commands exec txts"
  by (auto simp: warning_commands_def)

lemma notify_send_appends:
  assumes "notify_send exec options ttl txt h = (res, h')" and "(ttl, txt) \<in> txts"
  shows "appends (warning_commands exec txts) h h'"
proof -
  obtain ses h1 where s: "active_desktop_session exec h = (ses, h1)" by fastforce
  note ok = active_desktop_session_ok [OF s]
  then have a: "appends (warning_commands exec txts) h h1" using appends_mono [OF _ session_queries_warning] by blast
  show ?thesis
  proof (cases ses)
    case None
    then show ?thesis using assms(1) s a by (simp add: notify_send_def)
  next
    case (Some session)
    obtain out h2 where r: "run_as_desktop_user exec session ''notify-send'' (notify_send_args options ttl txt) h1 = (out, h2)"
      by fastforce
    have "runuser session ''notify-send'' (notify_send_args options ttl txt) \<in> warning_commands exec txts"
      using ok Some assms(2) by (auto simp: warning_commands_def)
    from appends_trans [OF a run_as_appends [OF r this]]
    show ?thesis using assms(1) s r Some by (auto simp: notify_send_def split: option.splits)
  qed
qed

lemma dismiss_appends: "appends (warning_commands exec txts) (ln_host d) (ln_host (linux_dismiss_final_warning exec d))"
proof (cases "ln_final d")
  case None
  then show ?thesis by (simp add: linux_defs)
next
  case (Some nid)
  obtain ses h1 where s: "active_desktop_session exec (ln_host d) = (ses, h1)" by fastforce
  note ok = active_desktop_session_ok [OF s]
  then have a: "appends (warning_commands exec txts) (ln_host d) h1"
    using appends_mono [OF _ session_queries_warning] by blast
  show ?thesis
  proof (cases ses)
    case None
    then show ?thesis using s a Some by (simp add: linux_defs)
  next
    case (Some session)
    obtain out h2 where r: "run_as_desktop_user exec session ''gdbus'' (close_args nid) h1 = (out, h2)" by fastforce
    have "runuser session ''gdbus'' (close_args nid) \<in> warning_commands exec txts"
      using ok Some by (auto simp: warning_commands_def)
    from appends_trans [OF a run_as_appends [OF r this]]
    show ?thesis using s r Some \<open>ln_final d = Some nid\<close> by (simp add: linux_defs)
  qed
qed

abbreviation linux_apply :: "'o exec \<Rightarrow> warning_effect \<Rightarrow> 'o linux_notifier \<Rightarrow> 'o linux_notifier" where
  "linux_apply exec \<equiv> apply_effect (linux_notify exec) (linux_show_final_warning exec) (linux_dismiss_final_warning exec)"

lemma linux_apply_appends:
  "shown_texts e \<subseteq> txts \<Longrightarrow> appends (warning_commands exec txts) (ln_host d) (ln_host (linux_apply exec e d))"
proof (cases e)
  case (Notify n)
  assume "shown_texts e \<subseteq> txts"
  then show ?thesis using notify_send_appends [OF prod.collapse [symmetric], of "title n" "body n" txts exec] Notify
    by (simp add: linux_defs)
next
  case (ShowFinalWarning r)
  let ?d = "linux_dismiss_final_warning exec d"
  assume "shown_texts e \<subseteq> txts"
  obtain res h where n: "notify_send exec (final_options r) FINAL_WARNING_HEADLINE (final_text r) (ln_host ?d) = (res, h)"
    by fastforce
  have "appends (warning_commands exec txts) (ln_host ?d) h"
    using \<open>shown_texts e \<subseteq> txts\<close> ShowFinalWarning by (intro notify_send_appends [OF n]) simp
  from appends_trans [OF dismiss_appends this]
  show ?thesis using n ShowFinalWarning by (simp add: linux_show_final_warning_def Let_def split: option.splits)
next
  case DismissFinalWarning
  then show ?thesis using dismiss_appends by simp
qed

subsection \<open>The id of the final warning\<close>

lemma printed_id: "parse_u32 (trim (show_u32 nid @ [newline])) = Some nid"
proof -
  have "trim (show_u32 nid @ [newline]) = show_u32 nid"
    by (intro trim_digits) (simp_all add: show_u32_def nat_digits_are_digits is_whitespace_def newline_def)
  then show ?thesis by (simp add: parse_show_u32)
qed

section \<open>Properties\<close>

text \<open>The final warning that was put on screen is the one that is taken down: the id notify-send
  prints is remembered exactly (any number of 32 bits survives printing, trimming and parsing), and
  dismissing it asks the desktop to close that id, once, and forgets it.\<close>

theorem linux_closes_what_it_showed:
  assumes "active_desktop_session exec (ln_host (linux_dismiss_final_warning exec d)) = (Some session, h)"
    and "run_command exec (runuser session ''notify-send''
           (notify_send_args (final_options r) FINAL_WARNING_HEADLINE (final_text r))) h
         = (Some \<lparr>exit_ok = True, stdout = show_u32 nid @ [newline]\<rparr>, h1)"
    and "active_desktop_session exec h1 = (Some session', h2)"
  shows "ln_final (linux_show_final_warning exec r d) = Some nid
     \<and> last (host_ran (ln_host (linux_dismiss_final_warning exec (linux_show_final_warning exec r d))))
         = runuser session' ''gdbus'' (close_args nid)
     \<and> ln_final (linux_dismiss_final_warning exec (linux_show_final_warning exec r d)) = None"
proof -
  have shown: "linux_show_final_warning exec r d = (linux_dismiss_final_warning exec d)\<lparr>ln_host := h1, ln_final := Some nid\<rparr>"
    using assms(1,2) by (simp add: linux_show_final_warning_def notify_send_def run_as_desktop_user_def printed_id Let_def)
  obtain out h3 where g: "run_command exec (runuser session' ''gdbus'' (close_args nid)) h2 = (out, h3)" by fastforce
  then have "last (host_ran h3) = runuser session' ''gdbus'' (close_args nid)"
    using run_command_log [of exec "runuser session' ''gdbus'' (close_args nid)" h2] by simp
  then show ?thesis
    using shown assms(3) g by (simp add: linux_defs(2) run_as_desktop_user_def Let_def split: option.splits)
qed

text \<open>A host that has one active Wayland session and prints the id 42.\<close>

definition example_exec :: "unit exec" where
  "example_exec c os =
     (Some \<lparr>exit_ok = True, stdout =
        (if program c = ''runuser'' then ''42'' @ [newline]
         else if args c = [''list-sessions'', ''--no-legend''] then ''2 1000 ada seat0 tty2''
         else ''Active=yes'' @ [newline] @ ''Type=wayland'' @ [newline] @ ''Name=ada'' @ [newline] @ ''User=1000'')\<rparr>, os)"

definition example_host :: "unit host" where
  "example_host = \<lparr>host_os = (), host_ran = []\<rparr>"

lemma example_listing:
  "List.map_filter first_word (lines ''2 1000 ada seat0 tty2'') = [''2'']"
  by code_simp

lemma example_properties:
  "lines (''Active=yes'' @ [newline] @ ''Type=wayland'' @ [newline] @ ''Name=ada'' @ [newline] @ ''User=1000'')
     = [''Active=yes'', ''Type=wayland'', ''Name=ada'', ''User=1000'']"
  by code_simp

lemma example_uid: "parse_u32 ''1000'' = Some 1000"
  by (simp add: parse_u32_def parse_digits_def digit_value_def is_digit_def)

lemma example_session:
  "\<exists>h'. active_desktop_session example_exec h = (Some \<lparr>user = ''ada'', uid = 1000\<rparr>, h')"
  using example_properties
  by (simp add: active_desktop_session_def run_command_def example_exec_def loginctl_def show_session_def
      example_listing example_uid get_property_def is_graphical_def session_of_def)

lemma example_id: "''42'' @ [newline] = show_u32 42 @ [newline]"
proof -
  have "nat_digits 42 = ''42''" by code_simp
  then show ?thesis by (simp add: show_u32_def)
qed

theorem linux_closes_what_it_showed_witness:
  "ln_final (linux_show_final_warning example_exec 30 (linux_notifier_new example_host)) = Some 42"
proof -
  let ?s = "\<lparr>user = ''ada'', uid = 1000\<rparr>"
  let ?c = "runuser ?s ''notify-send'' (notify_send_args (final_options 30) FINAL_WARNING_HEADLINE (final_text 30))"
  obtain h where h: "active_desktop_session example_exec (ln_host (linux_dismiss_final_warning example_exec
      (linux_notifier_new example_host))) = (Some ?s, h)"
    using example_session by blast
  have "fst (example_exec ?c (host_os h)) = Some \<lparr>exit_ok = True, stdout = show_u32 42 @ [newline]\<rparr>"
    by (simp add: example_exec_def runuser_def flip: example_id)
  then obtain h1 where h1: "run_command example_exec ?c h = (Some \<lparr>exit_ok = True, stdout = show_u32 42 @ [newline]\<rparr>, h1)"
    using run_command_answer [of example_exec ?c h] by (metis prod.collapse)
  obtain h2 where "active_desktop_session example_exec h1 = (Some ?s, h2)" using example_session by blast
  with h h1 linux_closes_what_it_showed show ?thesis by blast
qed

end
