(* ===== verification/Macos.thy ===== *)
theory Macos imports Host begin

text \<open>
  Enforcement and notifications on macOS, \<open>agent/src/platform/macos.rs\<close>: the scripts, the quoting of
  AppleScript literals, and the child processes, each of which must be waited for. The operating
  system is the record \<open>mac_os\<close>, a parameter: the owner of the console, starting a program, killing
  and waiting for a child, each depending on (and changing) a state of its own. The calls are logged.
\<close>

section \<open>The operating system and the notifier's state\<close>

type_synonym child = nat

record 'o mac_os =
  console_owner :: "'o \<Rightarrow> 32 word option \<times> 'o"
  start :: "command \<Rightarrow> 'o \<Rightarrow> child option \<times> 'o"
  kill :: "child \<Rightarrow> 'o \<Rightarrow> 'o"
  wait_for :: "child \<Rightarrow> 'o \<Rightarrow> 'o"

datatype mac_call = Started command child | NotStarted command | Killed child | Waited child

record 'o mac_notifier =
  mc_os :: 'o
  mc_log :: "mac_call list"
  mc_final :: "child option"

definition mac_notifier_new :: "'o \<Rightarrow> 'o mac_notifier" where
  "mac_notifier_new st = \<lparr>mc_os = st, mc_log = [], mc_final = None\<rparr>"

section \<open>Enforcement\<close>

definition LOCK_SCRIPT :: string where
  "LOCK_SCRIPT = ''tell application '' @ [CHR 0x22] @ ''System Events'' @ [CHR 0x22] @ '' to keystroke ''
     @ [CHR 0x22] @ ''q'' @ [CHR 0x22] @ '' using {control down, command down}''"

definition mac_disable_usage :: "'o exec \<Rightarrow> 'o host \<Rightarrow> 'o host" where
  "mac_disable_usage exec h =
     snd (run_command exec \<lparr>program = ''osascript'', args = [''-e'', LOCK_SCRIPT], envs = []\<rparr> h)"

definition mac_enable_usage :: "'o host \<Rightarrow> 'o host" where
  "mac_enable_usage h = h"

section \<open>Scripts\<close>

definition backslash :: char where "backslash = CHR 0x5C"
definition dquote :: char where "dquote = CHR 0x22"

lemma special_chars [simp]:
  "backslash \<noteq> dquote" "dquote \<noteq> backslash" "newline \<noteq> backslash" "newline \<noteq> dquote"
  "CHR ''n'' \<noteq> backslash" "CHR ''n'' \<noteq> dquote" "CHR ''n'' \<noteq> newline"
  "backslash \<noteq> newline" "dquote \<noteq> newline" "backslash \<noteq> CHR ''n''" "dquote \<noteq> CHR ''n''"
  by (simp_all add: backslash_def dquote_def newline_def)

definition applescript_string :: "string \<Rightarrow> string" where
  "applescript_string value =
     [dquote]
     @ replace_char newline [backslash, CHR ''n'']
         (replace_char dquote [backslash, dquote]
            (replace_char backslash [backslash, backslash] value))
     @ [dquote]"

definition notify_script :: "notice \<Rightarrow> string" where
  "notify_script n =
     ''display notification '' @ applescript_string (body n) @ '' with title '' @ applescript_string (title n)
     @ '' subtitle '' @ applescript_string APP_NAME"

definition alert_script :: "int \<Rightarrow> string" where
  "alert_script seconds =
     ''display alert '' @ applescript_string FINAL_WARNING_HEADLINE @ '' message ''
     @ applescript_string (show_int seconds @ '' seconds remaining.'' @ [newline, newline] @ FINAL_WARNING_BODY)
     @ '' as critical buttons {'' @ [dquote] @ ''Dismiss'' @ [dquote] @ ''} default button ''
     @ [dquote] @ ''Dismiss'' @ [dquote] @ '' giving up after '' @ show_int seconds"

section \<open>Running them\<close>

definition console_user_uid :: "'o mac_os \<Rightarrow> 'o \<Rightarrow> 32 word option \<times> 'o" where
  "console_user_uid os st =
     (case console_owner os st of
        (Some u, st) \<Rightarrow> (if u \<noteq> 0 then Some u else None, st)
      | (None, st) \<Rightarrow> (None, st))"

definition osascript :: "32 word \<Rightarrow> string \<Rightarrow> command" where
  "osascript u script =
     \<lparr>program = ''launchctl'', args = [''asuser'', show_u32 u, ''/usr/bin/osascript'', ''-e'', script], envs = []\<rparr>"

definition spawn_osascript :: "'o mac_os \<Rightarrow> string \<Rightarrow> 'o mac_notifier \<Rightarrow> child option \<times> 'o mac_notifier" where
  "spawn_osascript os script d =
     (case console_user_uid os (mc_os d) of
        (None, st) \<Rightarrow> (None, d\<lparr>mc_os := st\<rparr>)
      | (Some u, st) \<Rightarrow>
          (case start os (osascript u script) st of
             (Some c, st) \<Rightarrow> (Some c, d\<lparr>mc_os := st, mc_log := mc_log d @ [Started (osascript u script) c]\<rparr>)
           | (None, st) \<Rightarrow> (None, d\<lparr>mc_os := st, mc_log := mc_log d @ [NotStarted (osascript u script)]\<rparr>)))"

definition mac_wait :: "'o mac_os \<Rightarrow> child \<Rightarrow> 'o mac_notifier \<Rightarrow> 'o mac_notifier" where
  "mac_wait os c d = d\<lparr>mc_os := wait_for os c (mc_os d), mc_log := mc_log d @ [Waited c]\<rparr>"

definition mac_kill :: "'o mac_os \<Rightarrow> child \<Rightarrow> 'o mac_notifier \<Rightarrow> 'o mac_notifier" where
  "mac_kill os c d = d\<lparr>mc_os := kill os c (mc_os d), mc_log := mc_log d @ [Killed c]\<rparr>"

definition mac_notify :: "'o mac_os \<Rightarrow> notice \<Rightarrow> 'o mac_notifier \<Rightarrow> 'o mac_notifier" where
  "mac_notify os n d =
     (case spawn_osascript os (notify_script n) d of
        (Some c, d) \<Rightarrow> mac_wait os c d
      | (None, d) \<Rightarrow> d)"

definition mac_dismiss_final_warning :: "'o mac_os \<Rightarrow> 'o mac_notifier \<Rightarrow> 'o mac_notifier" where
  "mac_dismiss_final_warning os d =
     (case mc_final d of
        None \<Rightarrow> d
      | Some c \<Rightarrow> mac_wait os c (mac_kill os c (d\<lparr>mc_final := None\<rparr>)))"

definition mac_show_final_warning :: "'o mac_os \<Rightarrow> int \<Rightarrow> 'o mac_notifier \<Rightarrow> 'o mac_notifier" where
  "mac_show_final_warning os remaining d =
     (let d = mac_dismiss_final_warning os d; seconds = clamp 1 600 remaining
      in case spawn_osascript os (alert_script seconds) d of
           (Some c, d) \<Rightarrow> d\<lparr>mc_final := Some c\<rparr>
         | (None, d) \<Rightarrow> d)"

text \<open>The warnings thread on macOS, over the effects it receives.\<close>

definition mac_warnings :: "'o mac_os \<Rightarrow> warning_effect list \<Rightarrow> 'o \<Rightarrow> 'o mac_notifier" where
  "mac_warnings os es st =
     warnings_thread (mac_notify os) (mac_show_final_warning os) (mac_dismiss_final_warning os) es (mac_notifier_new st)"

section \<open>Lemmas\<close>

subsection \<open>Literals\<close>

text \<open>How AppleScript reads a string literal: a quote, then characters up to the next quote, a backslash
  taking the next character with it (\<open>\n\<close> for a newline). The value and what follows the literal.\<close>

fun read_chars :: "string \<Rightarrow> (string \<times> string) option" where
  "read_chars [] = None"
| "read_chars (c # cs) =
     (if c = dquote then Some ([], cs)
      else if c = backslash
           then (case cs of
                   [] \<Rightarrow> None
                 | e # cs \<Rightarrow> map_option (\<lambda>(v, r). ((if e = CHR ''n'' then newline else e) # v, r)) (read_chars cs))
           else map_option (\<lambda>(v, r). (c # v, r)) (read_chars cs))"

fun read_literal :: "string \<Rightarrow> (string \<times> string) option" where
  "read_literal [] = None"
| "read_literal (c # cs) = (if c = dquote then read_chars cs else None)"

text \<open>The three replacements as one, character by character.\<close>

definition escaped :: "char \<Rightarrow> string" where
  "escaped c =
     (if c = backslash then [backslash, backslash]
      else if c = dquote then [backslash, dquote]
      else if c = newline then [backslash, CHR ''n''] else [c])"

lemma replace_char_simps [simp]:
  "replace_char c r [] = []"
  "replace_char c r (x # xs) = (if x = c then r else [x]) @ replace_char c r xs"
  "replace_char c r (xs @ ys) = replace_char c r xs @ replace_char c r ys"
  by (simp_all add: replace_char_def)

lemma applescript_string_escaped: "applescript_string v = [dquote] @ concat (map escaped v) @ [dquote]"
  by (induction v) (auto simp: applescript_string_def escaped_def)

lemma read_chars_escaped: "read_chars (concat (map escaped v) @ [dquote] @ rest) = Some (v, rest)"
  by (induction v) (auto simp: escaped_def)

subsection \<open>Children\<close>

fun started :: "mac_call list \<Rightarrow> child multiset" where
  "started [] = {#}"
| "started (Started c i # log) = add_mset i (started log)"
| "started (_ # log) = started log"

fun waited :: "mac_call list \<Rightarrow> child multiset" where
  "waited [] = {#}"
| "waited (Waited i # log) = add_mset i (waited log)"
| "waited (_ # log) = waited log"

lemma started_append [simp]: "started (xs @ ys) = started xs + started ys"
  by (induction xs rule: started.induct) auto

lemma waited_append [simp]: "waited (xs @ ys) = waited xs + waited ys"
  by (induction xs rule: waited.induct) auto

definition held_child :: "child option \<Rightarrow> child multiset" where
  "held_child c = (case c of None \<Rightarrow> {#} | Some i \<Rightarrow> {#i#})"

lemma held_child_simps [simp]: "held_child None = {#}" "held_child (Some i) = {#i#}"
  by (simp_all add: held_child_def)

fun as_user :: "mac_call \<Rightarrow> bool" where
  "as_user (Started c i) = (\<exists>u script. u \<noteq> 0 \<and> c = osascript u script)"
| "as_user call = True"

text \<open>Every child started was waited for, except the final warning's while it is up; and every program
  was started in the session of a user other than root.\<close>

definition children_ok :: "'o mac_notifier \<Rightarrow> bool" where
  "children_ok d \<longleftrightarrow> started (mc_log d) = waited (mc_log d) + held_child (mc_final d)
     \<and> list_all as_user (mc_log d)"

lemma as_user_osascript [simp]: "u \<noteq> 0 \<Longrightarrow> as_user (Started (osascript u script) i)"
  by auto

declare as_user.simps(1) [simp del]

lemma spawn_osascript_ok:
  assumes "spawn_osascript os script d = (res, d')"
  shows "mc_final d' = mc_final d \<and> started (mc_log d') = started (mc_log d) + held_child res
     \<and> waited (mc_log d') = waited (mc_log d) \<and> (list_all as_user (mc_log d) \<longrightarrow> list_all as_user (mc_log d'))"
  using assms
  by (auto simp: spawn_osascript_def console_user_uid_def split: prod.splits option.splits if_splits)

lemma mac_dismissed [simp]: "mc_final (mac_dismiss_final_warning os d) = None"
  by (simp add: mac_dismiss_final_warning_def mac_wait_def mac_kill_def split: option.splits)

lemma mac_dismiss_ok: "children_ok d \<Longrightarrow> children_ok (mac_dismiss_final_warning os d)"
  by (auto simp: children_ok_def mac_dismiss_final_warning_def mac_wait_def mac_kill_def split: option.splits)

lemma mac_notify_ok: "mc_final (mac_notify os n d) = mc_final d \<and> (children_ok d \<longrightarrow> children_ok (mac_notify os n d))"
proof -
  obtain res d' where s: "spawn_osascript os (notify_script n) d = (res, d')" by fastforce
  show ?thesis using s spawn_osascript_ok [OF s]
    by (cases res) (auto simp: mac_notify_def mac_wait_def children_ok_def)
qed

lemma mac_show_ok:
  assumes "children_ok d"
  shows "children_ok (mac_show_final_warning os remaining d)"
proof -
  let ?d = "mac_dismiss_final_warning os d"
  obtain res d' where s: "spawn_osascript os (alert_script (clamp 1 600 remaining)) ?d = (res, d')" by fastforce
  have "children_ok ?d" by (rule mac_dismiss_ok [OF assms])
  then show ?thesis using s spawn_osascript_ok [OF s]
    by (cases res) (auto simp: mac_show_final_warning_def children_ok_def)
qed

interpretation macos: user_notifier "mac_notify os" "mac_show_final_warning os" "mac_dismiss_final_warning os"
  "\<lambda>d. mc_final d \<noteq> None" children_ok for os :: "'o mac_os"
  using mac_notify_ok [of os] mac_dismiss_ok [of _ os] mac_show_ok [of _ os] by unfold_locales simp_all

section \<open>Properties\<close>

text \<open>A text handed to a script can never become script: AppleScript reads the literal that is built
  for a text, whatever quotes, backslashes and newlines it contains, as exactly that text, and what
  follows the literal is what the agent put there.\<close>

theorem applescript_literal_roundtrip:
  "read_literal (applescript_string s @ rest) = Some (s, rest)"
  using read_chars_escaped [of s rest] by (simp add: applescript_string_escaped)

text \<open>On macOS no process and no alert is left behind: over any sequence of warnings, and whatever
  the operating system answers, the warnings thread ends with every child it started waited for
  exactly once and no final warning up, and everything it started ran as a user other than root.\<close>

theorem macos_leaves_no_child:
  "let d = mac_warnings os es st in started (mc_log d) = waited (mc_log d)
     \<and> mc_final d = None \<and> list_all as_user (mc_log d)"
proof -
  have new: "children_ok (mac_notifier_new st)" by (simp add: children_ok_def mac_notifier_new_def)
  have "mc_final (mac_warnings os es st) = None" unfolding mac_warnings_def using macos.thread_leaves_nothing [OF new] by blast
  moreover have "children_ok (mac_warnings os es st)"
    unfolding mac_warnings_def warnings_thread_def by (rule macos.dismiss_inv [OF macos.fold_inv [OF new]])
  ultimately show ?thesis by (simp add: children_ok_def)
qed

end
