(* ===== verification/Windows.thy ===== *)
theory Windows imports Host begin

text \<open>
  Enforcement and notifications on Windows, \<open>agent/src/platform/windows.rs\<close>: the encodings of the
  PowerShell scripts (UTF-16LE, a hand-written base64, single-quoted literals, the placeholders of
  the two templates), and the Win32 calls with the handles they open and close. The Win32 API is the
  record \<open>win_api\<close>, a parameter: each call answers, and changes, a state of its own; handles opened
  and closed are logged. Texts have code points below 256, each one UTF-16 unit.
\<close>

section \<open>Encodings\<close>

unbundle bit_operations_syntax

definition encode_utf16 :: "string \<Rightarrow> 16 word list" where
  "encode_utf16 s = map (\<lambda>c. of_nat (of_char c)) s"

definition wide_null :: "string \<Rightarrow> 16 word list" where
  "wide_null s = encode_utf16 s @ [0]"

definition to_le_bytes :: "16 word \<Rightarrow> 8 word list" where
  "to_le_bytes u = [ucast u, ucast (drop_bit 8 u)]"

definition utf16le :: "string \<Rightarrow> 8 word list" where
  "utf16le s = concat (map to_le_bytes (encode_utf16 s))"

definition ALPHABET :: string where
  "ALPHABET = ''ABCDEFGHIJKLMNOPQRSTUVWXYZabcdefghijklmnopqrstuvwxyz0123456789+/''"

definition block_of :: "8 word \<Rightarrow> 8 word \<Rightarrow> 8 word \<Rightarrow> 32 word" where
  "block_of a b c = push_bit 16 (ucast a) OR push_bit 8 (ucast b) OR ucast c"

definition sextet :: "32 word \<Rightarrow> nat \<Rightarrow> char" where
  "sextet block shift = ALPHABET ! unat (drop_bit shift block AND 0x3f)"

text \<open>The chunks of three bytes; a missing byte counts as zero in the block and as padding in the text.\<close>

fun base64 :: "8 word list \<Rightarrow> string" where
  "base64 [] = []"
| "base64 [a] = (let block = block_of a 0 0 in [sextet block 18, sextet block 12, CHR ''='', CHR ''=''])"
| "base64 [a, b] =
     (let block = block_of a b 0 in [sextet block 18, sextet block 12, sextet block 6, CHR ''=''])"
| "base64 (a # b # c # rest) =
     (let block = block_of a b c
      in [sextet block 18, sextet block 12, sextet block 6, sextet block 0] @ base64 rest)"

section \<open>Scripts\<close>

text \<open>The two templates, cut at their placeholders.\<close>

definition quote :: char where "quote = CHR 0x27"

definition balloon_1 :: string where
  "balloon_1 =
     [newline] @ ''$ErrorActionPreference = '' @ [quote] @ ''Stop'' @ [quote]
     @ [newline] @ ''Add-Type -AssemblyName System.Windows.Forms''
     @ [newline] @ ''Add-Type -AssemblyName System.Drawing''
     @ [newline] @ ''$tray = New-Object System.Windows.Forms.NotifyIcon''
     @ [newline] @ ''$tray.Icon = [System.Drawing.SystemIcons]::Information''
     @ [newline] @ ''$tray.BalloonTipIcon = [System.Windows.Forms.ToolTipIcon]::''"

definition balloon_2 :: string where
  "balloon_2 =
     [newline] @ ''$tray.BalloonTipTitle = ''"

definition balloon_3 :: string where
  "balloon_3 =
     [newline] @ ''$tray.BalloonTipText = ''"

definition balloon_4 :: string where
  "balloon_4 =
     [newline] @ ''$tray.Visible = $true''
     @ [newline] @ ''$tray.ShowBalloonTip(15000)''
     @ [newline] @ ''Start-Sleep -Seconds 12''
     @ [newline] @ ''$tray.Visible = $false''
     @ [newline] @ ''$tray.Dispose()''
     @ [newline]"

definition BALLOON_SCRIPT :: string where
  "BALLOON_SCRIPT = balloon_1 @ ''%%ICON%%'' @ balloon_2 @ ''%%TITLE%%'' @ balloon_3 @ ''%%BODY%%'' @ balloon_4"

definition countdown_1 :: string where
  "countdown_1 =
     [newline] @ ''$ErrorActionPreference = '' @ [quote] @ ''Stop'' @ [quote]
     @ [newline] @ ''Add-Type -AssemblyName System.Windows.Forms''
     @ [newline] @ ''Add-Type -AssemblyName System.Drawing''
     @ [newline] @ ''$total = ''"

definition countdown_2 :: string where
  "countdown_2 =
     [newline] @ ''$elapsed = [System.Diagnostics.Stopwatch]::StartNew()''
     @ [newline]
     @ [newline] @ ''$form = New-Object System.Windows.Forms.Form''
     @ [newline] @ ''$form.FormBorderStyle = '' @ [quote] @ ''None'' @ [quote]
     @ [newline] @ ''$form.StartPosition = '' @ [quote] @ ''CenterScreen'' @ [quote]
     @ [newline] @ ''$form.Size = New-Object System.Drawing.Size(520, 300)''
     @ [newline] @ ''$form.BackColor = [System.Drawing.Color]::FromArgb(15, 16, 19)''
     @ [newline] @ ''$form.TopMost = $true''
     @ [newline] @ ''$form.ShowInTaskbar = $false''
     @ [newline]
     @ [newline] @ ''function New-Line($text, $size, $style, $color, $top, $height) {''
     @ [newline] @ ''  $label = New-Object System.Windows.Forms.Label''
     @ [newline] @ ''  $label.Text = $text''
     @ [newline] @ ''  $label.Font = New-Object System.Drawing.Font('' @ [quote] @ ''Segoe UI'' @ [quote] @ '', $size, $style)''
     @ [newline] @ ''  $label.ForeColor = $color''
     @ [newline] @ ''  $label.AutoSize = $false''
     @ [newline] @ ''  $label.TextAlign = '' @ [quote] @ ''MiddleCenter'' @ [quote]
     @ [newline] @ ''  $label.SetBounds(24, $top, 472, $height)''
     @ [newline] @ ''  return $label''
     @ [newline] @ ''}''
     @ [newline]
     @ [newline] @ ''$bold = [System.Drawing.FontStyle]::Bold''
     @ [newline] @ ''$brand = New-Line ''"

definition countdown_3 :: string where
  "countdown_3 =
     '' 10 $bold ([System.Drawing.Color]::FromArgb(132, 138, 150)) 30 22''
     @ [newline] @ ''$clock = New-Line '' @ [quote] @ [quote] @ '' 48 $bold ([System.Drawing.Color]::FromArgb(245, 246, 248)) 58 84''
     @ [newline] @ ''$headline = New-Line ''"

definition countdown_4 :: string where
  "countdown_4 =
     '' 12 $bold ([System.Drawing.Color]::FromArgb(232, 178, 92)) 148 24''
     @ [newline] @ ''$body = New-Line ''"

definition countdown_5 :: string where
  "countdown_5 =
     '' 10 ([System.Drawing.FontStyle]::Regular) ([System.Drawing.Color]::FromArgb(168, 174, 186)) 176 48''
     @ [newline] @ ''foreach ($line in $brand, $clock, $headline, $body) { $form.Controls.Add($line) }''
     @ [newline]
     @ [newline] @ ''$dismiss = New-Object System.Windows.Forms.Button''
     @ [newline] @ ''$dismiss.Text = '' @ [quote] @ ''Dismiss'' @ [quote]
     @ [newline] @ ''$dismiss.FlatStyle = '' @ [quote] @ ''Flat'' @ [quote]
     @ [newline] @ ''$dismiss.FlatAppearance.BorderSize = 0''
     @ [newline] @ ''$dismiss.BackColor = [System.Drawing.Color]::FromArgb(32, 34, 40)''
     @ [newline] @ ''$dismiss.ForeColor = [System.Drawing.Color]::FromArgb(226, 229, 234)''
     @ [newline] @ ''$dismiss.SetBounds(200, 236, 120, 34)''
     @ [newline] @ ''$dismiss.Add_Click({ $form.Close() })''
     @ [newline] @ ''$form.Controls.Add($dismiss)''
     @ [newline]
     @ [newline] @ ''$render = {''
     @ [newline] @ ''  $left = $total - [int][System.Math]::Floor($elapsed.Elapsed.TotalSeconds)''
     @ [newline] @ ''  if ($left -le 0) { $form.Close() }''
     @ [newline] @ ''  else { $clock.Text = '' @ [quote] @ ''{0:00}:{1:00}'' @ [quote] @ '' -f [System.Math]::Floor($left / 60), ($left % 60) }''
     @ [newline] @ ''}''
     @ [newline] @ ''& $render''
     @ [newline]
     @ [newline] @ ''$timer = New-Object System.Windows.Forms.Timer''
     @ [newline] @ ''$timer.Interval = 250''
     @ [newline] @ ''$timer.Add_Tick($render)''
     @ [newline] @ ''$timer.Start()''
     @ [newline] @ ''[void]$form.ShowDialog()''
     @ [newline] @ ''$timer.Stop()''
     @ [newline]"

definition FINAL_WARNING_SCRIPT :: string where
  "FINAL_WARNING_SCRIPT =
     countdown_1 @ ''%%SECONDS%%'' @ countdown_2 @ ''%%BRAND%%'' @ countdown_3 @ ''%%HEADLINE%%'' @ countdown_4 @ ''%%BODY%%'' @ countdown_5"


definition powershell_string :: "string \<Rightarrow> string" where
  "powershell_string s = [quote] @ replace_char quote [quote, quote] s @ [quote]"

definition balloon_script :: "notice \<Rightarrow> string" where
  "balloon_script n =
     replace_all ''%%ICON%%'' (case urgency_of n of Normal \<Rightarrow> ''Info'' | Critical \<Rightarrow> ''Warning'')
       (replace_all ''%%BODY%%'' (powershell_string (body n))
         (replace_all ''%%TITLE%%'' (powershell_string (title n)) BALLOON_SCRIPT))"

definition countdown_script :: "int \<Rightarrow> string" where
  "countdown_script remaining =
     replace_all ''%%BODY%%'' (powershell_string FINAL_WARNING_BODY)
       (replace_all ''%%HEADLINE%%'' (powershell_string FINAL_WARNING_HEADLINE)
         (replace_all ''%%BRAND%%'' (powershell_string APP_NAME)
           (replace_all ''%%SECONDS%%'' (show_int (clamp 1 600 remaining)) FINAL_WARNING_SCRIPT)))"

text \<open>Paths are written with \<open>bslash\<close> for a backslash.\<close>

abbreviation bslash :: string where "bslash \<equiv> [CHR 0x5C]"

definition LOCK_COMMAND_LINE :: string where
  "LOCK_COMMAND_LINE = ''C:'' @ bslash @ ''Windows'' @ bslash @ ''System32'' @ bslash @ ''rundll32.exe user32.dll,LockWorkStation''"

definition POWERSHELL :: string where
  "POWERSHELL = ''C:'' @ bslash @ ''Windows'' @ bslash @ ''System32'' @ bslash @ ''WindowsPowerShell'' @ bslash @ ''v1.0'' @ bslash @ ''powershell.exe''"

definition encoded_command :: "string \<Rightarrow> string" where
  "encoded_command script =
     POWERSHELL @ '' -NoProfile -NonInteractive -WindowStyle Hidden -EncodedCommand '' @ base64 (utf16le script)"

section \<open>Win32 calls and handles\<close>

type_synonym win32_handle = nat

datatype win_error = WinError

record 'o win_api =
  active_console :: "'o \<Rightarrow> 32 word \<times> 'o"
  open_process_token :: "'o \<Rightarrow> win32_handle option \<times> 'o"
  lookup_privilege :: "'o \<Rightarrow> bool \<times> 'o"
  adjust_privileges :: "win32_handle \<Rightarrow> 'o \<Rightarrow> bool \<times> 'o"
  query_user_token :: "32 word \<Rightarrow> 'o \<Rightarrow> win32_handle option \<times> 'o"
  create_process :: "win32_handle \<Rightarrow> 16 word list \<Rightarrow> 16 word list \<Rightarrow> 'o \<Rightarrow> (win32_handle \<times> win32_handle) option \<times> 'o"
  terminate_process :: "win32_handle \<Rightarrow> 'o \<Rightarrow> 'o"
  close_handle :: "win32_handle \<Rightarrow> 'o \<Rightarrow> 'o"

datatype win_call =
    Opened win32_handle
  | Closed win32_handle
  | Terminated win32_handle
  | Launched string
  | LookupFailed win32_handle

record 'o win =
  wn_os :: 'o
  wn_log :: "win_call list"

definition ask :: "('o \<Rightarrow> 'a \<times> 'o) \<Rightarrow> 'o win \<Rightarrow> 'a \<times> 'o win" where
  "ask f w = (case f (wn_os w) of (a, st) \<Rightarrow> (a, w\<lparr>wn_os := st\<rparr>))"

definition logged :: "win_call \<Rightarrow> 'o win \<Rightarrow> 'o win" where
  "logged c w = w\<lparr>wn_log := wn_log w @ [c]\<rparr>"

definition close :: "'o win_api \<Rightarrow> win32_handle \<Rightarrow> 'o win \<Rightarrow> 'o win" where
  "close api h w = logged (Closed h) (w\<lparr>wn_os := close_handle api h (wn_os w)\<rparr>)"

definition NO_ACTIVE_SESSION :: "32 word" where "NO_ACTIVE_SESSION = 0xFFFFFFFF"

text \<open>The privilege's own handle is closed at the end, but not when the lookup fails before.\<close>

definition enable_se_tcb_privilege :: "'o win_api \<Rightarrow> 'o win \<Rightarrow> (win_error + unit) \<times> 'o win" where
  "enable_se_tcb_privilege api w =
     (case ask (open_process_token api) w of
        (None, w) \<Rightarrow> (Inl WinError, w)
      | (Some token, w) \<Rightarrow>
          (case ask (lookup_privilege api) (logged (Opened token) w) of
             (False, w) \<Rightarrow> (Inl WinError, logged (LookupFailed token) w)
           | (True, w) \<Rightarrow>
               (case ask (adjust_privileges api token) w of
                  (ok, w) \<Rightarrow> (if ok then Inr () else Inl WinError, close api token w))))"

definition create_process_as_user ::
  "'o win_api \<Rightarrow> win32_handle \<Rightarrow> string \<Rightarrow> 'o win \<Rightarrow> (win_error + win32_handle) \<times> 'o win" where
  "create_process_as_user api token command_line w =
     (case ask (create_process api token (wide_null command_line) (wide_null (''winsta0'' @ bslash @ ''default''))) w of
        (None, w) \<Rightarrow> (Inl WinError, w)
      | (Some (process, thread), w) \<Rightarrow>
          (Inr process,
           close api thread (logged (Opened thread) (logged (Opened process) (logged (Launched command_line) w)))))"

definition spawn_in_console_session ::
  "'o win_api \<Rightarrow> string \<Rightarrow> 'o win \<Rightarrow> (win_error + win32_handle option) \<times> 'o win" where
  "spawn_in_console_session api command_line w =
     (case ask (active_console api) w of
        (session_id, w) \<Rightarrow>
          if session_id = NO_ACTIVE_SESSION then (Inr None, w)
          else (case enable_se_tcb_privilege api w of
                  (Inl e, w) \<Rightarrow> (Inl e, w)
                | (Inr _, w) \<Rightarrow>
                    (case ask (query_user_token api session_id) w of
                       (None, w) \<Rightarrow> (Inl WinError, w)
                     | (Some token, w) \<Rightarrow>
                         (case create_process_as_user api token command_line (logged (Opened token) w) of
                            (result, w) \<Rightarrow>
                              (case result of Inl e \<Rightarrow> Inl e | Inr h \<Rightarrow> Inr (Some h), close api token w)))))"

definition windows_disable_usage :: "'o win_api \<Rightarrow> 'o win \<Rightarrow> 'o win" where
  "windows_disable_usage api w =
     (case spawn_in_console_session api LOCK_COMMAND_LINE w of
        (Inr (Some process), w) \<Rightarrow> close api process w
      | (Inr None, w) \<Rightarrow> w
      | (Inl err, w) \<Rightarrow> w)"

definition windows_enable_usage :: "'o win \<Rightarrow> 'o win" where
  "windows_enable_usage w = w"

section \<open>The notifier\<close>

record 'o win_notifier =
  wn_win :: "'o win"
  wn_final :: "win32_handle option"

definition win_notifier_new :: "'o win \<Rightarrow> 'o win_notifier" where
  "win_notifier_new w = \<lparr>wn_win = w, wn_final = None\<rparr>"

definition run_powershell :: "'o win_api \<Rightarrow> string \<Rightarrow> 'o win \<Rightarrow> (win_error + win32_handle option) \<times> 'o win" where
  "run_powershell api script w = spawn_in_console_session api (encoded_command script) w"

definition windows_notify :: "'o win_api \<Rightarrow> notice \<Rightarrow> 'o win_notifier \<Rightarrow> 'o win_notifier" where
  "windows_notify api n d =
     (case run_powershell api (balloon_script n) (wn_win d) of
        (Inr (Some process), w) \<Rightarrow> d\<lparr>wn_win := close api process w\<rparr>
      | (Inr None, w) \<Rightarrow> d\<lparr>wn_win := w\<rparr>
      | (Inl err, w) \<Rightarrow> d\<lparr>wn_win := w\<rparr>)"

definition windows_dismiss_final_warning :: "'o win_api \<Rightarrow> 'o win_notifier \<Rightarrow> 'o win_notifier" where
  "windows_dismiss_final_warning api d =
     (case wn_final d of
        None \<Rightarrow> d
      | Some process \<Rightarrow>
          (let w = wn_win d;
               w = logged (Terminated process) (w\<lparr>wn_os := terminate_process api process (wn_os w)\<rparr>)
           in d\<lparr>wn_final := None, wn_win := close api process w\<rparr>))"

definition windows_show_final_warning :: "'o win_api \<Rightarrow> int \<Rightarrow> 'o win_notifier \<Rightarrow> 'o win_notifier" where
  "windows_show_final_warning api remaining d =
     (let d = windows_dismiss_final_warning api d
      in case run_powershell api (countdown_script remaining) (wn_win d) of
           (Inr (Some process), w) \<Rightarrow> d\<lparr>wn_win := w, wn_final := Some process\<rparr>
         | (Inr None, w) \<Rightarrow> d\<lparr>wn_win := w\<rparr>
         | (Inl err, w) \<Rightarrow> d\<lparr>wn_win := w\<rparr>)"

text \<open>The warnings thread on Windows, over the effects it receives.\<close>

definition windows_warnings :: "'o win_api \<Rightarrow> warning_effect list \<Rightarrow> 'o win \<Rightarrow> 'o win_notifier" where
  "windows_warnings api es w =
     warnings_thread (windows_notify api) (windows_show_final_warning api) (windows_dismiss_final_warning api) es
       (win_notifier_new w)"

section \<open>Lemmas on the encodings\<close>

lemma or_shifted: "b < 2 ^ n \<Longrightarrow> push_bit n a OR b = a * 2 ^ n + (b :: nat)"
proof -
  assume b: "b < 2 ^ n"
  then have "\<not> bit b m" if "n \<le> m" for m
    using that by (metis bit_take_bit_iff leD take_bit_nat_eq_self)
  then have "push_bit n a AND b = 0" by (auto simp: bit_eq_iff bit_simps)
  then show ?thesis by (metis disjunctive_add_eq_or push_bit_eq_mult)
qed

lemma byte: "unat (b :: 8 word) < 256"
  using unsigned_less [of b, where 'a = nat] by simp

lemma block_value: "unat (block_of a b c) = unat a * 65536 + unat b * 256 + unat c"
proof -
  have t: "take_bit 32 (unat x) = unat x" "take_bit 32 (push_bit 8 (unat x)) = push_bit 8 (unat x)"
    "take_bit 32 (push_bit 16 (unat x)) = push_bit 16 (unat x)" for x :: "8 word"
    using byte [of x] by (simp_all add: take_bit_eq_mod push_bit_eq_mult)
  then have "unat (push_bit 16 (ucast a :: 32 word)) = push_bit 16 (unat a)"
    "unat (push_bit 8 (ucast b :: 32 word)) = push_bit 8 (unat b)" "unat (ucast c :: 32 word) = unat c"
    by (simp_all add: unsigned_push_bit_eq unsigned_ucast_eq)
  then have "unat (block_of a b c) = push_bit 16 (unat a) OR (push_bit 8 (unat b) OR unat c)"
    by (simp only: block_of_def unsigned_or_eq or.assoc)
  also have "push_bit 8 (unat b) OR unat c = unat b * 256 + unat c"
    using or_shifted [of "unat c" 8] byte [of c] by simp
  also have "push_bit 16 (unat a) OR (unat b * 256 + unat c) = unat a * 65536 + (unat b * 256 + unat c)"
    using or_shifted [of "unat b * 256 + unat c" 16] byte [of c] byte [of b] by simp
  finally show ?thesis by simp
qed

lemma sextet_index: "unat (drop_bit n (w :: 32 word) AND 0x3f) = unat w div 2 ^ n mod 64"
proof -
  have m: "(0x3f :: 32 word) = mask 6" by (simp add: mask_eq_exp_minus_1)
  have "unat (v AND 0x3f) = unat v mod 64" for v :: "32 word"
    unfolding m take_bit_eq_mask [symmetric] by (simp add: take_bit_eq_mod unat_mod)
  moreover have "unat (drop_bit n w) = unat w div 2 ^ n"
    using take_bit_nat_eq_self [of "unat w" 32] unsigned_less [of w, where 'a = nat]
    by (simp only: unsigned_drop_bit_eq) (simp add: drop_bit_eq_div)
  ultimately show ?thesis by simp
qed

subsection \<open>Decoding\<close>

text \<open>What a base64 decoder does with well-formed text.\<close>

definition sextet_value :: "char \<Rightarrow> nat" where
  "sextet_value c = length (takeWhile (\<lambda>x. x \<noteq> c) ALPHABET)"

fun base64_decode :: "string \<Rightarrow> 8 word list option" where
  "base64_decode [] = Some []"
| "base64_decode (p # q # r # s # rest) =
     (let v = (sextet_value p * 64 + sextet_value q)
      in if r = CHR ''='' then (if s = CHR ''='' \<and> rest = [] then Some [of_nat (v div 16)] else None)
         else let v = v * 64 + sextet_value r
              in if s = CHR ''='' then (if rest = [] then Some [of_nat (v div 1024), of_nat (v div 4)] else None)
                 else let v = v * 64 + sextet_value s
                      in map_option (\<lambda>bs. [of_nat (v div 65536), of_nat (v div 256), of_nat v] @ bs)
                           (base64_decode rest))"
| "base64_decode cs = None"

lemma alphabet_values: "i < 64 \<Longrightarrow> sextet_value (ALPHABET ! i) = i \<and> ALPHABET ! i \<noteq> CHR ''=''"
proof -
  have "list_all (\<lambda>i. sextet_value (ALPHABET ! i) = i \<and> ALPHABET ! i \<noteq> CHR ''='') [0..<64]"
    by code_simp
  then show "i < 64 \<Longrightarrow> ?thesis" by (simp add: list_all_iff)
qed

lemma sextet_decodes:
  "sextet_value (sextet w n) = unat w div 2 ^ n mod 64" "sextet w n \<noteq> CHR ''=''"
  using alphabet_values [of "unat w div 2 ^ n mod 64"] by (simp_all add: sextet_def sextet_index)

text \<open>The sextets of a block put together again.\<close>

lemma sextets_join:
  fixes v :: nat
  assumes "v < 2 ^ 24"
  shows "v div 2 ^ 18 mod 64 * 64 + v div 2 ^ 12 mod 64 = v div 2 ^ 12"
    and "v div 2 ^ 12 * 64 + v div 2 ^ 6 mod 64 = v div 2 ^ 6"
    and "v div 2 ^ 6 * 64 + v div 2 ^ 0 mod 64 = v"
proof -
  have "v div 2 ^ 18 < 64" using assms by simp
  moreover have "v div 2 ^ 18 = v div 2 ^ 12 div 64" "v div 2 ^ 12 = v div 2 ^ 6 div 64" "v div 2 ^ 6 = v div 64"
    by (simp_all flip: div_mult2_eq)
  ultimately show "v div 2 ^ 18 mod 64 * 64 + v div 2 ^ 12 mod 64 = v div 2 ^ 12"
    "v div 2 ^ 12 * 64 + v div 2 ^ 6 mod 64 = v div 2 ^ 6" "v div 2 ^ 6 * 64 + v div 2 ^ 0 mod 64 = v"
    by simp_all
qed

lemma block_small: "unat (block_of a b c) < 2 ^ 24"
  using byte [of a] byte [of b] byte [of c] by (simp add: block_value)

lemma block_bytes:
  "(of_nat (unat (block_of a b c) div 65536) :: 8 word) = a"
  "(of_nat (unat (block_of a b c) div 256) :: 8 word) = b"
  "(of_nat (unat (block_of a b c)) :: 8 word) = c"
proof -
  have w: "(of_nat (256 * n + unat x) :: 8 word) = x" for n x
  proof -
    have "(of_nat 256 :: 8 word) = 0" by simp
    then show ?thesis by (simp only: of_nat_add of_nat_mult) simp
  qed
  have "unat (block_of a b c) div 65536 = 256 * 0 + unat a"
    "unat (block_of a b c) div 256 = 256 * unat a + unat b"
    "unat (block_of a b c) = 256 * (256 * unat a + unat b) + unat c"
    using byte [of b] byte [of c] by (simp_all add: block_value)
  then show "(of_nat (unat (block_of a b c) div 65536) :: 8 word) = a"
    "(of_nat (unat (block_of a b c) div 256) :: 8 word) = b" "(of_nat (unat (block_of a b c)) :: 8 word) = c"
    using w by metis+
qed

lemma joined:
  fixes a b c
  defines "w \<equiv> block_of a b c"
  shows "sextet_value (sextet w 18) * 64 + sextet_value (sextet w 12) = unat w div 4096"
    and "unat w div 4096 * 64 + sextet_value (sextet w 6) = unat w div 64"
    and "unat w div 64 * 64 + sextet_value (sextet w 0) = unat w"
  using sextets_join [OF block_small [of a b c]] unfolding w_def sextet_decodes(1) by simp_all

lemma base64_roundtrip: "base64_decode (base64 bs) = Some bs"
proof (induction bs rule: base64.induct)
  case 1
  show ?case by simp
next
  case (2 a)
  have "unat (block_of a 0 0) div 2 ^ 12 div 16 = unat (block_of a 0 0) div 65536" by (simp flip: div_mult2_eq)
  then show ?case
    using block_bytes(1) [of a 0 0] by (simp add: Let_def sextet_decodes(2) joined(1))
next
  case (3 a b)
  have "unat (block_of a b 0) div 2 ^ 6 div 1024 = unat (block_of a b 0) div 65536"
    "unat (block_of a b 0) div 2 ^ 6 div 4 = unat (block_of a b 0) div 256" by (simp_all flip: div_mult2_eq)
  then show ?case
    using block_bytes [of a b 0] unfolding base64.simps Let_def by (simp add: sextet_decodes(2) joined)
next
  case (4 a b c rest)
  then show ?case
    by (simp only: base64.simps base64_decode.simps Let_def append.simps sextet_decodes(2) if_False joined
        block_bytes option.map)
qed

subsection \<open>What PowerShell decodes\<close>

text \<open>The units of a little-endian byte sequence, and the text of units below 256.\<close>

fun from_le_bytes :: "8 word list \<Rightarrow> nat list option" where
  "from_le_bytes [] = Some []"
| "from_le_bytes (lo # hi # rest) = map_option (\<lambda>us. (unat lo + 256 * unat hi) # us) (from_le_bytes rest)"
| "from_le_bytes [b] = None"

definition decode_utf16le :: "8 word list \<Rightarrow> string option" where
  "decode_utf16le bytes = map_option (map char_of) (from_le_bytes bytes)"

lemma unit_bytes: "to_le_bytes (of_nat (of_char c)) = [of_nat (of_char c), 0]"
proof -
  have "(of_char c :: nat) < 256" by simp
  then have c: "of_char c mod 65536 = (of_char c :: nat)" "of_char c mod 256 = (of_char c :: nat)"
    "of_char c div 256 = (0 :: nat)"
    by (intro mod_less div_less; linarith)+
  have "unat (of_nat (of_char c) :: 16 word) = of_char c"
    by (simp add: unat_of_nat c)
  then have "unat (ucast (of_nat (of_char c) :: 16 word) :: 8 word) = unat (of_nat (of_char c) :: 8 word)"
    by (simp add: unsigned_ucast_eq unat_of_nat take_bit_eq_mod c)
  moreover have "unat (ucast (drop_bit 8 (of_nat (of_char c) :: 16 word)) :: 8 word) = 0"
    using \<open>unat (of_nat (of_char c) :: 16 word) = of_char c\<close>
    by (simp add: unsigned_ucast_eq drop_bit_eq_div unat_div c)
  ultimately show ?thesis
    by (simp add: to_le_bytes_def) (simp add: word_unat_eq_iff)
qed

lemma utf16le_roundtrip: "decode_utf16le (utf16le s) = Some s"
proof (induction s)
  case Nil
  show ?case by (simp add: decode_utf16le_def utf16le_def encode_utf16_def)
next
  case (Cons c s)
  have "unat (of_nat (of_char c) :: 8 word) = of_char c" by (simp add: unat_of_nat)
  with Cons show ?case by (auto simp: decode_utf16le_def utf16le_def encode_utf16_def unit_bytes)
qed

subsection \<open>PowerShell literals\<close>

text \<open>How PowerShell reads a single-quoted literal: up to the next quote that is not doubled.\<close>

fun read_quoted :: "string \<Rightarrow> (string \<times> string) option" where
  "read_quoted [] = None"
| "read_quoted (c # cs) =
     (if c \<noteq> quote then map_option (\<lambda>(v, r). (c # v, r)) (read_quoted cs)
      else (case cs of
              [] \<Rightarrow> Some ([], [])
            | e # rest \<Rightarrow> if e = quote then map_option (\<lambda>(v, r). (quote # v, r)) (read_quoted rest)
                          else Some ([], cs)))"

fun read_powershell :: "string \<Rightarrow> (string \<times> string) option" where
  "read_powershell [] = None"
| "read_powershell (c # cs) = (if c = quote then read_quoted cs else None)"

lemma read_quoted_doubled:
  "rest = [] \<or> hd rest \<noteq> quote \<Longrightarrow> read_quoted (replace_char quote [quote, quote] s @ quote # rest) = Some (s, rest)"
  by (induction s) (auto simp: replace_char_def split: list.splits)

subsection \<open>Filling a template\<close>

abbreviation (input) percent :: char where "percent \<equiv> CHR ''%''"

lemma replace_Nil [simp]: "replace_all pat r [] = []"
  by (simp add: replace_all.simps)

lemma replace_step: "strip_prefix pat (c # cs) = None \<Longrightarrow> replace_all pat r (c # cs) = c # replace_all pat r cs"
  by (simp add: replace_all.simps [of _ _ "_ # _"])

lemma replace_hit:
  assumes "pat \<noteq> []"
  shows "replace_all pat r (pat @ t) = r @ replace_all pat r t"
proof -
  obtain c cs where e: "pat @ t = c # cs" using assms by (cases "pat @ t") auto
  then have "strip_prefix pat (c # cs) = Some t" by (simp flip: e)
  then show ?thesis unfolding e using assms by (simp add: replace_all.simps [of _ _ "c # cs"])
qed

lemma replace_skip:
  "percent \<notin> set s \<Longrightarrow> replace_all (percent # pat) r (s @ t) = s @ replace_all (percent # pat) r t"
  by (induction s) (auto simp: replace_step)

text \<open>A text without two percent signs in a row holds no placeholder.\<close>

fun no_placeholder :: "string \<Rightarrow> bool" where
  "no_placeholder (a # b # s) = (\<not> (a = percent \<and> b = percent) \<and> no_placeholder (b # s))"
| "no_placeholder s = True"

lemma replace_none: "no_placeholder s \<Longrightarrow> replace_all (percent # percent # pat) r s = s"
proof (induction s rule: no_placeholder.induct)
  case (1 a b s)
  then have "strip_prefix (percent # percent # pat) (a # b # s) = None" by auto
  then show ?case using 1 by (simp add: replace_step)
qed (simp_all add: replace_step)

text \<open>Placeholders, and one of another name, followed by a text that does not begin like a name or a
  placeholder.\<close>

definition placeholder :: "string \<Rightarrow> string" where
  "placeholder n = percent # percent # n @ [percent, percent]"

definition is_name :: "string \<Rightarrow> bool" where
  "is_name n \<longleftrightarrow> n \<noteq> [] \<and> percent \<notin> set n"

lemma names_differ:
  "percent \<notin> set n \<Longrightarrow> percent \<notin> set m \<Longrightarrow> n \<noteq> m \<Longrightarrow> strip_prefix (n @ percent # p) (m @ percent # q) = None"
proof (induction n arbitrary: m)
  case Nil
  then show ?case by (cases m) auto
next
  case (Cons a n)
  then show ?case by (cases m) auto
qed

lemma replace_miss:
  assumes "is_name n" and "is_name m" and "n \<noteq> m" and "c \<noteq> percent" and "c \<notin> set n"
  shows "replace_all (placeholder n) r (placeholder m @ c # t) = placeholder m @ replace_all (placeholder n) r (c # t)"
proof -
  let ?R = "replace_all (placeholder n) r"
  obtain x n' where n: "n = x # n'" "x \<noteq> percent" using assms(1) by (cases n) (auto simp: is_name_def)
  obtain y m' where m: "m = y # m'" "y \<noteq> percent" using assms(2) by (cases m) (auto simp: is_name_def)
  have "?R (percent # percent # m @ [percent, percent] @ c # t) = percent # ?R (percent # m @ [percent, percent] @ c # t)"
    using assms(1-3) names_differ [of n m "[percent]" "percent # c # t"]
    by (intro replace_step) (simp add: placeholder_def is_name_def)
  also have "?R (percent # m @ [percent, percent] @ c # t) = percent # ?R (m @ [percent, percent] @ c # t)"
    using m by (intro replace_step) (simp add: placeholder_def)
  also have "?R (m @ [percent, percent] @ c # t) = m @ ?R ([percent, percent] @ c # t)"
    using assms(2) unfolding placeholder_def by (intro replace_skip) (simp add: is_name_def)
  also have "?R ([percent, percent] @ c # t) = percent # ?R (percent # c # t)"
    using n assms(5) unfolding append_Cons append_Nil by (intro replace_step) (auto simp: placeholder_def)
  also have "?R (percent # c # t) = percent # ?R (c # t)"
    using assms(4) by (intro replace_step) (auto simp: placeholder_def)
  finally show ?thesis by (simp add: placeholder_def)
qed

text \<open>A script as its pieces: texts, and holes that are still placeholders.\<close>

datatype piece = Text string | Hole string

fun render :: "piece list \<Rightarrow> string" where
  "render [] = []"
| "render (Text s # ps) = s @ render ps"
| "render (Hole n # ps) = placeholder n @ render ps"

fun clear_start :: "string \<Rightarrow> piece list \<Rightarrow> bool" where
  "clear_start n (Text s # ps) = (s \<noteq> [] \<and> hd s \<noteq> percent \<and> hd s \<notin> set n)"
| "clear_start n ps = False"

fun fillable :: "string \<Rightarrow> piece list \<Rightarrow> bool" where
  "fillable n [] = True"
| "fillable n [Text s] = no_placeholder s"
| "fillable n (Text s # p # ps) = (percent \<notin> set s \<and> fillable n (p # ps))"
| "fillable n (Hole m # ps) = (is_name m \<and> clear_start n ps \<and> fillable n ps)"

fun fill :: "string \<Rightarrow> string \<Rightarrow> piece \<Rightarrow> piece" where
  "fill n r (Hole m) = (if n = m then Text r else Hole m)"
| "fill n r (Text s) = Text s"

lemma clear_start_render: "clear_start n ps \<Longrightarrow> \<exists>c t. render ps = c # t \<and> c \<noteq> percent \<and> c \<notin> set n"
  by (cases "(n, ps)" rule: clear_start.cases) (auto simp: neq_Nil_conv)

lemma replace_fills:
  "is_name n \<Longrightarrow> fillable n ps \<Longrightarrow> replace_all (placeholder n) r (render ps) = render (map (fill n r) ps)"
proof (induction n ps rule: fillable.induct)
  case (2 n s)
  then show ?case using replace_none [of s "n @ [percent, percent]" r] by (simp add: placeholder_def)
next
  case (3 n s p ps)
  then show ?case using replace_skip [of s "percent # n @ [percent, percent]" r "render (p # ps)"]
    by (simp add: placeholder_def)
next
  case (4 n m ps)
  then have "clear_start n ps" by simp
  from clear_start_render [OF this] obtain c t where c: "render ps = c # t" "c \<noteq> percent" "c \<notin> set n" by blast
  show ?case
  proof (cases "n = m")
    case True
    then show ?thesis using 4 replace_hit [of "placeholder n" r "render ps"] by (simp add: placeholder_def)
  next
    case False
    then show ?thesis using 4 replace_miss [of n m c r t] c by simp
  qed
qed simp

subsection \<open>The templates filled\<close>

lemma segments [simp]:
  "percent \<notin> set balloon_1" "percent \<notin> set balloon_2" "percent \<notin> set balloon_3" "no_placeholder balloon_4"
  "percent \<notin> set countdown_1" "percent \<notin> set countdown_2" "percent \<notin> set countdown_3" "percent \<notin> set countdown_4"
  "no_placeholder countdown_5"
  by code_simp+

lemma segment_starts [simp]:
  "balloon_2 \<noteq> []" "hd balloon_2 = newline" "balloon_3 \<noteq> []" "hd balloon_3 = newline"
  "balloon_4 \<noteq> []" "hd balloon_4 = newline" "countdown_2 \<noteq> []" "hd countdown_2 = newline"
  "countdown_3 \<noteq> []" "hd countdown_3 = CHR '' ''" "countdown_4 \<noteq> []" "hd countdown_4 = CHR '' ''"
  "countdown_5 \<noteq> []" "hd countdown_5 = CHR '' ''"
  by (simp_all add: balloon_2_def balloon_3_def balloon_4_def countdown_2_def countdown_3_def countdown_4_def countdown_5_def)

lemma templates:
  "BALLOON_SCRIPT = render [Text balloon_1, Hole ''ICON'', Text balloon_2, Hole ''TITLE'', Text balloon_3, Hole ''BODY'', Text balloon_4]"
  "FINAL_WARNING_SCRIPT = render [Text countdown_1, Hole ''SECONDS'', Text countdown_2, Hole ''BRAND'', Text countdown_3,
     Hole ''HEADLINE'', Text countdown_4, Hole ''BODY'', Text countdown_5]"
  by (simp_all add: BALLOON_SCRIPT_def FINAL_WARNING_SCRIPT_def placeholder_def)

lemma placeholders:
  "''%%ICON%%'' = placeholder ''ICON''" "''%%TITLE%%'' = placeholder ''TITLE''" "''%%BODY%%'' = placeholder ''BODY''"
  "''%%SECONDS%%'' = placeholder ''SECONDS''" "''%%BRAND%%'' = placeholder ''BRAND''"
  "''%%HEADLINE%%'' = placeholder ''HEADLINE''"
  by (simp_all add: placeholder_def)

lemma powershell_string_percent: "percent \<in> set (powershell_string s) \<longleftrightarrow> percent \<in> set s"
  by (induction s) (auto simp: powershell_string_def replace_char_def quote_def)

lemma powershell_string_start [simp]: "powershell_string s \<noteq> []" "hd (powershell_string s) = quote"
  by (simp_all add: powershell_string_def)

lemma names [simp]: "is_name ''ICON''" "is_name ''TITLE''" "is_name ''BODY''" "is_name ''SECONDS''" "is_name ''BRAND''"
  "is_name ''HEADLINE''"
  by (simp_all add: is_name_def)

definition icon_of :: "urgency \<Rightarrow> string" where
  "icon_of u = (case u of Normal \<Rightarrow> ''Info'' | Critical \<Rightarrow> ''Warning'')"

lemma balloon_filled:
  assumes "percent \<notin> set (title n)" and "percent \<notin> set (body n)"
  shows "balloon_script n = balloon_1 @ icon_of (urgency_of n) @ balloon_2 @ powershell_string (title n)
     @ balloon_3 @ powershell_string (body n) @ balloon_4"
  using assms unfolding balloon_script_def placeholders templates icon_of_def [symmetric]
  by (simp add: replace_fills powershell_string_percent newline_def del: render.simps) simp

lemma no_percent_shown: "percent \<notin> set (show_int i)"
  using nat_digits_are_digits [of "nat i"] nat_digits_are_digits [of "nat (- i)"]
  by (auto simp: show_int_def list_all_iff is_digit_def)

lemma countdown_filled:
  "countdown_script r = countdown_1 @ show_int (clamp 1 600 r) @ countdown_2 @ powershell_string APP_NAME @ countdown_3
     @ powershell_string FINAL_WARNING_HEADLINE @ countdown_4 @ powershell_string FINAL_WARNING_BODY @ countdown_5"
proof -
  have "percent \<notin> set APP_NAME" "percent \<notin> set FINAL_WARNING_HEADLINE"
    by (simp_all add: APP_NAME_def FINAL_WARNING_HEADLINE_def)
  then show ?thesis
    unfolding countdown_script_def placeholders templates
    by (simp add: replace_fills powershell_string_percent no_percent_shown newline_def del: render.simps) simp
qed

subsection \<open>Handles\<close>

fun opened :: "win_call list \<Rightarrow> win32_handle multiset" where
  "opened [] = {#}"
| "opened (Opened h # log) = add_mset h (opened log)"
| "opened (_ # log) = opened log"

fun closed :: "win_call list \<Rightarrow> win32_handle multiset" where
  "closed [] = {#}"
| "closed (Closed h # log) = add_mset h (closed log)"
| "closed (_ # log) = closed log"

fun leaked :: "win_call list \<Rightarrow> win32_handle multiset" where
  "leaked [] = {#}"
| "leaked (LookupFailed h # log) = add_mset h (leaked log)"
| "leaked (_ # log) = leaked log"

fun launched :: "win_call list \<Rightarrow> string list" where
  "launched [] = []"
| "launched (Launched c # log) = c # launched log"
| "launched (_ # log) = launched log"

lemma log_append [simp]:
  "opened (xs @ ys) = opened xs + opened ys" "closed (xs @ ys) = closed xs + closed ys"
  "leaked (xs @ ys) = leaked xs + leaked ys" "launched (xs @ ys) = launched xs @ launched ys"
proof -
  show "opened (xs @ ys) = opened xs + opened ys" by (induction xs rule: opened.induct) auto
  show "closed (xs @ ys) = closed xs + closed ys" by (induction xs rule: closed.induct) auto
  show "leaked (xs @ ys) = leaked xs + leaked ys" by (induction xs rule: leaked.induct) auto
  show "launched (xs @ ys) = launched xs @ launched ys" by (induction xs rule: launched.induct) auto
qed

text \<open>Every handle opened is closed, leaked by a failed lookup, or one of those still held.\<close>

definition balanced :: "win32_handle multiset \<Rightarrow> 'o win \<Rightarrow> bool" where
  "balanced held w \<longleftrightarrow> opened (wn_log w) = closed (wn_log w) + leaked (wn_log w) + held"

fun result_handle :: "win_error + win32_handle option \<Rightarrow> win32_handle multiset" where
  "result_handle (Inr (Some h)) = {#h#}"
| "result_handle res = {#}"

lemma ask_log: "ask f w = (a, w') \<Longrightarrow> wn_log w' = wn_log w"
  by (auto simp: ask_def split: prod.splits)

lemma logged_log [simp]: "wn_log (logged c w) = wn_log w @ [c]"
  by (simp add: logged_def)

lemma close_log [simp]: "wn_log (close api h w) = wn_log w @ [Closed h]"
  by (simp add: close_def)

lemma enable_balanced:
  assumes "enable_se_tcb_privilege api w = (res, w')"
  shows "balanced held w \<longrightarrow> balanced held w'" and "launched (wn_log w') = launched (wn_log w)"
  using assms
  by (auto simp: enable_se_tcb_privilege_def balanced_def ac_simps dest!: ask_log
      split: prod.splits option.splits bool.splits)

lemma create_balanced:
  assumes "create_process_as_user api token cmd w = (res, w')" and "balanced held w"
  shows "balanced (held + (case res of Inl e \<Rightarrow> {#} | Inr h \<Rightarrow> {#h#})) w'"
    and "set (launched (wn_log w')) \<subseteq> insert cmd (set (launched (wn_log w)))"
  using assms
  by (auto simp: create_process_as_user_def balanced_def ac_simps dest!: ask_log split: prod.splits option.splits)

lemma spawn_balanced:
  assumes "spawn_in_console_session api cmd w = (res, w')" and "balanced held w"
  shows "balanced (held + result_handle res) w' \<and> set (launched (wn_log w')) \<subseteq> insert cmd (set (launched (wn_log w)))"
proof -
  obtain sid w1 where w1: "ask (active_console api) w = (sid, w1)" by fastforce
  then have b1: "balanced held w1" "launched (wn_log w1) = launched (wn_log w)"
    using assms(2) ask_log [OF w1] by (simp_all add: balanced_def)
  show ?thesis
  proof (cases "sid = NO_ACTIVE_SESSION")
    case True
    then show ?thesis using assms(1) w1 b1 by (auto simp: spawn_in_console_session_def)
  next
    case False
    obtain e w2 where w2: "enable_se_tcb_privilege api w1 = (e, w2)" by fastforce
    have b2: "balanced held w2" "launched (wn_log w2) = launched (wn_log w)"
      using enable_balanced [OF w2] b1 by simp_all
    obtain t w3 where w3: "ask (query_user_token api sid) w2 = (t, w3)" by fastforce
    then have b3: "balanced held w3" "launched (wn_log w3) = launched (wn_log w)"
      using b2 ask_log [OF w3] by (simp_all add: balanced_def)
    show ?thesis
    proof (cases t)
      case None
      then show ?thesis using assms(1) w1 w2 w3 b2 b3 False
        by (cases e) (auto simp: spawn_in_console_session_def)
    next
      case (Some token)
      obtain r w4 where w4: "create_process_as_user api token cmd (logged (Opened token) w3) = (r, w4)" by fastforce
      have "balanced (held + {#token#}) (logged (Opened token) w3)" using b3 by (simp add: balanced_def)
      from create_balanced [OF w4 this] have b4: "balanced (held + {#token#} + (case r of Inl e \<Rightarrow> {#} | Inr h \<Rightarrow> {#h#})) w4"
        "set (launched (wn_log w4)) \<subseteq> insert cmd (set (launched (wn_log w)))" using b3 by simp_all
      show ?thesis using assms(1) w1 w2 w3 w4 b2 b4 False Some
        by (cases e; cases r) (auto simp: spawn_in_console_session_def balanced_def ac_simps)
    qed
  qed
qed

definition held_handle :: "win32_handle option \<Rightarrow> win32_handle multiset" where
  "held_handle h = (case h of None \<Rightarrow> {#} | Some h \<Rightarrow> {#h#})"

lemma held_handle_simps [simp]: "held_handle None = {#}" "held_handle (Some h) = {#h#}"
  by (simp_all add: held_handle_def)

definition handles_ok :: "'o win_notifier \<Rightarrow> bool" where
  "handles_ok d \<longleftrightarrow> balanced (held_handle (wn_final d)) (wn_win d)"

lemma windows_dismissed [simp]: "wn_final (windows_dismiss_final_warning api d) = None"
  by (simp add: windows_dismiss_final_warning_def Let_def split: option.splits)

lemma windows_dismiss_ok: "handles_ok d \<Longrightarrow> handles_ok (windows_dismiss_final_warning api d)"
  by (auto simp: handles_ok_def balanced_def windows_dismiss_final_warning_def Let_def split: option.splits)

lemma result_handle_cases:
  obtains (process) h where "res = Inr (Some h)" | (nobody) "res = Inr None" | (failed) "res = Inl WinError"
  by (cases res; cases "projr res") (auto intro: win_error.exhaust)

lemma windows_notify_ok:
  "wn_final (windows_notify api n d) = wn_final d \<and> (handles_ok d \<longrightarrow> handles_ok (windows_notify api n d))"
proof -
  obtain res w where s: "spawn_in_console_session api (encoded_command (balloon_script n)) (wn_win d) = (res, w)" by fastforce
  show ?thesis using s spawn_balanced [OF s]
    by (cases res rule: result_handle_cases) (auto simp: windows_notify_def run_powershell_def handles_ok_def balanced_def)
qed

lemma windows_show_ok:
  assumes "handles_ok d"
  shows "handles_ok (windows_show_final_warning api r d)"
proof -
  let ?d = "windows_dismiss_final_warning api d"
  obtain res w where s: "spawn_in_console_session api (encoded_command (countdown_script r)) (wn_win ?d) = (res, w)" by fastforce
  have "handles_ok ?d" by (rule windows_dismiss_ok [OF assms])
  then show ?thesis using s spawn_balanced [OF s]
    by (cases res rule: result_handle_cases) (auto simp: windows_show_final_warning_def run_powershell_def handles_ok_def Let_def)
qed

interpretation windows: user_notifier "windows_notify api" "windows_show_final_warning api"
  "windows_dismiss_final_warning api" "\<lambda>d. wn_final d \<noteq> None" handles_ok for api :: "'o win_api"
  using windows_notify_ok [of api] windows_dismiss_ok [of _ api] windows_show_ok [of _ api] by unfold_locales simp_all

subsection \<open>The payload is one word, and the notices are harmless\<close>

lemma base64_alphabet: "set (base64 bytes) \<subseteq> insert (CHR ''='') (set ALPHABET)"
proof -
  have "sextet w n \<in> set ALPHABET" for w n
  proof -
    have "length ALPHABET = 64" by (simp add: ALPHABET_def)
    then show ?thesis by (simp add: sextet_def sextet_index)
  qed
  then show ?thesis by (induction bytes rule: base64.induct) (auto simp: Let_def)
qed

lemma show_int_no_percent [simp]: "percent \<notin> set (show_int i)"
  by (rule no_percent_shown)

lemma notice_no_percent: "percent \<notin> set (title (notice_for l r)) \<and> percent \<notin> set (body (notice_for l r))"
  by (cases l) (simp_all add: notice_for_def Let_def)

lemma literal_read: "hd rest \<noteq> quote \<Longrightarrow> read_powershell (powershell_string s @ rest) = Some (s, rest)"
  using read_quoted_doubled [of rest s] by (simp add: powershell_string_def)

lemma newline_not_quote [simp]: "newline \<noteq> quote"
  by (simp add: newline_def quote_def)

section \<open>Properties\<close>

text \<open>C37. PowerShell is handed exactly the script: for every script, the command line ends in one word of
  base64 characters only, which needs no quoting, and decoding it (base64, then UTF-16LE, as
  \<open>-EncodedCommand\<close> does) gives the script back, whatever its length modulo three.\<close>

theorem encoded_command_roundtrip:
  "\<exists>payload. encoded_command script =
       POWERSHELL @ '' -NoProfile -NonInteractive -WindowStyle Hidden -EncodedCommand '' @ payload
     \<and> set payload \<subseteq> insert (CHR ''='') (set ALPHABET)
     \<and> Option.bind (base64_decode payload) decode_utf16le = Some script"
  by (intro exI [of _ "base64 (utf16le script)"])
     (simp add: encoded_command_def base64_alphabet base64_roundtrip utf16le_roundtrip)

text \<open>The structure of a script is fixed at compile time: for every notice the agent can produce, and
  every final warning, each placeholder is filled and none is left, the pieces around them are those
  of the template, and PowerShell reads each literal as exactly the text it stands for, followed by
  the next piece.\<close>

theorem script_structure_is_fixed:
  assumes "Notify n \<in> set (fst (reconcile w session now))"
  shows "balloon_script n = balloon_1 @ icon_of (urgency_of n) @ balloon_2 @ powershell_string (title n)
       @ balloon_3 @ powershell_string (body n) @ balloon_4
     \<and> read_powershell (powershell_string (title n) @ balloon_3 @ rest) = Some (title n, balloon_3 @ rest)
     \<and> read_powershell (powershell_string (body n) @ balloon_4) = Some (body n, balloon_4)
     \<and> countdown_script r = countdown_1 @ show_int (clamp 1 600 r) @ countdown_2 @ powershell_string APP_NAME
       @ countdown_3 @ powershell_string FINAL_WARNING_HEADLINE @ countdown_4 @ powershell_string FINAL_WARNING_BODY
       @ countdown_5"
proof -
  obtain l where "n = notice_for l (remaining_secs session now)" using reconcile_notice [OF assms] by blast
  then have "percent \<notin> set (title n)" "percent \<notin> set (body n)" using notice_no_percent by simp_all
  then show ?thesis by (simp add: balloon_filled countdown_filled literal_read)
qed

theorem script_structure_is_fixed_witness:
  "balloon_script five_minute_notice = balloon_1 @ icon_of (urgency_of five_minute_notice) @ balloon_2
     @ powershell_string (title five_minute_notice) @ balloon_3 @ powershell_string (body five_minute_notice) @ balloon_4"
proof -
  have "Notify five_minute_notice \<in> set (fst (reconcile warnings_new (Some example_session) (secs 1501)))"
    by (simp add: reconcile_fresh remaining_secs_def key_of_def example_session_def secs_def num_seconds_def
        arriving_late_level_cases crossing_notices)
  from script_structure_is_fixed [OF this] show ?thesis by blast
qed

text \<open>C35. Every handle is accounted for: over any sequence of warnings and whatever the API answers, when
  the warnings thread ends no final warning is held and every handle it opened was closed exactly
  once, except the process tokens of the calls whose privilege lookup failed, which are never
  closed (the code returns early there).\<close>

theorem windows_handles_accounted:
  assumes "wn_log w = []"
  shows "let d = windows_warnings api es w; log = wn_log (wn_win d)
     in wn_final d = None \<and> opened log = closed log + leaked log"
proof -
  have new: "handles_ok (win_notifier_new w)" using assms by (simp add: handles_ok_def win_notifier_new_def balanced_def)
  have "wn_final (windows_warnings api es w) = None"
    unfolding windows_warnings_def using windows.thread_leaves_nothing [OF new] by blast
  moreover have "handles_ok (windows_warnings api es w)"
    unfolding windows_warnings_def warnings_thread_def by (rule windows.dismiss_inv [OF windows.fold_inv [OF new]])
  ultimately show ?thesis by (simp add: handles_ok_def balanced_def Let_def)
qed

text \<open>An API that finds a console session but not the privilege.\<close>

definition example_api :: "unit win_api" where
  "example_api = \<lparr>active_console = (\<lambda>st. (1, st)), open_process_token = (\<lambda>st. (Some 7, st)),
     lookup_privilege = (\<lambda>st. (False, st)), adjust_privileges = (\<lambda>h st. (True, st)),
     query_user_token = (\<lambda>sid st. (Some 8, st)), create_process = (\<lambda>h c d st. (Some (9, 10), st)),
     terminate_process = (\<lambda>h st. st), close_handle = (\<lambda>h st. st)\<rparr>"

theorem windows_handles_accounted_witness:
  "let d = windows_warnings example_api [ShowFinalWarning 30] \<lparr>wn_os = (), wn_log = []\<rparr>; log = wn_log (wn_win d)
     in leaked log = {#7#} \<and> opened log = closed log + leaked log"
proof -
  let ?w = "\<lparr>wn_os = (), wn_log = []\<rparr> :: unit win"
  have "leaked (wn_log (wn_win (windows_warnings example_api [ShowFinalWarning 30] ?w))) = {#7#}"
    by (simp add: windows_warnings_def warnings_thread_def windows_show_final_warning_def windows_dismiss_final_warning_def
        win_notifier_new_def run_powershell_def spawn_in_console_session_def enable_se_tcb_privilege_def ask_def
        NO_ACTIVE_SESSION_def example_api_def Let_def)
  then show ?thesis using windows_handles_accounted [of ?w example_api "[ShowFinalWarning 30]"] by (simp add: Let_def)
qed

end
