(* ===== verification/Machine.thy ===== *)
theory Machine imports Agent Linux Macos Windows begin

text \<open>
  The run loop and the warnings thread on a machine: the enforcement calls of a run and the warnings
  it sends reach the operating system from two threads, in any interleaving. What is then run on the
  machine is stated once, in the locale \<open>machine\<close>, and holds of the three platforms: nothing but the
  lock and the commands of the warnings, the lock as often as a tick found the session not to allow
  use, and no text that does not come from the agent itself.
\<close>

section \<open>Deliveries\<close>

text \<open>
  The enforcement calls of the plans performed, in order, interleaved with what the warnings thread
  has delivered so far: the effects in order and, once the channel is closed, the dismissal.
\<close>

definition deliveries :: "action list \<Rightarrow> action list set" where
  "deliveries plan =
     (\<Union>n. shuffles (filter is_enforcement plan) (take n (filter is_warning plan @ [Warn DismissFinalWarning])))"

lemma count_list_filter: "P x \<Longrightarrow> count_list (filter P xs) x = count_list xs x"
  by (induction xs) auto

lemma deliveries_sound:
  assumes "ds \<in> deliveries plan"
  shows "\<forall>a \<in> set ds. is_enforcement a \<or> is_warning a"
    and "count_list ds DisableUsage = count_list plan DisableUsage"
    and "Warn e \<in> set ds \<Longrightarrow> Warn e \<in> set plan \<or> e = DismissFinalWarning"
proof -
  let ?W = "filter is_warning plan @ [Warn DismissFinalWarning]"
  obtain n where n: "ds \<in> shuffles (filter is_enforcement plan) (take n ?W)" using assms by (auto simp: deliveries_def)
  then have s: "set ds = set (filter is_enforcement plan) \<union> set (take n ?W)" by (rule set_shuffles)
  have W: "set (take n ?W) \<subseteq> set ?W" by (rule set_take_subset)
  then show "\<forall>a \<in> set ds. is_enforcement a \<or> is_warning a" unfolding s by auto
  show "Warn e \<in> set ds \<Longrightarrow> Warn e \<in> set plan \<or> e = DismissFinalWarning" using W unfolding s by auto
  have "DisableUsage \<notin> set (take n ?W)" using W by auto
  then have "count (mset ds) DisableUsage = count (mset (filter is_enforcement plan)) DisableUsage"
    using mset_shuffles [OF n] by (simp add: count_list_0_iff)
  then show "count_list ds DisableUsage = count_list plan DisableUsage"
    by (simp add: count_list_filter flip: count_mset)
qed

section \<open>When a tick blocks, and what a run may say\<close>

fun tick_blocks :: "loop_state \<Rightarrow> loop_input \<Rightarrow> bool" where
  "tick_blocks ls (TickAt r) =
     (\<not> ls_decommissioned ls
      \<and> (case guard_now (ls_clock ls) r of None \<Rightarrow> False | Some (t, g) \<Rightarrow> \<not> usable_at (st_session (ls_state ls)) t))"
| "tick_blocks ls i = False"

fun locks_due :: "loop_state \<Rightarrow> loop_input list \<Rightarrow> nat" where
  "locks_due ls [] = 0"
| "locks_due ls (i # is) = (if tick_blocks ls i then 1 else 0) + locks_due (snd (loop_step ls i)) is"

lemma count_list_map_Warn [simp]: "count_list (map Warn es) DisableUsage = 0"
  by (induction es) auto

lemma loop_step_locks: "count_list (fst (loop_step ls i)) DisableUsage = (if tick_blocks ls i then 1 else 0)"
proof (cases i)
  case (EventRecv ev m)
  have "count_list (fst (on_event ls ev m)) DisableUsage = 0"
    by (cases "(ls, ev, m)" rule: on_event.cases) (auto simp: handler_defs split: prod.splits)
  then show ?thesis using EventRecv by simp
next
  case (TickAt r)
  show ?thesis
  proof (rule on_tick_cases [of ls r])
    fix t g assume a: "\<not> ls_decommissioned ls" "guard_now (ls_clock ls) r = Some (t, g)"
    then show ?thesis using on_tick_managed [OF a] TickAt by auto
  qed (use TickAt in \<open>auto simp: on_tick_def split: option.splits if_splits\<close>)
qed auto

lemma run_locks: "count_list (fst (run_out loop_step ls is)) DisableUsage = locks_due ls is"
  by (induction "is" arbitrary: ls) (simp_all add: loop_step_locks)

text \<open>The effects the agent can send: its own notices, a number of seconds, a dismissal.\<close>

fun agent_effect :: "warning_effect \<Rightarrow> bool" where
  "agent_effect (Notify n) = (\<exists>l r. n = notice_for l r)"
| "agent_effect e = True"

lemma reconcile_agent_effects: "e \<in> set (fst (reconcile w session now)) \<Longrightarrow> agent_effect e"
  by (cases e) (auto elim!: reconcile_notice)

lemma loop_step_effects: "Warn e \<in> set (fst (loop_step ls i)) \<Longrightarrow> agent_effect e"
proof (cases i)
  case (EventRecv ev m)
  assume "Warn e \<in> set (fst (loop_step ls i))"
  then show ?thesis using EventRecv
    by (cases "(ls, ev, m)" rule: on_event.cases) (auto simp: handler_defs split: prod.splits if_splits)
next
  case (TickAt r)
  assume w: "Warn e \<in> set (fst (loop_step ls i))"
  show ?thesis
  proof (rule on_tick_cases [of ls r])
    fix t g assume a: "\<not> ls_decommissioned ls" "guard_now (ls_clock ls) r = Some (t, g)"
    then show ?thesis using on_tick_managed [OF a] TickAt w by (auto intro: reconcile_agent_effects split: if_splits)
  qed (use TickAt w in auto)
qed auto

lemma run_effects: "Warn e \<in> set (fst (run_out loop_step ls is)) \<Longrightarrow> agent_effect e"
  by (induction "is" arbitrary: ls) (auto intro: loop_step_effects)

section \<open>The machine as an interface\<close>

definition allowed :: "'c \<Rightarrow> (warning_effect \<Rightarrow> 'c set) \<Rightarrow> action list \<Rightarrow> 'c set" where
  "allowed lock vocabulary as = insert lock (\<Union>{vocabulary e | e. Warn e \<in> set as})"

text \<open>\<open>ran\<close> is what was run on the machine so far, \<open>vocabulary e\<close> what the warning \<open>e\<close> may run.\<close>

locale machine =
  fixes perform :: "action \<Rightarrow> 'd \<Rightarrow> 'd" and ran :: "'d \<Rightarrow> 'c multiset" and lock :: 'c
    and vocabulary :: "warning_effect \<Rightarrow> 'c set"
  assumes lock_ran: "\<exists>k \<le> 1. ran (perform DisableUsage d) = ran d + replicate_mset k lock"
    and release_ran: "ran (perform EnableUsage d) = ran d"
    and warn_ran: "\<exists>C. ran (perform (Warn e) d) = ran d + C \<and> set_mset C \<subseteq> vocabulary e"
    and lock_apart: "lock \<notin> vocabulary e"
begin

lemma perform_ran:
  assumes "is_enforcement a \<or> is_warning a"
  shows "\<exists>C. ran (perform a d) = ran d + C \<and> set_mset C \<subseteq> allowed lock vocabulary [a] \<and> count C lock \<le> count_list [a] DisableUsage"
proof (cases a)
  case DisableUsage
  obtain k where "k \<le> 1" "ran (perform DisableUsage d) = ran d + replicate_mset k lock" using lock_ran [of d] by blast
  then show ?thesis using DisableUsage
    by (intro exI [of _ "replicate_mset k lock"]) (auto simp: allowed_def split: if_splits)
next
  case EnableUsage
  then show ?thesis using release_ran [of d] by (intro exI [of _ "{#}"]) simp
next
  case (Warn e)
  then obtain C where "ran (perform a d) = ran d + C" "set_mset C \<subseteq> vocabulary e" using warn_ran [of e d] by blast
  moreover from this have "count C lock = 0" using lock_apart [of e] by (auto simp: not_in_iff)
  ultimately show ?thesis using Warn by (intro exI [of _ C]) (auto simp: allowed_def)
qed (use assms in auto)

lemma fold_ran:
  assumes "\<forall>a \<in> set as. is_enforcement a \<or> is_warning a"
  shows "\<exists>C. ran (fold perform as d) = ran d + C \<and> set_mset C \<subseteq> allowed lock vocabulary as \<and> count C lock \<le> count_list as DisableUsage"
  using assms
proof (induction as arbitrary: d)
  case Nil
  then show ?case by simp
next
  case (Cons a as)
  obtain C where C: "ran (perform a d) = ran d + C" "set_mset C \<subseteq> allowed lock vocabulary [a]" "count C lock \<le> count_list [a] DisableUsage"
    using perform_ran [of a d] Cons.prems by auto
  obtain D where D: "ran (fold perform as (perform a d)) = ran (perform a d) + D" "set_mset D \<subseteq> allowed lock vocabulary as"
    "count D lock \<le> count_list as DisableUsage"
    using Cons by (metis list.set_intros(2))
  have "allowed lock vocabulary [a] \<subseteq> allowed lock vocabulary (a # as)" and "allowed lock vocabulary as \<subseteq> allowed lock vocabulary (a # as)" by (auto simp: allowed_def)
  then show ?case using C D by (intro exI [of _ "C + D"]) auto
qed

text \<open>What a run of the loop leads to, however its deliveries are interleaved.\<close>

lemma run_ran:
  assumes "ds \<in> deliveries (fst (run_out loop_step ls is))"
  shows "\<exists>C. ran (fold perform ds d) = ran d + C
     \<and> set_mset C \<subseteq> insert lock (\<Union>{vocabulary e | e. agent_effect e})
     \<and> count C lock \<le> locks_due ls is"
proof -
  note ok = deliveries_sound [OF assms]
  have "allowed lock vocabulary ds \<subseteq> insert lock (\<Union>{vocabulary e | e. agent_effect e})"
  proof -
    have "agent_effect e" if "Warn e \<in> set ds" for e
      using ok(3) [OF that] by (auto dest: run_effects)
    then show ?thesis by (auto simp: allowed_def)
  qed
  moreover obtain C where "ran (fold perform ds d) = ran d + C" "set_mset C \<subseteq> allowed lock vocabulary ds"
    "count C lock \<le> count_list ds DisableUsage"
    using fold_ran [OF ok(1), of d] by blast
  ultimately show ?thesis using ok(2) run_locks [of ls "is"] by (intro exI [of _ C]) auto
qed

end

text \<open>A machine on which the lock is run at every call.\<close>

locale prompt_machine = machine +
  assumes lock_always: "ran (perform DisableUsage d) = add_mset lock (ran d)"
begin

lemma fold_count:
  assumes "\<forall>a \<in> set as. is_enforcement a \<or> is_warning a"
  shows "count (ran (fold perform as d)) lock = count (ran d) lock + count_list as DisableUsage"
  using assms
proof (induction as arbitrary: d)
  case (Cons a as)
  have "count (ran (perform a d)) lock = count (ran d) lock + count_list [a] DisableUsage"
  proof (cases a)
    case (Warn e)
    then obtain C where "ran (perform a d) = ran d + C" "set_mset C \<subseteq> vocabulary e" using warn_ran [of e d] by blast
    moreover from this have "count C lock = 0" using lock_apart [of e] by (auto simp: not_in_iff)
    ultimately show ?thesis using Warn by simp
  qed (use Cons.prems lock_always release_ran in auto)
  then show ?case using Cons by simp
qed simp

lemma run_count:
  assumes "ds \<in> deliveries (fst (run_out loop_step ls is))"
  shows "\<exists>C. ran (fold perform ds d) = ran d + C
     \<and> set_mset C \<subseteq> insert lock (\<Union>{vocabulary e | e. agent_effect e})
     \<and> count C lock = locks_due ls is"
proof -
  obtain C where C: "ran (fold perform ds d) = ran d + C" "set_mset C \<subseteq> insert lock (\<Union>{vocabulary e | e. agent_effect e})"
    using run_ran [OF assms, of d] by blast
  then show ?thesis
    using fold_count [OF deliveries_sound(1) [OF assms], of d] deliveries_sound(2) [OF assms] run_locks [of ls "is"] by auto
qed

end

section \<open>Linux\<close>

abbreviation linux_lock :: command where "linux_lock \<equiv> loginctl [''lock-sessions'']"

fun linux_perform :: "'o exec \<Rightarrow> action \<Rightarrow> 'o linux_notifier \<Rightarrow> 'o linux_notifier" where
  "linux_perform exec DisableUsage d = d\<lparr>ln_host := linux_disable_usage exec (ln_host d)\<rparr>"
| "linux_perform exec EnableUsage d = d\<lparr>ln_host := linux_enable_usage (ln_host d)\<rparr>"
| "linux_perform exec (Warn e) d = linux_apply exec e d"
| "linux_perform exec a d = d"

definition linux_ran :: "'o linux_notifier \<Rightarrow> command multiset" where
  "linux_ran d = mset (host_ran (ln_host d))"

lemma linux_lock_apart: "linux_lock \<notin> warning_commands exec txts"
  by (auto simp: warning_commands_def session_queries_def loginctl_def show_session_def runuser_def)

interpretation linux_machine: prompt_machine "linux_perform exec" linux_ran linux_lock
  "\<lambda>e. warning_commands exec (shown_texts e)" for exec :: "'o exec"
proof
  fix d e
  show "\<exists>k \<le> 1. linux_ran (linux_perform exec DisableUsage d) = linux_ran d + replicate_mset k linux_lock"
    by (intro exI [of _ 1]) (simp add: linux_ran_def linux_disable_usage_def)
  show "linux_ran (linux_perform exec EnableUsage d) = linux_ran d"
    by (simp add: linux_ran_def linux_enable_usage_def)
  show "\<exists>C. linux_ran (linux_perform exec (Warn e) d) = linux_ran d + C
      \<and> set_mset C \<subseteq> warning_commands exec (shown_texts e)"
    using linux_apply_appends [of e "shown_texts e" exec d] by (auto simp: linux_ran_def appends_def)
  show "linux_lock \<notin> warning_commands exec (shown_texts e)" by (rule linux_lock_apart)
  show "linux_ran (linux_perform exec DisableUsage d) = add_mset linux_lock (linux_ran d)"
    by (simp add: linux_ran_def linux_disable_usage_def)
qed

text \<open>The texts the agent can put on a screen.\<close>

definition agent_texts :: "(string \<times> string) set" where
  "agent_texts = {(title (notice_for l r), body (notice_for l r)) | l r. True}
     \<union> {(FINAL_WARNING_HEADLINE, final_text r) | r. True}"

lemma agent_vocabulary:
  "\<Union>{warning_commands exec (shown_texts e) | e. agent_effect e} \<subseteq> warning_commands exec agent_texts"
proof -
  have "shown_texts e \<subseteq> agent_texts" if "agent_effect e" for e
    using that by (cases e) (auto simp: agent_texts_def)
  then show ?thesis by (fastforce simp: warning_commands_def)
qed

section \<open>Windows\<close>

fun windows_perform :: "'o win_api \<Rightarrow> action \<Rightarrow> 'o win_notifier \<Rightarrow> 'o win_notifier" where
  "windows_perform api DisableUsage d = d\<lparr>wn_win := windows_disable_usage api (wn_win d)\<rparr>"
| "windows_perform api EnableUsage d = d\<lparr>wn_win := windows_enable_usage (wn_win d)\<rparr>"
| "windows_perform api (Warn e) d =
     apply_effect (windows_notify api) (windows_show_final_warning api) (windows_dismiss_final_warning api) e d"
| "windows_perform api a d = d"

definition windows_ran :: "'o win_notifier \<Rightarrow> string multiset" where
  "windows_ran d = mset (launched (wn_log (wn_win d)))"

fun windows_vocabulary :: "warning_effect \<Rightarrow> string set" where
  "windows_vocabulary (Notify n) = {encoded_command (balloon_script n)}"
| "windows_vocabulary (ShowFinalWarning r) = {encoded_command (countdown_script r)}"
| "windows_vocabulary DismissFinalWarning = {}"

text \<open>A spawn launches its command line once or not at all.\<close>

lemma spawn_launched:
  assumes "spawn_in_console_session api cmd w = (res, w')"
  shows "\<exists>k \<le> 1. launched (wn_log w') = launched (wn_log w) @ replicate k cmd"
proof -
  obtain sid w1 where w1: "ask (active_console api) w = (sid, w1)" by fastforce
  obtain e w2 where w2: "enable_se_tcb_privilege api w1 = (e, w2)" by fastforce
  obtain t w3 where w3: "ask (query_user_token api sid) w2 = (t, w3)" by fastforce
  have kept: "launched (wn_log w1) = launched (wn_log w)" "launched (wn_log w2) = launched (wn_log w)"
      "launched (wn_log w3) = launched (wn_log w)"
    using ask_log [OF w1] enable_balanced(2) [OF w2] ask_log [OF w3] by simp_all
  have created: "\<exists>k \<le> 1. launched (wn_log w4) = launched (wn_log w) @ replicate k cmd"
    if "create_process_as_user api token cmd (logged (Opened token) w3) = (r, w4)" for token r w4
  proof (cases r)
    case (Inl err)
    then show ?thesis using that kept
      by (intro exI [of _ 0]) (auto simp: create_process_as_user_def dest!: ask_log split: prod.splits option.splits)
  next
    case (Inr h)
    then show ?thesis using that kept
      by (intro exI [of _ 1]) (auto simp: create_process_as_user_def dest!: ask_log split: prod.splits option.splits)
  qed
  show ?thesis
  proof (cases "sid = NO_ACTIVE_SESSION \<or> (\<exists>err. e = Inl err) \<or> t = None")
    case True
    then show ?thesis using assms w1 w2 w3 kept
      by (intro exI [of _ 0]) (auto simp: spawn_in_console_session_def split: sum.splits if_splits)
  next
    case False
    then obtain u token where "e = Inr u" "t = Some token" by (cases e; cases t) auto
    moreover obtain r w4 where w4: "create_process_as_user api token cmd (logged (Opened token) w3) = (r, w4)" by fastforce
    ultimately have "w' = close api token w4" using assms w1 w2 w3 False
      by (auto simp: spawn_in_console_session_def)
    then show ?thesis using created [OF w4] by simp
  qed
qed

lemma lock_not_encoded: "LOCK_COMMAND_LINE \<noteq> encoded_command script"
  by (simp add: LOCK_COMMAND_LINE_def encoded_command_def POWERSHELL_def)

lemma windows_dismiss_launched [simp]:
  "launched (wn_log (wn_win (windows_dismiss_final_warning api d))) = launched (wn_log (wn_win d))"
  by (auto simp: windows_dismiss_final_warning_def Let_def split: option.splits)

text \<open>Whatever is done with the result of a spawn, no more is launched.\<close>

lemma windows_spawning:
  assumes "spawn_in_console_session api cmd w = (res, w')" and "launched log = launched (wn_log w')"
  shows "\<exists>C. mset (launched log) = mset (launched (wn_log w)) + C \<and> set_mset C \<subseteq> {cmd}"
proof -
  obtain k where "launched (wn_log w') = launched (wn_log w) @ replicate k cmd"
    using spawn_launched [OF assms(1)] by blast
  then show ?thesis using assms(2) by (intro exI [of _ "mset (replicate k cmd)"]) auto
qed

lemma windows_warn_launched:
  "\<exists>C. windows_ran (windows_perform api (Warn e) d) = windows_ran d + C \<and> set_mset C \<subseteq> windows_vocabulary e"
proof (cases e)
  case (Notify n)
  obtain res w where s: "spawn_in_console_session api (encoded_command (balloon_script n)) (wn_win d) = (res, w)" by fastforce
  have "launched (wn_log (wn_win (windows_notify api n d))) = launched (wn_log w)"
    using s by (cases res rule: result_handle_cases) (auto simp: windows_notify_def run_powershell_def)
  from windows_spawning [OF s this] show ?thesis using Notify by (simp add: windows_ran_def)
next
  case (ShowFinalWarning r)
  let ?d = "windows_dismiss_final_warning api d"
  obtain res w where s: "spawn_in_console_session api (encoded_command (countdown_script r)) (wn_win ?d) = (res, w)" by fastforce
  have "launched (wn_log (wn_win (windows_show_final_warning api r d))) = launched (wn_log w)"
    using s by (cases res rule: result_handle_cases) (auto simp: windows_show_final_warning_def run_powershell_def Let_def)
  from windows_spawning [OF s this] show ?thesis using ShowFinalWarning by (simp add: windows_ran_def)
qed (simp add: windows_ran_def)

interpretation windows_machine: machine "windows_perform api" windows_ran LOCK_COMMAND_LINE windows_vocabulary
  for api :: "'o win_api"
proof
  fix d :: "'o win_notifier" and e :: warning_effect
  obtain res w where s: "spawn_in_console_session api LOCK_COMMAND_LINE (wn_win d) = (res, w)" by fastforce
  have "launched (wn_log (windows_disable_usage api (wn_win d))) = launched (wn_log w)"
    using s by (cases res rule: result_handle_cases) (auto simp: windows_disable_usage_def)
  with spawn_launched [OF s]
  show "\<exists>k \<le> 1. windows_ran (windows_perform api DisableUsage d) = windows_ran d + replicate_mset k LOCK_COMMAND_LINE"
    by (auto simp: windows_ran_def mset_replicate)
  show "windows_ran (windows_perform api EnableUsage d) = windows_ran d"
    by (simp add: windows_ran_def windows_enable_usage_def)
  show "\<exists>C. windows_ran (windows_perform api (Warn e) d) = windows_ran d + C \<and> set_mset C \<subseteq> windows_vocabulary e"
    by (rule windows_warn_launched)
  show "LOCK_COMMAND_LINE \<notin> windows_vocabulary e"
    using lock_not_encoded by (cases e) auto
qed

section \<open>macOS\<close>

text \<open>The lock is a command of its own; the notifier starts its children through its own record of the
  operating system.\<close>

record 'o mac_machine =
  mm_host :: "'o host"
  mm_notifier :: "'o mac_notifier"

fun mac_perform :: "'o exec \<Rightarrow> 'o mac_os \<Rightarrow> action \<Rightarrow> 'o mac_machine \<Rightarrow> 'o mac_machine" where
  "mac_perform exec os DisableUsage d = d\<lparr>mm_host := mac_disable_usage exec (mm_host d)\<rparr>"
| "mac_perform exec os EnableUsage d = d\<lparr>mm_host := mac_enable_usage (mm_host d)\<rparr>"
| "mac_perform exec os (Warn e) d = d\<lparr>mm_notifier :=
     apply_effect (mac_notify os) (mac_show_final_warning os) (mac_dismiss_final_warning os) e (mm_notifier d)\<rparr>"
| "mac_perform exec os a d = d"

fun attempted :: "mac_call list \<Rightarrow> command multiset" where
  "attempted [] = {#}"
| "attempted (Started c i # log) = add_mset c (attempted log)"
| "attempted (NotStarted c # log) = add_mset c (attempted log)"
| "attempted (_ # log) = attempted log"

lemma attempted_append [simp]: "attempted (xs @ ys) = attempted xs + attempted ys"
  by (induction xs rule: attempted.induct) auto

definition mac_ran :: "'o mac_machine \<Rightarrow> command multiset" where
  "mac_ran d = mset (host_ran (mm_host d)) + attempted (mc_log (mm_notifier d))"

abbreviation mac_lock :: command where
  "mac_lock \<equiv> \<lparr>program = ''osascript'', args = [''-e'', LOCK_SCRIPT], envs = []\<rparr>"

fun mac_vocabulary :: "warning_effect \<Rightarrow> command set" where
  "mac_vocabulary (Notify n) = {osascript u (notify_script n) | u. u \<noteq> 0}"
| "mac_vocabulary (ShowFinalWarning r) = {osascript u (alert_script (clamp 1 600 r)) | u. u \<noteq> 0}"
| "mac_vocabulary DismissFinalWarning = {}"

lemma spawn_attempted:
  assumes "spawn_osascript os script d = (res, d')"
  shows "\<exists>C. attempted (mc_log d') = attempted (mc_log d) + C \<and> set_mset C \<subseteq> {osascript u script | u. u \<noteq> 0}"
proof (cases "console_user_uid os (mc_os d)")
  case (Pair u st)
  show ?thesis
  proof (cases u)
    case None
    then show ?thesis using assms Pair by (auto simp: spawn_osascript_def)
  next
    case (Some v)
    then have "v \<noteq> 0" using Pair by (auto simp: console_user_uid_def split: prod.splits option.splits if_splits)
    then show ?thesis using assms Pair Some
      by (intro exI [of _ "{#osascript v script#}"]) (auto simp: spawn_osascript_def split: prod.splits option.splits)
  qed
qed

lemma mac_dismiss_attempted [simp]:
  "attempted (mc_log (mac_dismiss_final_warning os d)) = attempted (mc_log d)"
  by (simp add: mac_dismiss_final_warning_def mac_wait_def mac_kill_def split: option.splits)

lemma mac_warn_attempted:
  "\<exists>C. mac_ran (mac_perform exec os (Warn e) d) = mac_ran d + C \<and> set_mset C \<subseteq> mac_vocabulary e"
proof (cases e)
  case (Notify n)
  obtain res d' where s: "spawn_osascript os (notify_script n) (mm_notifier d) = (res, d')" by fastforce
  have "attempted (mc_log (mac_notify os n (mm_notifier d))) = attempted (mc_log d')"
    using s by (cases res) (simp_all add: mac_notify_def mac_wait_def)
  then show ?thesis using spawn_attempted [OF s] Notify by (auto simp: mac_ran_def)
next
  case (ShowFinalWarning r)
  obtain res d' where s: "spawn_osascript os (alert_script (clamp 1 600 r)) (mac_dismiss_final_warning os (mm_notifier d)) = (res, d')"
    by fastforce
  have "attempted (mc_log (mac_show_final_warning os r (mm_notifier d))) = attempted (mc_log d')"
    using s by (cases res) (simp_all add: mac_show_final_warning_def)
  then show ?thesis using spawn_attempted [OF s] ShowFinalWarning by (auto simp: mac_ran_def)
qed (simp add: mac_ran_def)

interpretation mac_machine: prompt_machine "mac_perform exec os" mac_ran mac_lock mac_vocabulary
  for exec :: "'o exec" and os :: "'o mac_os"
proof
  fix d :: "'o mac_machine" and e :: warning_effect
  show "\<exists>k \<le> 1. mac_ran (mac_perform exec os DisableUsage d) = mac_ran d + replicate_mset k mac_lock"
    by (intro exI [of _ 1]) (simp add: mac_ran_def mac_disable_usage_def)
  show "mac_ran (mac_perform exec os EnableUsage d) = mac_ran d"
    by (simp add: mac_ran_def mac_enable_usage_def)
  show "\<exists>C. mac_ran (mac_perform exec os (Warn e) d) = mac_ran d + C \<and> set_mset C \<subseteq> mac_vocabulary e"
    by (rule mac_warn_attempted)
  show "mac_lock \<notin> mac_vocabulary e" by (cases e) (auto simp: osascript_def)
  show "mac_ran (mac_perform exec os DisableUsage d) = add_mset mac_lock (mac_ran d)"
    by (simp add: mac_ran_def mac_disable_usage_def)
qed

section \<open>The end of a run\<close>

text \<open>
  At a graceful stop the channel of the warnings is closed and the thread is joined, so everything was
  delivered: all effects in order, then the dismissal, interleaved with the enforcement calls.
\<close>

definition all_delivered :: "action list \<Rightarrow> action list set" where
  "all_delivered plan = shuffles (filter is_enforcement plan) (filter is_warning plan @ [Warn DismissFinalWarning])"

lemma shuffles_snoc:
  assumes "zs \<in> shuffles xs (ys @ [y])"
  shows "\<exists>as bs. zs = as @ y # bs \<and> set as \<subseteq> set xs \<union> set ys \<and> set bs \<subseteq> set xs"
  using assms
proof (induction zs arbitrary: xs ys)
  case Nil
  then show ?case by simp
next
  case (Cons z zs)
  consider (left) xs1 where "xs = z # xs1" "zs \<in> shuffles xs1 (ys @ [y])"
    | (right) ys1 where "ys = z # ys1" "zs \<in> shuffles xs (ys1 @ [y])"
    | (final) "ys = []" "z = y" "zs = xs"
    using Cons.prems by (cases xs; cases ys) (auto simp: Cons_in_shuffles_iff)
  then show ?case
  proof cases
    case left
    with Cons.IH obtain as bs where "zs = as @ y # bs" "set as \<subseteq> set xs1 \<union> set ys" "set bs \<subseteq> set xs1" by blast
    then show ?thesis using left(1) by (intro exI [of _ "z # as"] exI [of _ bs]) auto
  next
    case right
    with Cons.IH obtain as bs where "zs = as @ y # bs" "set as \<subseteq> set xs \<union> set ys1" "set bs \<subseteq> set xs" by blast
    then show ?thesis using right(1) by (intro exI [of _ "z # as"] exI [of _ bs]) auto
  next
    case final
    then show ?thesis by (intro exI [of _ "[]"] exI [of _ zs]) auto
  qed
qed

locale notifying_machine = user_notifier notify show_final_warning dismiss_final_warning held inv
  for notify :: "notice \<Rightarrow> 'd \<Rightarrow> 'd" and show_final_warning :: "int \<Rightarrow> 'd \<Rightarrow> 'd"
    and dismiss_final_warning :: "'d \<Rightarrow> 'd" and held :: "'d \<Rightarrow> bool" and inv :: "'d \<Rightarrow> bool" +
  fixes perform :: "action \<Rightarrow> 'd \<Rightarrow> 'd"
  assumes perform_warn: "perform (Warn e) d = apply_effect notify show_final_warning dismiss_final_warning e d"
    and enforce_held: "is_enforcement a \<Longrightarrow> held (perform a d) = held d"
    and enforce_inv: "is_enforcement a \<Longrightarrow> inv d \<Longrightarrow> inv (perform a d)"
begin

lemma perform_inv: "is_enforcement a \<or> is_warning a \<Longrightarrow> inv d \<Longrightarrow> inv (perform a d)"
  using enforce_inv [of a d] by (cases a) (auto simp: perform_warn intro: apply_inv)

lemma fold_perform_inv: "\<forall>a \<in> set as. is_enforcement a \<or> is_warning a \<Longrightarrow> inv d \<Longrightarrow> inv (fold perform as d)"
  by (induction as arbitrary: d) (auto intro: perform_inv)

lemma fold_enforce_held: "\<forall>a \<in> set as. is_enforcement a \<Longrightarrow> held (fold perform as d) = held d"
  by (induction as arbitrary: d) (auto simp: enforce_held)

lemma nothing_left:
  assumes "inv d" and "ds \<in> all_delivered plan"
  shows "\<not> held (fold perform ds d)"
proof -
  obtain as bs where ds: "ds = as @ Warn DismissFinalWarning # bs"
    "set as \<subseteq> set (filter is_enforcement plan) \<union> set (filter is_warning plan)" "set bs \<subseteq> set (filter is_enforcement plan)"
    using shuffles_snoc [OF assms(2) [unfolded all_delivered_def]] by (elim exE conjE)
  have "inv (fold perform as d)" using ds(2) assms(1) by (intro fold_perform_inv) auto
  then have "\<not> held (perform (Warn DismissFinalWarning) (fold perform as d))"
    by (simp add: perform_warn dismiss_held)
  moreover have "\<forall>a \<in> set bs. is_enforcement a" using ds(3) by auto
  ultimately show ?thesis by (simp add: ds(1) fold_enforce_held)
qed

end

interpretation linux_notifying: notifying_machine "linux_notify exec" "linux_show_final_warning exec"
  "linux_dismiss_final_warning exec" "\<lambda>d. ln_final d \<noteq> None" "\<lambda>d. True" "linux_perform exec" for exec :: "'o exec"
proof
  fix a :: action and d :: "'o linux_notifier"
  show "is_enforcement a \<Longrightarrow> (ln_final (linux_perform exec a d) \<noteq> None) = (ln_final d \<noteq> None)" by (cases a) auto
qed simp_all

lemma windows_enforce_ok: "is_enforcement a \<Longrightarrow> handles_ok d \<Longrightarrow> handles_ok (windows_perform api a d)"
proof (cases a)
  case DisableUsage
  obtain res w where s: "spawn_in_console_session api LOCK_COMMAND_LINE (wn_win d) = (res, w)" by fastforce
  assume "handles_ok d"
  then show ?thesis using DisableUsage s spawn_balanced [OF s]
    by (cases res rule: result_handle_cases) (auto simp: windows_disable_usage_def handles_ok_def balanced_def)
qed (auto simp: windows_enable_usage_def)

interpretation windows_notifying: notifying_machine "windows_notify api" "windows_show_final_warning api"
  "windows_dismiss_final_warning api" "\<lambda>d. wn_final d \<noteq> None" handles_ok "windows_perform api" for api :: "'o win_api"
proof
  fix a :: action and d :: "'o win_notifier"
  show "is_enforcement a \<Longrightarrow> (wn_final (windows_perform api a d) \<noteq> None) = (wn_final d \<noteq> None)" by (cases a) auto
qed (simp_all add: windows_enforce_ok)

abbreviation mm_lift :: "('o mac_notifier \<Rightarrow> 'o mac_notifier) \<Rightarrow> 'o mac_machine \<Rightarrow> 'o mac_machine" where
  "mm_lift f d \<equiv> d\<lparr>mm_notifier := f (mm_notifier d)\<rparr>"

interpretation mac_notifying: notifying_machine "\<lambda>n. mm_lift (mac_notify os n)" "\<lambda>r. mm_lift (mac_show_final_warning os r)"
  "mm_lift (mac_dismiss_final_warning os)" "\<lambda>d. mc_final (mm_notifier d) \<noteq> None" "\<lambda>d. children_ok (mm_notifier d)"
  "mac_perform exec os" for exec :: "'o exec" and os :: "'o mac_os"
proof
  fix a :: action and d :: "'o mac_machine" and e :: warning_effect
  show "mac_perform exec os (Warn e) d = apply_effect (\<lambda>n. mm_lift (mac_notify os n)) (\<lambda>r. mm_lift (mac_show_final_warning os r))
      (mm_lift (mac_dismiss_final_warning os)) e d" by (cases e) simp_all
  show "is_enforcement a \<Longrightarrow> (mc_final (mm_notifier (mac_perform exec os a d)) \<noteq> None) = (mc_final (mm_notifier d) \<noteq> None)"
    by (cases a) auto
  show "is_enforcement a \<Longrightarrow> children_ok (mm_notifier d) \<Longrightarrow> children_ok (mm_notifier (mac_perform exec os a d))"
    by (cases a) auto
qed (use mac_notify_ok [of os] mac_dismiss_ok [of _ os] mac_show_ok [of _ os] in auto)

section \<open>Properties\<close>

text \<open>A tick of a machine past its deadline, and what it delivers.\<close>

definition example_tick :: loop_input where
  "example_tick = TickAt \<lparr>os_now = secs 1800, mono_elapsed = 0, mono_anchor = 0\<rparr>"

lemma example_reading:
  "guard_now (ls_clock example_loop) \<lparr>os_now = secs 1800, mono_elapsed = 0, mono_anchor = 0\<rparr> =
     Some (secs 1800, \<lparr>high_water_mark = secs 1800, anchor = 0\<rparr>)"
  "\<not> ls_decommissioned example_loop" "\<not> usable_at (st_session (ls_state example_loop)) (secs 1800)"
  by (simp_all add: example_loop_def guard_new_def guard_now_def secs_def usable_at_def Session.example_session_def)

lemma example_calls:
  "filter is_enforcement (fst (run_out loop_step example_loop [example_tick])) = [DisableUsage]"
  "filter is_warning (fst (run_out loop_step example_loop [example_tick])) = []"
proof -
  note tick = on_tick_managed [OF example_reading(2,1)]
  show "filter is_enforcement (fst (run_out loop_step example_loop [example_tick])) = [DisableUsage]"
    using tick example_reading(3) by (simp add: example_tick_def)
  have "fst (reconcile (ls_warnings example_loop) (snd (advance (st_session (ls_state example_loop)) (secs 1800))) (secs 1800)) = []"
    by (simp add: example_loop_def advance_session expire_locally_def Session.example_session_def reconcile_def key_of_def
        rekey_def warnings_new_def)
  then show "filter is_warning (fst (run_out loop_step example_loop [example_tick])) = []"
    using tick example_reading(3) by (simp add: example_tick_def)
qed

lemma example_delivery:
  "[DisableUsage] \<in> deliveries (fst (run_out loop_step example_loop [example_tick]))"
  "locks_due example_loop [example_tick] = 1"
proof -
  show "[DisableUsage] \<in> deliveries (fst (run_out loop_step example_loop [example_tick]))"
    unfolding deliveries_def example_calls by (intro UN_I [of 0]) simp_all
  show "locks_due example_loop [example_tick] = 1" using example_reading by (simp add: example_tick_def)
qed

text \<open>C14. On Linux a run of the agent executes nothing a server could choose: over any run of the loop,
  however its enforcement calls and the deliveries of the warnings thread interleave and whatever
  the programs answer, every command is \<open>loginctl lock-sessions\<close>, exactly as often as a tick found
  the session not to allow use, or a query of logind, or \<open>notify-send\<close> with one of the agent's own
  texts, or the closing of a notification, the last two as the user of the desktop that logind
  reported active.\<close>

theorem linux_machine_runs_only_its_commands:
  assumes "ds \<in> deliveries (fst (run_out loop_step ls is))"
  shows "\<exists>C. mset (host_ran (ln_host (fold (linux_perform exec) ds d))) = mset (host_ran (ln_host d)) + C
     \<and> set_mset C \<subseteq> insert (loginctl [''lock-sessions'']) (warning_commands exec agent_texts)
     \<and> count C (loginctl [''lock-sessions'']) = locks_due ls is"
proof -
  obtain C where C: "linux_ran (fold (linux_perform exec) ds d) = linux_ran d + C"
    "set_mset C \<subseteq> insert linux_lock (\<Union>{warning_commands exec (shown_texts e) | e. agent_effect e})"
    "count C linux_lock = locks_due ls is"
    using linux_machine.run_count [OF assms, of exec d] by blast
  have "set_mset C \<subseteq> insert linux_lock (warning_commands exec agent_texts)"
    using C(2) agent_vocabulary [of exec] by blast
  then show ?thesis using C(1,3) by (auto simp: linux_ran_def)
qed

theorem linux_machine_runs_only_its_commands_witness:
  "\<exists>C. mset (host_ran (ln_host (linux_perform Linux.example_exec DisableUsage (linux_notifier_new example_host)))) = C
     \<and> count C (loginctl [''lock-sessions'']) = 1"
  using linux_machine_runs_only_its_commands [OF example_delivery(1), of Linux.example_exec "linux_notifier_new example_host"]
    example_delivery(2)
  by (auto simp: linux_notifier_new_def example_host_def)

text \<open>C36. The same holds on Windows, where everything is launched in the console user's session: over any
  run and any interleaving, each command line is the lock, at most once per tick that found the
  session not to allow use, or PowerShell with an encoded script that is one of the two templates
  filled with a notice of the agent's own or a number of seconds.\<close>

theorem windows_machine_launches_only_its_commands:
  assumes "ds \<in> deliveries (fst (run_out loop_step ls is))"
  shows "\<exists>C. mset (launched (wn_log (wn_win (fold (windows_perform api) ds d)))) = mset (launched (wn_log (wn_win d))) + C
     \<and> set_mset C \<subseteq> {LOCK_COMMAND_LINE} \<union> {encoded_command (balloon_script (notice_for l r)) | l r. True}
         \<union> {encoded_command (countdown_script r) | r. True}
     \<and> count C LOCK_COMMAND_LINE \<le> locks_due ls is"
proof -
  obtain C where C: "windows_ran (fold (windows_perform api) ds d) = windows_ran d + C"
    "set_mset C \<subseteq> insert LOCK_COMMAND_LINE (\<Union>{windows_vocabulary e | e. agent_effect e})"
    "count C LOCK_COMMAND_LINE \<le> locks_due ls is"
    using windows_machine.run_ran [OF assms, of api d] by blast
  have "windows_vocabulary e \<subseteq> {encoded_command (balloon_script (notice_for l r)) | l r. True}
      \<union> {encoded_command (countdown_script r) | r. True}" if "agent_effect e" for e
    using that by (cases e) auto
  with C(2) have "set_mset C \<subseteq> {LOCK_COMMAND_LINE} \<union> {encoded_command (balloon_script (notice_for l r)) | l r. True}
      \<union> {encoded_command (countdown_script r) | r. True}" by blast
  then show ?thesis using C(1,3) by (auto simp: windows_ran_def)
qed

theorem windows_machine_launches_only_its_commands_witness:
  "launched (wn_log (wn_win (windows_perform (example_api\<lparr>lookup_privilege := \<lambda>st. (True, st)\<rparr>) DisableUsage
       (win_notifier_new \<lparr>wn_os = (), wn_log = []\<rparr>)))) = [LOCK_COMMAND_LINE]
   \<and> count {#LOCK_COMMAND_LINE#} LOCK_COMMAND_LINE \<le> locks_due example_loop [example_tick]"
proof -
  let ?api = "example_api\<lparr>lookup_privilege := \<lambda>st. (True, st)\<rparr>" and ?d = "win_notifier_new \<lparr>wn_os = (), wn_log = []\<rparr>"
  have "launched (wn_log (wn_win (windows_perform ?api DisableUsage ?d))) = [LOCK_COMMAND_LINE]"
    by (simp add: windows_disable_usage_def spawn_in_console_session_def enable_se_tcb_privilege_def
        create_process_as_user_def ask_def close_def logged_def example_api_def NO_ACTIVE_SESSION_def win_notifier_new_def)
  with windows_machine_launches_only_its_commands [OF example_delivery(1), of ?api ?d] show ?thesis
    by (auto simp: win_notifier_new_def)
qed

text \<open>A graceful stop leaves no countdown on the screen, on any platform: over any run of the loop,
  however the enforcement calls and the deliveries interleave and whatever the system answers, when
  the agent has stopped the notifier holds no final warning.\<close>

theorem stop_leaves_no_countdown:
  assumes "ds \<in> all_delivered (fst (run_out loop_step ls is))" and "wn_log w = []"
  shows "ln_final (fold (linux_perform exec) ds (linux_notifier_new h)) = None
     \<and> mc_final (mm_notifier (fold (mac_perform exec' os) ds \<lparr>mm_host = h', mm_notifier = mac_notifier_new st\<rparr>)) = None
     \<and> wn_final (fold (windows_perform api) ds (win_notifier_new w)) = None"
proof (intro conjI)
  show "ln_final (fold (linux_perform exec) ds (linux_notifier_new h)) = None"
    using linux_notifying.nothing_left [OF _ assms(1)] by blast
  have "children_ok (mac_notifier_new st)" by (simp add: children_ok_def mac_notifier_new_def)
  then show "mc_final (mm_notifier (fold (mac_perform exec' os) ds \<lparr>mm_host = h', mm_notifier = mac_notifier_new st\<rparr>)) = None"
    using mac_notifying.nothing_left [OF _ assms(1), of "\<lparr>mm_host = h', mm_notifier = mac_notifier_new st\<rparr>" exec' os] by simp
  have "handles_ok (win_notifier_new w)" using assms(2) by (simp add: handles_ok_def win_notifier_new_def balanced_def)
  then show "wn_final (fold (windows_perform api) ds (win_notifier_new w)) = None"
    using windows_notifying.nothing_left [OF _ assms(1), of "win_notifier_new w" api] by blast
qed

theorem stop_leaves_no_countdown_witness:
  "ln_final (fold (linux_perform Linux.example_exec) [DisableUsage, Warn DismissFinalWarning] (linux_notifier_new example_host)) = None
   \<and> wn_final (fold (windows_perform example_api) [DisableUsage, Warn DismissFinalWarning]
       (win_notifier_new \<lparr>wn_os = (), wn_log = []\<rparr>)) = None"
proof -
  have d: "[DisableUsage, Warn DismissFinalWarning] \<in> all_delivered (fst (run_out loop_step example_loop [example_tick]))"
    using example_calls by (simp add: all_delivered_def)
  show ?thesis using stop_leaves_no_countdown [OF d, of "\<lparr>wn_os = (), wn_log = []\<rparr>" Linux.example_exec example_host
      Linux.example_exec _ example_host _ example_api] by simp
qed

text \<open>On macOS: the lock script, and \<open>osascript\<close> in the session of a console user other than root with a
  script the agent built.\<close>

theorem mac_machine_runs_only_its_commands:
  assumes "ds \<in> deliveries (fst (run_out loop_step ls is))"
  shows "\<exists>C. mac_ran (fold (mac_perform exec os) ds d) = mac_ran d + C
     \<and> set_mset C \<subseteq> insert mac_lock (\<Union>{mac_vocabulary e | e. agent_effect e})
     \<and> count C mac_lock = locks_due ls is"
  by (rule mac_machine.run_count [OF assms])

end
