(* ===== verification/Timeout.thy ===== *)
theory Timeout imports Machine begin

text \<open>
  The final warning is told, when it is put on screen, after how long it has to go by itself, so that
  a countdown left behind by an agent that was killed goes with the session. The time is computed in
  \<open>warning.rs\<close>, clamped, and handed over in three ways: milliseconds on the command line of
  notify-send, seconds in an AppleScript, seconds in a PowerShell script. The lemmas read it back from
  each text.
\<close>

section \<open>How long a final warning is shown\<close>

lemma reconcile_show:
  assumes "ShowFinalWarning r \<in> set (fst (reconcile w session now))"
  shows "r = remaining_secs session now" and "0 < r"
    and "due_level (w_last_seen (rekeyed w session)) now r = Some Final"
proof -
  let ?r = "remaining_secs session now" and ?w = "rekeyed w session"
  have "0 < ?r \<and> ShowFinalWarning r \<in> set (fst (announce (due_level (w_last_seen ?w) now ?r) ?r ?w))"
    using assms
    by (auto simp: reconcile_cases Let_def rekeyed_def rekey_def dismiss_final_def split: if_splits)
  then show "r = ?r" "0 < r" "due_level (w_last_seen ?w) now r = Some Final"
    by (auto simp: announce_def split: option.splits if_splits)
qed

lemma due_final: "due_level prev now r = Some Final \<Longrightarrow> r \<le> 60"
  by (auto simp: due_level_cases level_for_cases arriving_late_level_cases split: if_splits)

text \<open>At most a minute is left, and the warning's last full second is the session's.\<close>

lemma final_warning_window:
  assumes "ShowFinalWarning r \<in> set (fst (reconcile w session now))"
  obtains s where "session = Some s" and "status s = Active" and "1 \<le> r" and "r \<le> 60"
    and "now + secs r \<le> expires_at s" and "expires_at s < now + secs (r + 1)"
proof -
  note r = reconcile_show [OF assms]
  have "key_of session \<noteq> None" using r(1,2) remaining_key by simp
  then obtain s where s: "session = Some s" "status s = Active"
    by (auto simp: key_of_def split: option.splits if_splits)
  then have rem: "r = num_seconds (expires_at s - now)" using r(1) by (simp add: remaining_secs_def key_of_def)
  have "r * nanos_per_sec \<le> expires_at s - now" and "expires_at s - now < (r + 1) * nanos_per_sec"
    using num_seconds_gt_iff [of "r - 1" "expires_at s - now"] num_seconds_le_iff [of r "expires_at s - now"] r(2) rem
    by auto
  then show thesis using that [OF s] r(2) due_final [OF r(3)] by (simp add: secs_def)
qed

text \<open>The clamp of the three platforms changes nothing.\<close>

lemma clamp_identity: "1 \<le> r \<Longrightarrow> r \<le> 60 \<Longrightarrow> clamp 1 600 r = r"
  by (simp add: clamp_def)

section \<open>What each platform is told\<close>

text \<open>The milliseconds after which notify-send lets the notification expire.\<close>

fun expire_time :: "string list \<Rightarrow> nat option" where
  "expire_time (a # b # rest) = (if a = ''--expire-time'' then parse_digits b else expire_time (b # rest))"
| "expire_time _ = None"

lemma linux_expires: "0 \<le> r \<Longrightarrow> expire_time (final_options r) = Some (nat (clamp 1 600 r * 1000))"
  by (simp add: final_options_def show_int_def parse_digits_show clamp_def)

text \<open>The seconds after which the alert gives up: the number its script ends with.\<close>

definition trailing_number :: "string \<Rightarrow> nat option" where
  "trailing_number s = parse_digits (rev (takeWhile is_digit (rev s)))"

lemma trailing_number_append:
  assumes "s = [] \<or> \<not> is_digit (last s)"
  shows "trailing_number (s @ nat_digits n) = Some n"
proof -
  have d: "\<forall>c \<in> set (rev (nat_digits n)). is_digit c" using nat_digits_are_digits [of n] by (simp add: list_all_iff)
  have "takeWhile is_digit (rev s) = []" using assms by (cases s rule: rev_cases) auto
  moreover have "takeWhile is_digit (rev (nat_digits n) @ rev s) = rev (nat_digits n) @ takeWhile is_digit (rev s)"
    using d by (intro takeWhile_append2) auto
  ultimately show ?thesis using parse_digits_show [of n] by (simp add: trailing_number_def)
qed

lemma macos_gives_up: "0 \<le> seconds \<Longrightarrow> trailing_number (alert_script seconds) = Some (nat seconds)"
proof -
  assume nonneg: "0 \<le> seconds"
  obtain pre where pre: "alert_script seconds = (pre @ '' giving up after '') @ nat_digits (nat seconds)"
    using nonneg by (auto simp: alert_script_def show_int_def)
  have "\<not> is_digit (last (pre @ '' giving up after ''))" by (simp add: is_digit_def)
  then show ?thesis using trailing_number_append [of "pre @ '' giving up after ''" "nat seconds"]
    unfolding pre by simp
qed

text \<open>The number the countdown's script starts from: the value assigned to \<open>$total\<close>.\<close>

definition number_after :: "string \<Rightarrow> string \<Rightarrow> nat option" where
  "number_after pre s =
     (case strip_prefix pre s of None \<Rightarrow> None | Some rest \<Rightarrow> parse_digits (takeWhile is_digit rest))"

lemma windows_counts_from: "0 \<le> r \<Longrightarrow> number_after countdown_1 (countdown_script r) = Some (nat (clamp 1 600 r))"
proof -
  assume "0 \<le> r"
  then have c: "show_int (clamp 1 600 r) = nat_digits (nat (clamp 1 600 r))" by (simp add: show_int_def clamp_def)
  have d: "\<forall>x \<in> set (nat_digits n). is_digit x" for n using nat_digits_are_digits [of n] by (simp add: list_all_iff)
  obtain ys where ys: "countdown_2 = newline # ys" by (simp add: countdown_2_def)
  have "takeWhile is_digit (nat_digits n @ countdown_2 @ t) = nat_digits n" for n t
    using d [of n] by (simp add: ys newline_def is_digit_def)
  then show ?thesis
    by (simp add: number_after_def countdown_filled c strip_prefix_append parse_digits_show)
qed

section \<open>Properties\<close>

text \<open>C31. The time a final warning is told to stay is never clamped, at most a minute, and the same on
  every platform: counted from the tick that decided on it, it ends at the session's deadline or less
  than a second before. A countdown that nobody takes down, because the agent was killed, ends with
  the session.\<close>

theorem final_warning_ends_with_session:
  assumes "ShowFinalWarning r \<in> set (fst (reconcile w session now))"
  shows "\<exists>s. session = Some s \<and> status s = Active \<and> 1 \<le> r \<and> r \<le> 60
     \<and> now + secs r \<le> expires_at s \<and> expires_at s < now + secs (r + 1)
     \<and> expire_time (final_options r) = Some (nat r * 1000)
     \<and> trailing_number (alert_script (clamp 1 600 r)) = Some (nat r)
     \<and> number_after countdown_1 (countdown_script r) = Some (nat r)"
proof -
  obtain s where s: "session = Some s" "status s = Active" "1 \<le> r" "r \<le> 60"
    "now + secs r \<le> expires_at s" "expires_at s < now + secs (r + 1)"
    using final_warning_window [OF assms] by blast
  then show ?thesis
    using linux_expires [of r] macos_gives_up [of r] windows_counts_from [of r] clamp_identity [of r]
    by (simp add: nat_mult_distrib)
qed

definition ending_session :: session_snapshot where
  "ending_session = \<lparr>snap_id = ''s'', started_at = 0, expires_at = secs 1800, status = Active, updated_at = 0\<rparr>"

theorem final_warning_ends_with_session_witness:
  "secs 1760 + secs 40 \<le> expires_at ending_session
   \<and> expire_time (final_options 40) = Some 40000
   \<and> trailing_number (alert_script (clamp 1 600 40)) = Some 40
   \<and> number_after countdown_1 (countdown_script 40) = Some 40"
proof -
  have "ShowFinalWarning 40 \<in> set (fst (reconcile warnings_new (Some ending_session) (secs 1760)))"
    by code_simp
  from final_warning_ends_with_session [OF this] show ?thesis by simp
qed

end
