(* ===== verification/Service.thy ===== *)
theory Service imports World begin

text \<open>
  The two ways \<open>main\<close> of \<open>agent/src/main.rs\<close> runs the agent, and the handshake with the Windows
  Service Control Manager: the control handler with its one-shot stop channel, and the statuses
  reported around the run loop, whose result is an argument; and the diagnostic files written next to
  the state file. Each call that Windows may refuse has its answer as an argument.
\<close>

section \<open>Choosing a path\<close>

datatype cli_command = RunCommand | EnrollCommand string string

datatype main_path =
    EnrollPath string string
  | ServicePath
  | ForegroundPath

text \<open>\<open>dispatched\<close>: the dispatcher connected, that is, the process was started by the Service Control
  Manager and the service ran to its end.\<close>

definition main_path_of :: "cli_command option \<Rightarrow> bool \<Rightarrow> bool \<Rightarrow> main_path" where
  "main_path_of cli windows dispatched =
     (case (case cli of Some c \<Rightarrow> c | None \<Rightarrow> RunCommand) of
        EnrollCommand server token \<Rightarrow> EnrollPath server token
      | RunCommand \<Rightarrow> if windows \<and> dispatched then ServicePath else ForegroundPath)"

section \<open>Diagnostic files\<close>

text \<open>
  A line appended to a file in the state directory; \<open>add\<close> appends a text to contents (none if there is
  no file), \<open>opens\<close> says whether the file could be opened. Every failure is ignored.
\<close>

definition append_line :: "'c store \<Rightarrow> ('c option \<Rightarrow> string \<Rightarrow> 'c) \<Rightarrow> bool \<Rightarrow> string \<Rightarrow> string \<Rightarrow> 'c fs \<Rightarrow> 'c fs" where
  "append_line s add opens name line fs =
     (let p = join (store_unix s) (store_dir s) name
      in if opens then fs_write s p (add (map_option f_contents (fs p)) (line @ [CHR 0x0A])) fs else fs)"

definition log_dispatch_failure ::
  "'c store \<Rightarrow> ('c option \<Rightarrow> string \<Rightarrow> 'c) \<Rightarrow> bool \<Rightarrow> string \<Rightarrow> string \<Rightarrow> 'c fs \<Rightarrow> 'c fs" where
  "log_dispatch_failure s add opens now err =
     append_line s add opens ''service_dispatch.log''
       (now @ '' -- did not connect to the Service Control Manager: '' @ err)"

text \<open>What the hook set by \<open>install_panic_log\<close> does at a panic.\<close>

definition panic_hook ::
  "'c store \<Rightarrow> ('c option \<Rightarrow> string \<Rightarrow> 'c) \<Rightarrow> bool \<Rightarrow> string \<Rightarrow> string \<Rightarrow> 'c fs \<Rightarrow> 'c fs" where
  "panic_hook s add opens now info = append_line s add opens ''panic.log'' (now @ '' -- '' @ info)"

text \<open>The diagnostics of a life, in order: each with whether its file opened, the time and the text.\<close>

datatype diagnostic = DispatchFailed bool string string | Panicked bool string string

fun write_diagnostic :: "'c store \<Rightarrow> ('c option \<Rightarrow> string \<Rightarrow> 'c) \<Rightarrow> diagnostic \<Rightarrow> 'c fs \<Rightarrow> 'c fs" where
  "write_diagnostic s add (DispatchFailed opens now err) = log_dispatch_failure s add opens now err"
| "write_diagnostic s add (Panicked opens now info) = panic_hook s add opens now info"

lemma append_line_elsewhere:
  "p \<noteq> join (store_unix s) (store_dir s) name \<Longrightarrow> append_line s add opens name line fs p = fs p"
  by (simp add: append_line_def fs_write_def Let_def)

lemma log_paths:
  "state_path s \<noteq> join (store_unix s) (store_dir s) ''service_dispatch.log''"
  "state_path s \<noteq> join (store_unix s) (store_dir s) ''panic.log''"
  by (simp_all add: state_path_def join_def)

lemma write_diagnostic_state: "write_diagnostic s add d fs (state_path s) = fs (state_path s)"
  by (cases d) (simp_all add: log_dispatch_failure_def panic_hook_def append_line_elsewhere log_paths)

text \<open>Diagnostics never touch the state: whatever is logged, a load reads what it would have read.\<close>

lemma diagnostics_leave_the_state_alone:
  "load s now refused (fold (write_diagnostic s add) ds fs) = load s now refused fs"
proof (induction ds arbitrary: fs)
  case (Cons d ds)
  have "load s now refused (write_diagnostic s add d fs) = load s now refused fs"
    by (rule load_only_state_file) (rule write_diagnostic_state)
  with Cons show ?case by simp
qed simp

section \<open>The control handler\<close>

datatype service_control = StopControl | ShutdownControl | InterrogateControl | OtherControl

datatype handler_result = NoError | NotImplemented

text \<open>The state is the sender, until it is taken; the boolean says whether the stop was sent now.\<close>

definition control_step :: "bool \<Rightarrow> service_control \<Rightarrow> handler_result \<times> bool \<times> bool" where
  "control_step stop_tx control =
     (case control of
        StopControl \<Rightarrow> (NoError, stop_tx, False)
      | ShutdownControl \<Rightarrow> (NoError, stop_tx, False)
      | InterrogateControl \<Rightarrow> (NoError, False, stop_tx)
      | OtherControl \<Rightarrow> (NotImplemented, False, stop_tx))"

fun stops_sent :: "bool \<Rightarrow> service_control list \<Rightarrow> nat" where
  "stops_sent tx [] = 0"
| "stops_sent tx (c # cs) =
     (case control_step tx c of (_, sent, tx') \<Rightarrow> (if sent then 1 else 0) + stops_sent tx' cs)"

section \<open>The service\<close>

datatype service_state = ServiceRunning | ServiceStopped

record service_status =
  current_state :: service_state
  accepts_stop :: bool
  accepts_shutdown :: bool
  exit_code :: nat

datatype service_error = RegisterFailed | StatusFailed

definition running_status :: service_status where
  "running_status = \<lparr>current_state = ServiceRunning, accepts_stop = True, accepts_shutdown = True, exit_code = 0\<rparr>"

definition stopped_status :: service_status where
  "stopped_status = \<lparr>current_state = ServiceStopped, accepts_stop = False, accepts_shutdown = False, exit_code = 0\<rparr>"

text \<open>The statuses reported, in order, and the result. The answers: registering the handler, the first
  report, what the run loop came to (an error of any kind or a clean end), the last report.\<close>

definition run_service ::
  "bool \<Rightarrow> bool \<Rightarrow> 'e + unit \<Rightarrow> bool \<Rightarrow> service_status list \<times> (service_error + unit)" where
  "run_service register_ok running_ok result stopped_ok =
     (if \<not> register_ok then ([], Inl RegisterFailed)
      else if \<not> running_ok then ([running_status], Inl StatusFailed)
      else let reports = [running_status] @ [stopped_status]
           in if \<not> stopped_ok then (reports, Inl StatusFailed) else (reports, Inr ()))"

section \<open>Properties\<close>

text \<open>However many stop and shutdown controls the Service Control Manager sends, in whatever order
  with others, the run loop is told to stop at most once, and exactly once if there is any.\<close>

theorem stop_is_sent_once:
  "stops_sent True cs = (if StopControl \<in> set cs \<or> ShutdownControl \<in> set cs then 1 else 0)"
proof -
  have taken: "stops_sent False cs = 0" for cs
    by (induction cs) (auto simp: control_step_def split: service_control.splits)
  show ?thesis
    by (induction cs) (auto simp: control_step_def taken split: service_control.splits)
qed

text \<open>C40. On Windows one refused write ends enforcement for good, silently: a running agent that is about
  to save its state (it is at every tick) can have that save refused, which ends its run loop with
  an error and leaves the disk as it was; the service then reports the same statuses as for a
  requested shutdown, ending in a clean stop with exit code 0, so the recovery actions set up for
  failures have nothing to react to.\<close>

theorem refused_save_looks_like_a_clean_stop:
  assumes "codec_ok (store_codec (env_store e))" and "w_proc w = Up p" and "pr_plan p = SaveState st # plan"
  shows "\<exists>w'. world_step e w (ActFails (SaveState st)) w' \<and> w_proc w' = Down
     \<and> recorded (env_store e) (w_fs w') = recorded (env_store e) (w_fs w)
     \<and> run_service True True (Inl (SaveState st)) True = run_service True True (Inr () :: action + unit) True
     \<and> map exit_code (fst (run_service True True (Inl (SaveState st)) True)) = [0, 0]"
proof -
  have "save (env_store e) st (Some (WriteFails OtherIo None)) (w_fs w) = (Inl OtherIo, w_fs w)"
    by (simp add: save_def Let_def)
  from world_step.save_fails [OF assms(2,3) this] show ?thesis
    by (intro exI [of _ "w\<lparr>w_fs := w_fs w, w_proc := Down\<rparr>"])
       (simp add: run_service_def running_status_def stopped_status_def)
qed

theorem refused_save_looks_like_a_clean_stop_witness:
  "\<exists>w'. world_step example_env ((example_world example_managed)\<lparr>w_proc := Up (booted example_credentials example_loop
       [SaveState example_managed])\<rparr>) (ActFails (SaveState example_managed)) w'
     \<and> recorded (env_store example_env) (w_fs w') = Some example_managed"
  using refused_save_looks_like_a_clean_stop [OF example_codec(1), of
      "(example_world example_managed)\<lparr>w_proc := Up (booted example_credentials example_loop [SaveState example_managed])\<rparr>"
      "booted example_credentials example_loop [SaveState example_managed]" example_managed "[]"]
  by (auto simp: booted_def)

end
