(* ===== verification/Delivery.thy ===== *)
theory Delivery imports Progress begin

text \<open>
  The agent together with the thread that delivers its warnings (\<open>main.rs\<close>, \<open>run\<close>): the thread is
  started with the loop, takes effects from a channel and applies them to the notifier, and ends when
  the channel closes, taking a final warning down; an orderly exit waits for it. It may be slow, it may
  die at any moment, and what it does to the desktop is not constrained. The theory shows the design
  promise of the code's comment, that none of this delays the loop; that, as long as the thread
  lives, the warnings are delivered in order and completely; and what a shutdown, which waits for the
  thread, leaves behind.
\<close>

section \<open>The agent and its thread\<close>

text \<open>A notifier on a desktop; \<open>nt_new\<close> is the constructor, which forgets the handle of an earlier process.\<close>

record 'd notifier =
  nt_notify :: "notice \<Rightarrow> 'd \<Rightarrow> 'd"
  nt_show :: "int \<Rightarrow> 'd \<Rightarrow> 'd"
  nt_dismiss :: "'d \<Rightarrow> 'd"
  nt_new :: "'d \<Rightarrow> 'd"

definition deliver :: "'d notifier \<Rightarrow> warning_effect \<Rightarrow> 'd \<Rightarrow> 'd" where
  "deliver nt = apply_effect (nt_notify nt) (nt_show nt) (nt_dismiss nt)"

datatype thread = NoThread | Delivering

record ('c, 'd) site =
  si_world :: "'c world"
  si_queue :: "warning_effect list"
  si_thread :: thread
  si_desk :: 'd

datatype site_label = Agent label | Delivers warning_effect | Closes | Dies

text \<open>The sender is dropped once the loop has left its last plan behind.\<close>

fun channel_closed :: "process \<Rightarrow> bool" where
  "channel_closed (Up p) = (pr_plan p = [] \<and> pr_flow p = Break)"
| "channel_closed p = False"

fun running :: "process \<Rightarrow> bool" where
  "running (Up p) = True"
| "running p = False"

text \<open>Labels that end the process without waiting for the thread: an error returned from \<open>run\<close> or a panic
  drops the sender, so the thread may get on for a while; a crash stops it where it is.\<close>

fun breaks_off :: "label \<Rightarrow> bool" where
  "breaks_off (ActFails a) = True"
| "breaks_off Panics = True"
| "breaks_off l = False"

fun plain_label :: "label \<Rightarrow> bool" where
  "plain_label Boots = False"
| "plain_label (Acts (Warn x)) = False"
| "plain_label Exits = False"
| "plain_label Crashes = False"
| "plain_label l = (\<not> breaks_off l)"

inductive site_step ::
  "'d notifier \<Rightarrow> 'c env \<Rightarrow> ('c, 'd) site \<Rightarrow> site_label \<Rightarrow> ('c, 'd) site \<Rightarrow> bool" for nt e where
  boots: "world_step e (si_world s) Boots w \<Longrightarrow>
     site_step nt e s (Agent Boots) (s\<lparr>si_world := w, si_queue := [],
       si_thread := (if running (w_proc w) then Delivering else NoThread),
       si_desk := nt_new nt (si_desk s)\<rparr>)"
| warns: "world_step e (si_world s) (Acts (Warn x)) w \<Longrightarrow>
     site_step nt e s (Agent (Acts (Warn x))) (s\<lparr>si_world := w,
       si_queue := (if si_thread s = Delivering then si_queue s @ [x] else si_queue s)\<rparr>)"
| exits: "world_step e (si_world s) Exits w \<Longrightarrow> si_thread s = NoThread \<Longrightarrow>
     site_step nt e s (Agent Exits) (s\<lparr>si_world := w\<rparr>)"
| breaks: "world_step e (si_world s) l w \<Longrightarrow> breaks_off l \<Longrightarrow>
     effects = (if si_thread s = Delivering then take n (si_queue s @ [DismissFinalWarning]) else []) \<Longrightarrow>
     site_step nt e s (Agent l) (s\<lparr>si_world := w, si_queue := [], si_thread := NoThread,
       si_desk := fold (deliver nt) effects (si_desk s)\<rparr>)"
| crashes: "world_step e (si_world s) Crashes w \<Longrightarrow>
     site_step nt e s (Agent Crashes) (s\<lparr>si_world := w, si_queue := [], si_thread := NoThread\<rparr>)"
| works: "world_step e (si_world s) l w \<Longrightarrow> plain_label l \<Longrightarrow>
     site_step nt e s (Agent l) (s\<lparr>si_world := w\<rparr>)"
| delivers: "si_thread s = Delivering \<Longrightarrow> si_queue s = x # rest \<Longrightarrow>
     site_step nt e s (Delivers x) (s\<lparr>si_queue := rest, si_desk := deliver nt x (si_desk s)\<rparr>)"
| closes: "si_thread s = Delivering \<Longrightarrow> si_queue s = [] \<Longrightarrow> channel_closed (w_proc (si_world s)) \<Longrightarrow>
     site_step nt e s Closes (s\<lparr>si_thread := NoThread, si_desk := nt_dismiss nt (si_desk s)\<rparr>)"
| dies: "si_thread s = Delivering \<Longrightarrow>
     site_step nt e s Dies (s\<lparr>si_thread := NoThread, si_queue := [], si_desk := d\<rparr>)"

inductive_cases site_stepE: "site_step nt e s l s'"

inductive_simps site_thread_steps:
  "site_step nt e s (Delivers x) s'"
  "site_step nt e s Closes s'"
  "site_step nt e s Dies s'"

abbreviation site_path ::
  "'d notifier \<Rightarrow> 'c env \<Rightarrow> ('c, 'd) site \<Rightarrow> site_label list \<Rightarrow> ('c, 'd) site \<Rightarrow> bool" where
  "site_path nt e \<equiv> steps (site_step nt e)"

definition site_start :: "'c fs \<Rightarrow> 'd \<Rightarrow> ('c, 'd) site" where
  "site_start fs d = \<lparr>si_world = \<lparr>w_fs = fs, w_proc = Down\<rparr>, si_queue = [], si_thread = NoThread, si_desk = d\<rparr>"

section \<open>What of a path is the agent's, and what the thread's\<close>

fun agent_part :: "site_label \<Rightarrow> label option" where
  "agent_part (Agent l) = Some l"
| "agent_part l = None"

fun warned_part :: "site_label \<Rightarrow> warning_effect option" where
  "warned_part (Agent (Acts (Warn x))) = Some x"
| "warned_part l = None"

fun delivered_part :: "site_label \<Rightarrow> warning_effect option" where
  "delivered_part (Delivers x) = Some x"
| "delivered_part l = None"

definition agent_labels :: "site_label list \<Rightarrow> label list" where
  "agent_labels ls = List.map_filter agent_part ls"

definition warned :: "site_label list \<Rightarrow> warning_effect list" where
  "warned ls = List.map_filter warned_part ls"

definition delivered :: "site_label list \<Rightarrow> warning_effect list" where
  "delivered ls = List.map_filter delivered_part ls"

lemma parts_append [simp]:
  "agent_labels (ls @ ms) = agent_labels ls @ agent_labels ms"
  "warned (ls @ ms) = warned ls @ warned ms" "delivered (ls @ ms) = delivered ls @ delivered ms"
  by (simp_all add: agent_labels_def warned_def delivered_def)

lemma parts_one [simp]:
  "agent_labels [] = []" "agent_labels [l] = (case agent_part l of None \<Rightarrow> [] | Some x \<Rightarrow> [x])"
  "warned [] = []" "warned [l] = (case warned_part l of None \<Rightarrow> [] | Some x \<Rightarrow> [x])"
  "delivered [] = []" "delivered [l] = (case delivered_part l of None \<Rightarrow> [] | Some x \<Rightarrow> [x])"
  by (simp_all add: agent_labels_def warned_def delivered_def List.map_filter_simps split: option.splits)

section \<open>The thread never reaches the loop\<close>

text \<open>A step of the site is a step of the agent or leaves the agent where it is.\<close>

lemma site_step_agent:
  "site_step nt e s (Agent l) s' \<Longrightarrow> world_step e (si_world s) l (si_world s')"
  by (erule site_step.cases) auto

lemma site_step_thread:
  "site_step nt e s l s' \<Longrightarrow> agent_part l = None \<Longrightarrow> si_world s' = si_world s"
  by (erule site_step.cases) auto

lemma site_path_agent:
  "site_path nt e s ls s' \<Longrightarrow> world_path e (si_world s) (agent_labels ls) (si_world s')"
proof (induction rule: steps.induct)
  case (onward s ls s1 l s2)
  show ?case
  proof (cases l)
    case (Agent x)
    then show ?thesis using onward site_step_agent [of nt e s1 x s2] by (auto intro: steps.onward)
  qed (use onward site_step_thread [of nt e s1 l s2] in auto)
qed (simp add: steps.here)

text \<open>Only a running process has a thread.\<close>

definition site_ok :: "('c, 'd) site \<Rightarrow> bool" where
  "site_ok s \<longleftrightarrow> (si_thread s = Delivering \<longrightarrow> running (w_proc (si_world s)))"

lemma plain_stays_up: "world_step e w l w' \<Longrightarrow> plain_label l \<or> (\<exists>x. l = Acts (Warn x)) \<Longrightarrow> running (w_proc w) \<Longrightarrow> running (w_proc w')"
  by (erule world_stepE) auto

lemma site_step_ok: "site_step nt e s l s' \<Longrightarrow> site_ok s \<Longrightarrow> site_ok s'"
  by (erule site_step.cases) (auto simp: site_ok_def intro: plain_stays_up)

lemma site_start_ok: "site_ok (site_start fs d)"
  by (simp add: site_ok_def site_start_def)

lemma site_path_ok: "site_path nt e s ls s' \<Longrightarrow> site_ok s \<Longrightarrow> site_ok s'"
  by (induction rule: steps.induct) (auto intro: site_step_ok)

text \<open>Every step of the agent other than an exit is a step of the site, now.\<close>

lemma agent_step_now:
  assumes "world_step e (si_world s) l w" and "l \<noteq> Exits"
  obtains s' where "site_step nt e s (Agent l) s'" and "si_world s' = w"
proof (cases "plain_label l")
  case True
  then show thesis using assms that site_step.works [of e s l w nt] by simp
next
  case False
  then consider "l = Boots" | x where "l = Acts (Warn x)" | "l = Crashes" | "breaks_off l"
    using assms(2) by (cases l rule: plain_label.cases) auto
  then show thesis
  proof cases
    case 1
    then show thesis using assms(1) by (auto intro: that site_step.boots)
  next
    case (2 x)
    then show thesis using assms(1) by (auto intro: that site_step.warns)
  next
    case 3
    then show thesis using assms(1) by (auto intro: that site_step.crashes)
  next
    case 4
    show thesis by (rule that [OF site_step.breaks [where n = 0, OF assms(1) 4 refl]]) simp
  qed
qed

text \<open>An exit comes after the thread has delivered what is queued, and ended.\<close>

definition thread_label :: "site_label \<Rightarrow> bool" where
  "thread_label l \<longleftrightarrow> agent_part l = None"

lemma queue_delivered:
  "si_thread s = Delivering \<Longrightarrow> \<exists>ls s'. site_path nt e s ls s' \<and> list_all thread_label ls
     \<and> length ls = length (si_queue s) \<and> si_world s' = si_world s \<and> si_thread s' = Delivering \<and> si_queue s' = []"
proof (induction "si_queue s" arbitrary: s)
  case Nil
  then show ?case by (intro exI [of _ "[]"] exI [of _ s]) (auto intro: steps.here)
next
  case (Cons x rest)
  let ?s1 = "s\<lparr>si_queue := rest, si_desk := deliver nt x (si_desk s)\<rparr>"
  have step: "site_step nt e s (Delivers x) ?s1" using Cons by (intro site_step.delivers) auto
  obtain ls s' where "site_path nt e ?s1 ls s'" "list_all thread_label ls" "length ls = length rest"
    "si_world s' = si_world s" "si_thread s' = Delivering" "si_queue s' = []"
    using Cons.hyps(1) [of ?s1] Cons.prems by auto
  then show ?case using path_front [of "site_step nt e", OF step] Cons.hyps(2)
    by (intro exI [of _ "Delivers x # ls"] exI [of _ s']) (simp add: thread_label_def flip: Cons.hyps(2))
qed

lemma exit_closes: "world_step e w Exits w' \<Longrightarrow> running (w_proc w) \<Longrightarrow> channel_closed (w_proc w)"
  by (erule world_stepE) auto

lemma agent_step_lifts:
  assumes "site_ok s" and "world_step e (si_world s) l w"
  obtains ts s' where "site_path nt e s (ts @ [Agent l]) s'" and "si_world s' = w"
    and "list_all thread_label ts" and "l \<noteq> Exits \<Longrightarrow> ts = []" and "length ts \<le> length (si_queue s) + 1"
proof (cases "l = Exits")
  case False
  then obtain s' where "site_step nt e s (Agent l) s'" "si_world s' = w" using agent_step_now [OF assms(2)] by blast
  then show thesis using that [of "[]" s'] path_step [of "site_step nt e"] by simp
next
  case exit: True
  show thesis
  proof (cases "si_thread s")
    case NoThread
    then have "site_step nt e s (Agent l) (s\<lparr>si_world := w\<rparr>)" using assms(2) exit by (auto intro: site_step.exits)
    from path_step [of "site_step nt e", OF this] show thesis
      using that [of "[]" "s\<lparr>si_world := w\<rparr>"] by simp
  next
    case Delivering
    then obtain ls s1 where s1: "site_path nt e s ls s1" "list_all thread_label ls" "length ls = length (si_queue s)"
      "si_world s1 = si_world s" "si_thread s1 = Delivering" "si_queue s1 = []"
      using queue_delivered [of s nt e] by blast
    have "channel_closed (w_proc (si_world s))"
      using assms Delivering exit exit_closes by (auto simp: site_ok_def)
    then have c: "site_step nt e s1 Closes (s1\<lparr>si_thread := NoThread, si_desk := nt_dismiss nt (si_desk s1)\<rparr>)"
      using s1 by (intro site_step.closes) auto
    let ?s2 = "s1\<lparr>si_thread := NoThread, si_desk := nt_dismiss nt (si_desk s1)\<rparr>"
    have "site_step nt e ?s2 (Agent l) (?s2\<lparr>si_world := w\<rparr>)"
      unfolding exit by (rule site_step.exits) (use assms(2) exit s1 in auto)
    with steps.onward [OF s1(1) c] have "site_path nt e s ((ls @ [Closes]) @ [Agent l]) (?s2\<lparr>si_world := w\<rparr>)"
      by (rule steps.onward)
    then show thesis using that [of "ls @ [Closes]"] s1 exit by (simp add: thread_label_def)
  qed
qed

lemma thread_labels_silent: "list_all thread_label ts \<Longrightarrow> agent_labels ts = []"
  by (induction ts) (auto simp: thread_label_def agent_labels_def List.map_filter_simps)

lemma agent_path_lifts:
  "world_path e w ls w' \<Longrightarrow> site_ok s \<Longrightarrow> w = si_world s \<Longrightarrow>
     \<exists>ms s'. site_path nt e s ms s' \<and> agent_labels ms = ls \<and> si_world s' = w'"
proof (induction rule: steps.induct)
  case (here w)
  then show ?case by (intro exI [of _ "[]"] exI [of _ s]) (simp add: steps.here)
next
  case (onward w ls w1 l w2)
  then obtain ms s1 where ms: "site_path nt e s ms s1" "agent_labels ms = ls" "si_world s1 = w1" by blast
  have "site_ok s1" using site_path_ok [OF ms(1) onward.prems(1)] .
  moreover have "world_step e (si_world s1) l w2" using onward.hyps(2) ms(3) by simp
  ultimately obtain ts s2 where ts: "site_path nt e s1 (ts @ [Agent l]) s2" "si_world s2 = w2" "list_all thread_label ts"
    using agent_step_lifts [of s1 e l w2 nt] by blast
  have "site_path nt e s (ms @ ts @ [Agent l]) s2" using path_trans [of "site_step nt e", OF ts(1) ms(1)] .
  then show ?case using ms(2) ts thread_labels_silent by (intro exI [of _ "ms @ ts @ [Agent l]"] exI [of _ s2]) simp
qed

section \<open>The thread delivers in order\<close>

text \<open>Nothing starts or breaks off within one life of the process, and the thread does not die.\<close>

fun orderly :: "site_label \<Rightarrow> bool" where
  "orderly (Agent l) = (l \<noteq> Boots \<and> l \<noteq> Crashes \<and> \<not> breaks_off l)"
| "orderly Dies = False"
| "orderly l = True"

text \<open>Either the thread lives, and has delivered all but what is queued; or it has ended, everything is
  delivered and the final warning taken down, and the loop makes no further call.\<close>

definition in_order :: "'d notifier \<Rightarrow> 'd \<Rightarrow> site_label list \<Rightarrow> ('c, 'd) site \<Rightarrow> bool" where
  "in_order nt d ls s \<longleftrightarrow> warned ls = delivered ls @ si_queue s \<and>
     (case si_thread s of
        Delivering \<Rightarrow> running (w_proc (si_world s)) \<and> Agent Exits \<notin> set ls
          \<and> si_desk s = fold (deliver nt) (delivered ls) d
      | NoThread \<Rightarrow> si_queue s = [] \<and> (channel_closed (w_proc (si_world s)) \<or> w_proc (si_world s) = Down)
          \<and> si_desk s = nt_dismiss nt (fold (deliver nt) (delivered ls) d))"

text \<open>Once the loop has left its last plan behind, the agent only exits.\<close>

lemma closed_stays:
  assumes "world_step e w l w'" and "channel_closed (w_proc w) \<or> w_proc w = Down" and "l \<noteq> Boots"
  shows "(channel_closed (w_proc w') \<or> w_proc w' = Down) \<and> (\<forall>a. l \<noteq> Acts a)"
  using assms by (cases rule: world_stepE) auto

lemma in_order_step:
  assumes "in_order nt d ls s" and "site_step nt e s l s'" and "orderly l"
  shows "in_order nt d (ls @ [l]) s'"
  using assms(2)
proof (cases rule: site_step.cases)
  case (warns x w)
  have "world_step e (si_world s) (Acts (Warn x)) w" using warns by simp
  from plain_stays_up [OF this] closed_stays [OF this] show ?thesis using assms(1) warns
    by (cases "si_thread s") (auto simp: in_order_def)
next
  case (exits w)
  have "world_step e (si_world s) Exits w" using exits by simp
  from closed_stays [OF this] show ?thesis using assms(1) exits by (auto simp: in_order_def)
next
  case (works l' w)
  then have w: "world_step e (si_world s) l' w" and l': "plain_label l'" by simp_all
  have "warned_part (Agent l') = None" and "l' \<noteq> Exits" and "l' \<noteq> Boots"
    using l' by (cases l' rule: plain_label.cases; auto)+
  with plain_stays_up [OF w] closed_stays [OF w] show ?thesis using assms(1) works
    by (cases "si_thread s") (auto simp: in_order_def)
qed (use assms in \<open>auto simp: in_order_def\<close>)

lemma in_order_path:
  assumes "site_path nt e s ls s'" and "list_all orderly ls" and "si_thread s = Delivering"
    and "si_queue s = []" and "running (w_proc (si_world s))"
  shows "in_order nt (si_desk s) ls s'"
  using assms
proof (induction rule: steps.induct)
  case (here s)
  then show ?case by (simp add: in_order_def)
next
  case (onward s ls s1 l s2)
  then have "in_order nt (si_desk s) ls s1" by simp
  then show ?case using in_order_step onward.hyps(2) onward.prems(1) by fastforce
qed

section \<open>Properties\<close>

text \<open>C9. Nor can they delay it: in every reachable situation whatever the agent can do next, locking or
  saving say, it can do at once, whatever the thread is at; only an orderly exit waits, for the effects
  in the queue and the last dismissal.\<close>

theorem notifier_never_delays:
  assumes "site_path nt e (site_start fs d) ms s" and "world_step e (si_world s) l w"
  shows "\<exists>ts s'. site_path nt e s (ts @ [Agent l]) s' \<and> si_world s' = w \<and> list_all thread_label ts
     \<and> (l \<noteq> Exits \<longrightarrow> ts = []) \<and> length ts \<le> length (si_queue s) + 1"
  using agent_step_lifts [OF site_path_ok [OF assms(1) site_start_ok] assms(2)] by metis

text \<open>A machine that restarts decommissioned, on a desktop that records what it is told.\<close>

definition log_notifier :: "warning_effect list notifier" where
  "log_notifier = \<lparr>nt_notify = (\<lambda>n d. d @ [Notify n]), nt_show = (\<lambda>r d. d @ [ShowFinalWarning r]),
     nt_dismiss = (\<lambda>d. d @ [DismissFinalWarning]), nt_new = (\<lambda>d. d)\<rparr>"

definition example_site :: "agent_state \<Rightarrow> (agent_state + string, warning_effect list) site" where
  "example_site st = \<lparr>si_world = example_booted st, si_queue = [], si_thread = Delivering, si_desk = []\<rparr>"

lemma example_site_boots:
  assumes "st_credentials st = Some example_credentials"
  shows "site_step log_notifier example_env (site_start (example_disk st) []) (Agent Boots) (example_site st)"
proof -
  have "world_step example_env (si_world (site_start (example_disk st) [])) Boots (example_booted st)"
    using example_boot [OF assms] by (simp add: site_start_def example_world_def)
  from site_step.boots [of example_env "site_start (example_disk st) []", OF this, of log_notifier] show ?thesis
    by (simp add: example_site_def site_start_def log_notifier_def example_booted_def)
qed

lemma example_released_credentials: "st_credentials example_released = Some example_credentials"
  by (simp add: example_released_def example_managed_def example_loop_def)

theorem notifier_never_delays_witness:
  "\<exists>s' w. site_path log_notifier example_env (example_site example_released) [Agent (Acts (Command AckDecommission))] s'
     \<and> si_world s' = w \<and> si_thread (example_site example_released) = Delivering"
proof -
  let ?s = "example_site example_released"
  note boot = path_step [of "site_step log_notifier example_env", OF example_site_boots [OF example_released_credentials]]
  obtain p where p: "w_proc (si_world ?s) = Up p" "pr_plan p = [Command AckDecommission]"
    by (simp add: example_site_def example_booted_def booted_def example_released_def)
  have "world_step example_env (si_world ?s) (Acts (Command AckDecommission))
      ((si_world ?s)\<lparr>w_proc := Up (perform (Command AckDecommission) (p\<lparr>pr_plan := []\<rparr>))\<rparr>)"
    using p by (intro world_step.act) auto
  from notifier_never_delays [OF boot this] show ?thesis by (auto simp: example_site_def)
qed

text \<open>C19. Over one life of the process, as long as the thread lives, the warnings the loop decided on are
  delivered in order and none is lost, all but those still queued; and when the agent has exited in an
  orderly way the desktop is what the warnings thread makes of all of them, with the dismissal at the
  end, however its steps fell between the loop's.\<close>

theorem warnings_delivered_in_order:
  assumes "site_step nt e s (Agent Boots) s1" and "si_thread s1 = Delivering"
    and "site_path nt e s1 ls s2" and "list_all orderly ls"
  shows "warned ls = delivered ls @ si_queue s2
     \<and> (Agent Exits \<in> set ls \<longrightarrow>
          si_desk s2 = warnings_thread (nt_notify nt) (nt_show nt) (nt_dismiss nt) (warned ls) (si_desk s1))"
proof -
  have "si_queue s1 = [] \<and> running (w_proc (si_world s1))"
    using assms(1,2) by (cases rule: site_stepE) (auto split: if_splits)
  then have "in_order nt (si_desk s1) ls s2" using in_order_path assms(2-4) by blast
  then show ?thesis by (auto simp: in_order_def warnings_thread_def deliver_def [abs_def] split: thread.splits)
qed

text \<open>A signal right after the start: the loop saves and leaves, the thread ends with a dismissal, the agent
  exits.\<close>

theorem warnings_delivered_in_order_witness:
  "\<exists>ls s2. site_path log_notifier example_env (example_site example_managed) ls s2
     \<and> Agent Exits \<in> set ls \<and> si_desk s2 = [DismissFinalWarning]"
proof -
  let ?s1 = "example_site example_managed" and ?nt = log_notifier and ?e = example_env
  have creds: "st_credentials example_managed = Some example_credentials"
    by (simp add: example_managed_def example_loop_def)
  obtain p where p: "w_proc (si_world ?s1) = Up p" "pr_plan p = []" "pr_flow p = Continue"
    by (simp add: example_site_def example_booted_def booted_def example_managed_def example_loop_def)
  let ?p2 = "p\<lparr>pr_plan := [SaveState (ls_state (pr_loop p))], pr_flow := Break\<rparr>"
  let ?w2 = "(si_world ?s1)\<lparr>w_proc := Up ?p2\<rparr>"
  have "world_step ?e (si_world ?s1) (Takes ShutdownRequested) ?w2"
    using p world_step.take [of "si_world ?s1" p ShutdownRequested] by auto
  then have 1: "site_step ?nt ?e ?s1 (Agent (Takes ShutdownRequested)) (?s1\<lparr>si_world := ?w2\<rparr>)"
    by (auto intro: site_step.works)
  let ?st = "ls_state (pr_loop p)"
  let ?w3 = "?w2\<lparr>w_fs := save_at (env_store ?e) ?st Renamed (w_fs ?w2), w_proc := Up (?p2\<lparr>pr_plan := []\<rparr>)\<rparr>"
  have "world_step ?e ?w2 (Acts (SaveState ?st)) ?w3"
    using world_step.act_save [of ?w2 ?p2 ?st "[]" ?e None] by (auto simp: save_ok_fault_free simp del: save_at.simps)
  then have 2: "site_step ?nt ?e (?s1\<lparr>si_world := ?w2\<rparr>) (Agent (Acts (SaveState ?st))) (?s1\<lparr>si_world := ?w3\<rparr>)"
    using site_step.works [of ?e "?s1\<lparr>si_world := ?w2\<rparr>" "Acts (SaveState ?st)" ?w3 ?nt] by simp
  let ?s4 = "?s1\<lparr>si_world := ?w3, si_thread := NoThread, si_desk := [DismissFinalWarning]\<rparr>"
  have 3: "site_step ?nt ?e (?s1\<lparr>si_world := ?w3\<rparr>) Closes ?s4"
    by (simp add: site_thread_steps example_site_def log_notifier_def)
  have 4: "site_step ?nt ?e ?s4 (Agent Exits) (?s4\<lparr>si_world := ?w3\<lparr>w_proc := Down\<rparr>\<rparr>)"
    using world_step.exit [of ?w3 "?p2\<lparr>pr_plan := []\<rparr>" ?e] by (intro site_step.exits) simp_all
  let ?ls = "[Agent (Takes ShutdownRequested), Agent (Acts (SaveState ?st)), Closes, Agent Exits]"
  let ?s5 = "?s4\<lparr>si_world := ?w3\<lparr>w_proc := Down\<rparr>\<rparr>"
  note front = path_front [of "site_step ?nt ?e"]
  have path: "site_path ?nt ?e ?s1 ?ls ?s5"
    using front [OF 1 front [OF 2 front [OF 3 path_step [of "site_step ?nt ?e", OF 4]]]] .
  have "si_thread ?s1 = Delivering" and "list_all orderly ?ls" by (simp_all add: example_site_def)
  from warnings_delivered_in_order [OF example_site_boots [OF creds] this(1) path this(2)]
  have "si_desk ?s5 = [DismissFinalWarning]"
    by (simp add: warnings_thread_def warned_def List.map_filter_simps log_notifier_def example_site_def)
  then show ?thesis using path by (intro exI [of _ ?ls] exI [of _ ?s5]) auto
qed

text \<open>What the next start finds: the state of this process, its credentials and its trusted mark.\<close>

definition resumes :: "'c env \<Rightarrow> agent_proc \<Rightarrow> 'c fs \<Rightarrow> bool" where
  "resumes e p fs \<longleftrightarrow> (\<forall>now m. \<exists>ls plan. run_start (env_store e) now False m fs = Starts (pr_creds p) ls plan
     \<and> ls_state ls = ls_state (pr_loop p) \<and> ls_decommissioned ls = ls_decommissioned (pr_loop p)
     \<and> high_water_mark (ls_clock ls) = high_water_mark (ls_clock (pr_loop p)))"

lemma recorded_resumes:
  assumes "recorded (env_store e) fs = Some (ls_state (pr_loop p))" and "loop_ok (pr_creds p) (pr_loop p)"
  shows "resumes e p fs"
  unfolding resumes_def
proof (intro allI)
  fix now m
  show "\<exists>ls plan. run_start (env_store e) now False m fs = Starts (pr_creds p) ls plan
     \<and> ls_state ls = ls_state (pr_loop p) \<and> ls_decommissioned ls = ls_decommissioned (pr_loop p)
     \<and> high_water_mark (ls_clock ls) = high_water_mark (ls_clock (pr_loop p))"
    using load_recorded [OF assms(1), of now] assms(2) by (simp add: run_start_def guard_new_def Let_def loop_ok_def)
qed

text \<open>C16. What a shutdown leaves behind: whenever a running agent leaves by an orderly exit, the thread of
  the warnings has ended and the state file records exactly the loop's state, so that the next start
  resumes with it; and from every state of a running agent that has not left its loop such an exit can
  be reached by the calls of the loop and the steps of the thread alone, provided that the saves are
  not refused: it finishes its plan, takes the signal, saves, waits for the thread, which delivers
  what is queued and takes the final warning down, and exits. (A shutdown whose save is refused ends
  with the error and the state recorded before.)\<close>

theorem shutdown_keeps_state:
  assumes "codec_ok (store_codec (env_store e))" and "env_exclusive e" and "site_path nt e (site_start fs d) ms s"
    and "w_proc (si_world s) = Up p"
  shows "(\<forall>s'. site_step nt e s (Agent Exits) s' \<longrightarrow> si_thread s' = NoThread \<and> resumes e p (w_fs (si_world s')))
     \<and> (pr_flow p = Continue \<longrightarrow> (\<exists>ts s'. site_path nt e s ts s' \<and> w_proc (si_world s') = Down
          \<and> agent_labels ts = map Acts (pr_plan p) @ [Takes ShutdownRequested, Acts (SaveState (ls_state (pr_loop p))), Exits]
          \<and> si_thread s' = NoThread \<and> resumes e p (w_fs (si_world s'))))"
proof (intro conjI allI impI)
  have path: "world_path e \<lparr>w_fs = fs, w_proc = Down\<rparr> (agent_labels ms) (si_world s)"
    using site_path_agent [OF assms(3)] by (simp add: site_start_def)
  have "loop_ok (pr_creds p) (pr_loop p)"
    using path_ok [OF path assms(1,2)] down_ok assms(4) by (auto simp: world_ok_def proc_ok_def)
  note res = recorded_resumes [OF _ this]
  { fix s' assume exit: "site_step nt e s (Agent Exits) s'"
    have "leaving_ok e (si_world s)" by (rule leaving_ok_path [OF path assms(1,2)]) simp
    moreover have "pr_flow p = Break" "pr_plan p = []" "w_fs (si_world s') = w_fs (si_world s)"
      using site_step_agent [OF exit] assms(4) by (auto elim!: world_stepE)
    ultimately show "resumes e p (w_fs (si_world s'))" using assms(4) res by (simp add: leaving_ok_def)
    show "si_thread s' = NoThread" using exit by (auto elim!: site_stepE) }
  assume "pr_flow p = Continue"
  from shutdown_run [OF assms(1,4) this] obtain w' where
    w': "world_path e (si_world s) (map Acts (pr_plan p) @ [Takes ShutdownRequested, Acts (SaveState (ls_state (pr_loop p))), Exits]) w'"
      "w_proc w' = Down" "recorded (env_store e) (w_fs w') = Some (ls_state (pr_loop p))" by blast
  have ok: "site_ok s" by (rule site_path_ok [OF assms(3) site_start_ok])
  obtain ts s' where ts: "site_path nt e s ts s'" "si_world s' = w'"
    "agent_labels ts = map Acts (pr_plan p) @ [Takes ShutdownRequested, Acts (SaveState (ls_state (pr_loop p))), Exits]"
    using agent_path_lifts [OF w'(1) ok refl] by blast
  have "si_thread s' = NoThread" using site_path_ok [OF ts(1) ok] ts(2) w'(2) by (cases "si_thread s'") (auto simp: site_ok_def)
  then show "\<exists>ts s'. site_path nt e s ts s' \<and> w_proc (si_world s') = Down
      \<and> agent_labels ts = map Acts (pr_plan p) @ [Takes ShutdownRequested, Acts (SaveState (ls_state (pr_loop p))), Exits]
      \<and> si_thread s' = NoThread \<and> resumes e p (w_fs (si_world s'))"
    using ts w'(2) res [OF w'(3)] by blast
qed

theorem shutdown_keeps_state_witness:
  "\<exists>ts s'. site_path log_notifier example_env (example_site example_managed) ts s'
     \<and> agent_labels ts = [Takes ShutdownRequested, Acts (SaveState example_managed), Exits]
     \<and> si_thread s' = NoThread \<and> w_proc (si_world s') = Down"
proof -
  note boot = path_step [of "site_step log_notifier example_env", OF example_site_boots [of example_managed]]
  obtain p where p: "w_proc (si_world (example_site example_managed)) = Up p" "pr_flow p = Continue" "pr_plan p = []"
      "ls_state (pr_loop p) = example_managed"
    by (auto simp: example_site_def example_booted_def booted_def)
  have "st_credentials example_managed = Some example_credentials" by simp
  from shutdown_keeps_state [OF example_codec boot [OF this] p(1)] p(2-4) show ?thesis by auto
qed

end
