(* ===== verification/Durability.thy ===== *)
theory Durability imports Agent begin

text \<open>
  What \<open>Store::save\<close> (\<open>agent/src/storage.rs\<close>) is worth when the power fails. The other theories let a
  crash end the process; the calls it completed keep their effect. Here a save is the list of file
  operations it issues, and a power loss keeps the names of a prefix of them (of all, up to the last
  synchronisation of the directory), while the data written to a file that was never synchronised may
  be anything. The code synchronises nothing: a completed save can leave a state file that does not
  parse, on which the agent refuses to start. Synchronising the temporary file before the rename
  excludes that, and synchronising the directory after it makes a completed save final.
\<close>

section \<open>A save as file operations\<close>

datatype 'c file_op =
    WriteOp string 'c
  | ModeOp string nat
  | RenameOp string string
  | SyncOp string
  | SyncDirOp

definition save_ops :: "'c store \<Rightarrow> agent_state \<Rightarrow> 'c file_op list" where
  "save_ops s st =
     [WriteOp (tmp_path s) (to_json (store_codec s) st)]
     @ (if store_unix s then [ModeOp (tmp_path s) owner_only] else [])
     @ [RenameOp (tmp_path s) (state_path s)]"

fun do_op :: "'c store \<Rightarrow> 'c file_op \<Rightarrow> 'c fs \<Rightarrow> 'c fs" where
  "do_op s (WriteOp p c) fs = fs_write s p c fs"
| "do_op s (ModeOp p m) fs = fs(p := map_option (\<lambda>f. f\<lparr>f_mode := m\<rparr>) (fs p))"
| "do_op s (RenameOp p q) fs = fs_rename p q fs"
| "do_op s (SyncOp p) fs = fs"
| "do_op s SyncDirOp fs = fs"

text \<open>The operations are those of the code: performed, they are a save that nothing refuses.\<close>

lemma save_ops_save: "save s st None fs = (Inr (), fold (do_op s) (save_ops s st) fs)"
  by (simp add: save_def save_ops_def harden_permissions_def Let_def)

section \<open>Losing power\<close>

text \<open>The files whose data may be only in memory.\<close>

fun dirty_op :: "'c file_op \<Rightarrow> string set \<Rightarrow> string set" where
  "dirty_op (WriteOp p c) D = insert p D"
| "dirty_op (ModeOp p m) D = D"
| "dirty_op (RenameOp p q) D = (if p \<in> D then insert q (D - {p}) else D - {p, q})"
| "dirty_op (SyncOp p) D = D - {p}"
| "dirty_op SyncDirOp D = D"

definition dirty :: "'c file_op list \<Rightarrow> string set" where
  "dirty ops = fold dirty_op ops {}"

text \<open>How many of the operations the directory is sure to keep.\<close>

fun kept :: "'c file_op list \<Rightarrow> nat" where
  "kept [] = 0"
| "kept (op # ops) = (if SyncDirOp \<in> set (op # ops) then Suc (kept ops) else 0)"

definition lose_data :: "(string \<Rightarrow> 'c) \<Rightarrow> string set \<Rightarrow> 'c fs \<Rightarrow> 'c fs" where
  "lose_data junk D fs p =
     (if p \<in> D then map_option (\<lambda>f. f\<lparr>f_contents := junk p\<rparr>) (fs p) else fs p)"

definition power_loss :: "'c store \<Rightarrow> 'c file_op list \<Rightarrow> 'c fs \<Rightarrow> 'c fs \<Rightarrow> bool" where
  "power_loss s ops fs fs' \<longleftrightarrow>
     (\<exists>n junk. kept ops \<le> n \<and> n \<le> length ops \<and>
        fs' = lose_data junk (dirty (take n ops)) (fold (do_op s) (take n ops) fs))"

text \<open>Nothing needs to be lost: what the operations did is one of the outcomes.\<close>

lemma nothing_lost: "power_loss s ops fs (fold (do_op s) ops fs)"
proof -
  let ?fs = "fold (do_op s) ops fs"
  have "lose_data (\<lambda>p. f_contents (the (?fs p))) D ?fs = ?fs" for D
    by (rule ext) (auto simp: lose_data_def split: option.splits intro: option.map_ident_strong)
  moreover have "kept ops \<le> length ops" by (induction ops) auto
  ultimately show ?thesis unfolding power_loss_def
    by (intro exI [of _ "length ops"] exI [of _ "\<lambda>p. f_contents (the (?fs p))"]) simp
qed

lemma junk_recorded:
  "state_path s \<in> D \<Longrightarrow> fs (state_path s) = Some f \<Longrightarrow> from_json (store_codec s) (junk (state_path s)) = None \<Longrightarrow>
     load s now False (lose_data junk D fs) = Inl InvalidData"
  by (simp add: load_def read_file_def lose_data_def)

text \<open>The code's operations leave the state file's data unsynchronised.\<close>

lemma save_ops_dirty: "state_path s \<in> dirty (save_ops s st)"
  by (simp add: dirty_def save_ops_def)

lemma save_ops_unkept: "kept (save_ops s st) = 0"
  by (simp add: save_ops_def)

section \<open>Saves that synchronise\<close>

definition synced_ops :: "'c store \<Rightarrow> agent_state \<Rightarrow> 'c file_op list" where
  "synced_ops s st = butlast (save_ops s st) @ [SyncOp (tmp_path s), RenameOp (tmp_path s) (state_path s)]"

definition final_ops :: "'c store \<Rightarrow> agent_state \<Rightarrow> 'c file_op list" where
  "final_ops s st = synced_ops s st @ [SyncDirOp]"

lemma synced_ops_shape:
  "synced_ops s st = (let w = WriteOp (tmp_path s) (to_json (store_codec s) st); m = ModeOp (tmp_path s) owner_only;
     r = [SyncOp (tmp_path s), RenameOp (tmp_path s) (state_path s)]
   in if store_unix s then w # m # r else w # r)"
  by (simp add: synced_ops_def save_ops_def)

lemma sub_state_untouched:
  "state_path s \<notin> D \<Longrightarrow> recorded s (lose_data junk D fs) = recorded s fs"
  by (simp add: recorded_def lose_data_def)

lemma take_cases4: "n \<le> 4 \<Longrightarrow> n = 0 \<or> n = 1 \<or> n = 2 \<or> n = 3 \<or> n = (4 :: nat)"
  by auto

text \<open>With the temporary file synchronised, a power loss leaves the old state or the new one.\<close>

lemma synced_save_is_atomic:
  assumes "codec_ok (store_codec s)" and "power_loss s (synced_ops s st) fs fs'"
  shows "recorded s fs' = Some st \<or> recorded s fs' = recorded s fs"
proof -
  obtain n junk where n: "n \<le> length (synced_ops s st)"
    and fs': "fs' = lose_data junk (dirty (take n (synced_ops s st))) (fold (do_op s) (take n (synced_ops s st)) fs)"
    using assms(2) by (auto simp: power_loss_def)
  have "n \<le> 4" using n by (auto simp: synced_ops_shape Let_def split: if_splits)
  have "state_path s \<notin> dirty (take n (synced_ops s st))"
    using take_cases4 [OF \<open>n \<le> 4\<close>] by (auto simp: synced_ops_shape Let_def dirty_def numeral_eq_Suc)
  then have "recorded s fs' = recorded s (fold (do_op s) (take n (synced_ops s st)) fs)"
    by (simp add: fs' sub_state_untouched)
  then show ?thesis
    using take_cases4 [OF \<open>n \<le> 4\<close>] assms(1)
    by (auto simp: synced_ops_shape Let_def numeral_eq_Suc recorded_def fs_write_def fs_rename_def codec_ok_def)
qed

text \<open>With the directory synchronised too, it leaves the new one.\<close>

lemma final_save_is_final:
  assumes "codec_ok (store_codec s)" and "power_loss s (final_ops s st) fs fs'"
  shows "recorded s fs' = Some st"
proof -
  have k: "kept (final_ops s st) = length (final_ops s st)"
    by (simp add: final_ops_def synced_ops_shape Let_def)
  then obtain junk where "fs' = lose_data junk (dirty (final_ops s st)) (fold (do_op s) (final_ops s st) fs)"
    using assms(2) by (auto simp: power_loss_def)
  moreover have "state_path s \<notin> dirty (final_ops s st)"
    by (simp add: final_ops_def synced_ops_shape Let_def dirty_def)
  ultimately have "recorded s fs' = recorded s (fold (do_op s) (final_ops s st) fs)"
    by (simp add: sub_state_untouched)
  then show ?thesis using assms(1)
    by (simp add: final_ops_def synced_ops_shape Let_def recorded_def fs_write_def fs_rename_def codec_ok_def)
qed

section \<open>Properties\<close>

text \<open>C27. A save that completed is not safe from a power loss. Without a synchronisation it may be undone
  altogether, a decommission already acknowledged with it; and without one between the write and the
  rename the state file may be left with data that does not parse, and the agent then refuses to
  start, whatever was recorded before.\<close>

theorem power_loss_after_save_stops_the_agent:
  assumes "from_json (store_codec s) junk = None"
  shows "\<exists>fs1 fs2. save s st None fs = (Inr (), fs1)
     \<and> power_loss s (save_ops s st) fs fs \<and> power_loss s (save_ops s st) fs fs2
     \<and> fs2 (state_path s) = map_option (\<lambda>f. f\<lparr>f_contents := junk\<rparr>) (fs1 (state_path s))
     \<and> run_start s now False m fs2 = LoadFails InvalidData"
proof -
  let ?fs1 = "fold (do_op s) (save_ops s st) fs"
  let ?fs2 = "lose_data (\<lambda>_. junk) (dirty (save_ops s st)) ?fs1"
  have "power_loss s (save_ops s st) fs ?fs2"
    unfolding power_loss_def
    by (intro exI [of _ "length (save_ops s st)"] exI [of _ "\<lambda>_. junk"]) (simp add: save_ops_unkept)
  moreover have "?fs2 (state_path s) = map_option (\<lambda>f. f\<lparr>f_contents := junk\<rparr>) (?fs1 (state_path s))"
    by (simp add: lose_data_def save_ops_dirty)
  moreover obtain f where "?fs1 (state_path s) = Some f"
    by (cases "store_unix s") (auto simp: save_ops_def fs_rename_def fs_write_def)
  then have "load s now False ?fs2 = Inl InvalidData" using assms save_ops_dirty by (intro junk_recorded)
  then have "run_start s now False m ?fs2 = LoadFails InvalidData" by (simp add: run_start_def)
  moreover have "power_loss s (save_ops s st) fs fs"
    unfolding power_loss_def
    by (intro exI [of _ 0] exI [of _ "\<lambda>_. junk"]) (simp add: save_ops_unkept dirty_def lose_data_def fun_eq_iff)
  ultimately show ?thesis using save_ops_save by blast
qed

text \<open>A decommission that was saved, and is lost with the power.\<close>

theorem power_loss_after_save_stops_the_agent_witness:
  "\<exists>fs. power_loss example_store (save_ops example_store ((agent_state_default 3)\<lparr>st_decommissioned := True\<rparr>)) Map.empty fs
     \<and> run_start example_store 9 False 0 fs = LoadFails InvalidData"
proof -
  have "from_json (store_codec example_store) (Inr []) = None" by (simp add: example_store_def plain_codec_def)
  from power_loss_after_save_stops_the_agent [OF this, of "(agent_state_default 3)\<lparr>st_decommissioned := True\<rparr>" Map.empty 9 0]
  show ?thesis by blast
qed

end
