(* ===== verification/Skew.thy ===== *)
theory Skew imports Agent begin

text \<open>
  A machine whose clock is ahead when it is enrolled. \<open>AgentState::default()\<close> (\<open>storage.rs\<close>) takes the
  local clock both for the time of the last accepted server message, though none was accepted, and for
  the mark of the trusted clock; both only ever move forward. The theory follows what that means for
  the run loop: the server's messages from before that reading are refused as stale, and a session that
  ends before it is over from the start, so a machine is never released until the real time has caught
  up with the reading, whatever the server grants and even when the clock was set right since.
\<close>

section \<open>Being behind a reading\<close>

text \<open>The loop accepts nothing up to a time, has a mark not before it and no session that lasts beyond.\<close>

definition shut_until :: "datetime \<Rightarrow> loop_state \<Rightarrow> bool" where
  "shut_until T ls \<longleftrightarrow>
     T \<le> st_last_applied_at (ls_state ls) \<and> T \<le> high_water_mark (ls_clock ls)
     \<and> \<not> usable_at (st_session (ls_state ls)) T"

text \<open>Server messages of real times up to \<open>T\<close>: those about a session are of such a time, or the session
  does not last beyond it.\<close>

fun dated_until :: "datetime \<Rightarrow> loop_input \<Rightarrow> bool" where
  "dated_until T (EventRecv (Some (SessionState session t)) m) = (t \<le> T \<or> \<not> usable_at session T)"
| "dated_until T i = True"

lemma shut_event:
  assumes "shut_until T ls" and "dated_until T (EventRecv e m)"
  shows "shut_until T (snd (on_event ls e m)) \<and> EnableUsage \<notin> set (fst (on_event ls e m))"
  using assms
  by (cases "(ls, e, m)" rule: on_event.cases)
     (auto simp: handler_defs shut_until_def apply_server_message_def usable_at_def resync_from_server_def split: prod.splits if_splits)

lemma shut_tick:
  assumes "shut_until T ls" and "on_tick ls r = Some (plan, ls')"
  shows "shut_until T ls' \<and> EnableUsage \<notin> set plan"
proof (rule on_tick_cases [of ls r])
  fix t g assume a: "\<not> ls_decommissioned ls" "guard_now (ls_clock ls) r = Some (t, g)"
  have "T \<le> t" using assms(1) guard_now_forward [OF a(2)] by (simp add: shut_until_def)
  then have "\<not> usable_at (st_session (ls_state ls)) t"
    using assms(1) usable_at_antimono [of "st_session (ls_state ls)" t T] by (auto simp: shut_until_def)
  then show ?thesis
    using on_tick_managed [OF a] assms guard_now_mark [OF a(2)] \<open>T \<le> t\<close>
    by (auto simp: shut_until_def usable_at_advance)
qed (use assms in \<open>auto simp: on_tick_def\<close>)

lemma shut_step:
  assumes "shut_until T ls" and "dated_until T i"
  shows "shut_until T (snd (loop_step ls i)) \<and> EnableUsage \<notin> set (fst (loop_step ls i))"
proof (cases i)
  case (EventRecv e m)
  then show ?thesis using shut_event assms by simp
next
  case (TickAt r)
  then show ?thesis using shut_tick [OF assms(1)] assms(1) by (auto split: option.splits)
qed (use assms in auto)

lemma shut_run:
  "shut_until T ls \<Longrightarrow> list_all (dated_until T) is \<Longrightarrow>
     shut_until T (snd (run_out loop_step ls is)) \<and> EnableUsage \<notin> set (fst (run_out loop_step ls is))"
  by (induction "is" arbitrary: ls) (use shut_step in \<open>auto simp del: loop_step_simps\<close>)

section \<open>Enrolling\<close>

lemma fresh_enrollment:
  assumes "codec_ok (store_codec s)" and "recorded s fs = None"
    and "enroll s lib post server token now refused rename_works fault fs = (Inr mid, fs')"
  shows "\<exists>st. recorded s fs' = Some st \<and> st_session st = None \<and> st_last_applied_at st = now \<and> st_high_water_mark st = now"
  using enroll_recorded [OF assms(1,3)] assms(2) by (auto simp: enrolled_state_def agent_state_default_def Let_def)

section \<open>Properties\<close>

text \<open>C25. A machine enrolled for the first time, or over a corrupt state file, while its clock reads \<open>now\<close>
  is not released by any message of the server that is dated before \<open>now\<close> or is about a session that is
  over by then, whatever the clock reads later: with a clock that is ahead, not before the real time has
  caught up with it.\<close>

theorem clock_ahead_at_enrollment_locks_out:
  assumes "codec_ok (store_codec s)" and "recorded s fs = None"
    and "enroll s lib post server token now refused rename_works fault fs = (Inr mid, fs')"
    and "run_start s later refused' m fs' = Starts creds ls plan"
    and "list_all (dated_until now) is"
  shows "EnableUsage \<notin> set (fst (run_out loop_step ls is))
     \<and> \<not> usable_at (st_session (ls_state (snd (run_out loop_step ls is)))) now"
proof -
  obtain st where st: "recorded s fs' = Some st" "st_session st = None" "st_last_applied_at st = now" "st_high_water_mark st = now"
    using fresh_enrollment [OF assms(1-3)] by blast
  have "ls_state ls = st \<and> ls_clock ls = guard_new now m"
  proof (cases refused')
    case True
    then show ?thesis using assms(4) st(1)
      by (auto simp: run_start_def load_def read_file_def recorded_def split: option.splits)
  next
    case False
    then show ?thesis using assms(4) load_recorded [OF st(1), of later] st
      by (auto simp: run_start_def Let_def split: option.splits if_splits)
  qed
  then have "shut_until now ls" using st by (simp add: shut_until_def guard_new_def usable_at_def)
  then show ?thesis using shut_run [OF _ assms(5)] by (auto simp: shut_until_def)
qed

text \<open>A clock one hour ahead: ten minutes after the enrollment the clock is right and a session of half an
  hour is granted; the machine stays locked.\<close>

definition ahead_store_after :: "(agent_state + string) fs" where
  "ahead_store_after = snd (enroll example_store example_enroll_lib
     (\<lambda>url token. Some \<lparr>http_status = 200, http_body = Some ''ok''\<rparr>) ''https://t.example'' ''tok'' (secs 3600) False True None Map.empty)"

definition granted_late :: session_snapshot where
  "granted_late = \<lparr>snap_id = ''s'', started_at = secs 600, expires_at = secs 2400, status = Active, updated_at = secs 600\<rparr>"

theorem clock_ahead_at_enrollment_locks_out_witness:
  "\<exists>creds ls plan. run_start example_store 0 False 0 ahead_store_after = Starts creds ls plan
     \<and> EnableUsage \<notin> set (fst (run_out loop_step ls
         [EventRecv (Some (SessionState (Some granted_late) (secs 600))) 0,
          TickAt \<lparr>os_now = secs 601, mono_elapsed = 1000000000, mono_anchor = 1000000000\<rparr>]))"
proof -
  let ?post = "\<lambda>url token. Some \<lparr>http_status = 200, http_body = Some ''ok''\<rparr>"
  have c: "codec_ok (store_codec example_store)" by (simp add: example_store_def plain_codec_ok)
  have r: "recorded example_store Map.empty = None" by (simp add: recorded_def)
  have e: "enroll example_store example_enroll_lib ?post ''https://t.example'' ''tok'' (secs 3600) False True None Map.empty
      = (Inr ''m-1'', ahead_store_after)"
    by (simp add: ahead_store_after_def enroll_def is_success_def example_enroll_lib_def load_for_enroll_def load_def
        read_file_def save_ok_fault_free del: save_at.simps)
  obtain creds ls plan where s: "run_start example_store 0 False 0 ahead_store_after = Starts creds ls plan"
  proof -
    obtain st where "recorded example_store ahead_store_after = Some st" "st_credentials st \<noteq> None"
      using enroll_recorded [OF c e] by (auto simp: enrolled_state_def Let_def)
    then show thesis using that load_recorded [of example_store ahead_store_after st 0]
      by (auto simp: run_start_def Let_def)
  qed
  have d: "list_all (dated_until (secs 3600)) [EventRecv (Some (SessionState (Some granted_late) (secs 600))) 0,
      TickAt \<lparr>os_now = secs 601, mono_elapsed = 1000000000, mono_anchor = 1000000000\<rparr>]"
    by (simp add: secs_def)
  show ?thesis using clock_ahead_at_enrollment_locks_out [OF c r e s d] s by blast
qed

end
