(* ===== verification/Handshake.thy ===== *)
theory Handshake imports Progress begin

text \<open>
  The decommission across the two programs. The server (\<open>src/api/src/modules/machines/machines.service.ts\<close>)
  keeps a row per machine and deletes it when an acknowledgement arrives over a connection that
  authenticated as that machine; the agent is the one of the theory World, which takes any messages
  from the network, so nothing is assumed of what the server sends (its sending is modelled in the
  theory Removal). Acknowledgements are in flight from the moment the connection task hands them to the
  socket until they arrive, in any order, or are lost. Shown is what the order of the agent's calls is
  for: the server never deletes a machine whose agent could still enforce under that identity, as long
  as no machine is enrolled anew while an acknowledgement of its earlier life is in flight; and that
  without this condition it does, because enrolling leaves \<open>decommissionRequestedAt\<close> set.
\<close>

section \<open>The server's row of a machine\<close>

text \<open>Of the columns, whether \<open>credentialHash\<close>, \<open>credentialRevokedAt\<close> and \<open>decommissionRequestedAt\<close> are set.\<close>

record machine_row =
  row_credential :: bool
  row_revoked :: bool
  row_pending :: bool

definition row_new :: machine_row where
  "row_new = \<lparr>row_credential = False, row_revoked = False, row_pending = False\<rparr>"

definition row_enroll :: "machine_row \<Rightarrow> machine_row" where
  "row_enroll r = r\<lparr>row_credential := True, row_revoked := False\<rparr>"

definition row_revoke :: "machine_row \<Rightarrow> machine_row" where
  "row_revoke r = r\<lparr>row_credential := False, row_revoked := True\<rparr>"

text \<open>\<open>None\<close> is a deleted row. What \<open>requestDecommission\<close> sends is part of the theory Removal.\<close>

definition request_decommission :: "machine_row \<Rightarrow> machine_row option" where
  "request_decommission r =
     (if row_credential r \<and> \<not> row_revoked r then Some (r\<lparr>row_pending := True\<rparr>) else None)"

definition finalize_decommission :: "machine_row option \<Rightarrow> machine_row option" where
  "finalize_decommission row =
     (case row of None \<Rightarrow> None | Some r \<Rightarrow> if row_pending r then None else Some r)"

section \<open>Server, network and agent\<close>

record 'c system =
  sy_world :: "'c world"
  sy_rows :: "string \<Rightarrow> machine_row option"
  sy_acks :: "string list"

datatype system_label =
    ByAgent label
  | ByEnroll label string "string list"
  | AckArrives string
  | AckLost string
  | ByOperator string

text \<open>The acknowledgements a step of the agent puts on the network, by the machine it authenticates as.\<close>

fun sent_acks :: "process \<Rightarrow> label \<Rightarrow> string list" where
  "sent_acks (Up p) (ClientActs out) = replicate (count_list out (Send DecommissionAck)) (machine_id (pr_creds p))"
| "sent_acks p l = []"

text \<open>An enrollment that changes the state file got its identity from the server, which has stored the
  credential in the machine's row; one that does not may have got as far, or not. Its label tells the
  machine, and the acknowledgements in flight at the time.\<close>

inductive system_step :: "'c env \<Rightarrow> 'c system \<Rightarrow> system_label \<Rightarrow> 'c system \<Rightarrow> bool" for e where
  agent: "world_step e (sy_world s) l w \<Longrightarrow> \<not> is_enroll l \<Longrightarrow>
     system_step e s (ByAgent l) (s\<lparr>sy_world := w, sy_acks := sy_acks s @ sent_acks (w_proc (sy_world s)) l\<rparr>)"
| enrolled: "world_step e (sy_world s) l w \<Longrightarrow> is_enroll l \<Longrightarrow> sy_rows s mid = Some r \<Longrightarrow>
     (\<forall>st c. recorded (env_store e) (w_fs w) = Some st \<longrightarrow> st_credentials st = Some c \<longrightarrow>
        recorded (env_store e) (w_fs w) = recorded (env_store e) (w_fs (sy_world s)) \<or> machine_id c = mid) \<Longrightarrow>
     system_step e s (ByEnroll l mid (sy_acks s)) (s\<lparr>sy_world := w, sy_rows := (sy_rows s)(mid \<mapsto> row_enroll r)\<rparr>)"
| not_enrolled: "world_step e (sy_world s) l w \<Longrightarrow> is_enroll l \<Longrightarrow>
     recorded (env_store e) (w_fs w) = recorded (env_store e) (w_fs (sy_world s)) \<Longrightarrow>
     system_step e s (ByEnroll l mid (sy_acks s)) (s\<lparr>sy_world := w\<rparr>)"
| ack_arrives: "sy_acks s = xs @ mid # ys \<Longrightarrow>
     system_step e s (AckArrives mid)
       (s\<lparr>sy_rows := (sy_rows s)(mid := finalize_decommission (sy_rows s mid)), sy_acks := xs @ ys\<rparr>)"
| ack_lost: "sy_acks s = xs @ mid # ys \<Longrightarrow> system_step e s (AckLost mid) (s\<lparr>sy_acks := xs @ ys\<rparr>)"
| creates: "sy_rows s mid = None \<Longrightarrow>
     system_step e s (ByOperator mid) (s\<lparr>sy_rows := (sy_rows s)(mid \<mapsto> row_new)\<rparr>)"
| revokes: "sy_rows s mid = Some r \<Longrightarrow>
     system_step e s (ByOperator mid) (s\<lparr>sy_rows := (sy_rows s)(mid \<mapsto> row_revoke r)\<rparr>)"
| requests: "sy_rows s mid = Some r \<Longrightarrow>
     system_step e s (ByOperator mid) (s\<lparr>sy_rows := (sy_rows s)(mid := request_decommission r)\<rparr>)"

inductive_cases system_stepE: "system_step e s l s'"

abbreviation system_path :: "'c env \<Rightarrow> 'c system \<Rightarrow> system_label list \<Rightarrow> 'c system \<Rightarrow> bool" where
  "system_path e \<equiv> steps (system_step e)"

text \<open>No machine is enrolled anew while an acknowledgement of its earlier life is still in flight. Nothing in
  either program sees to it; what happens otherwise is the last property of this theory.\<close>

fun settled :: "system_label \<Rightarrow> bool" where
  "settled (ByEnroll l mid acks) = (mid \<notin> set acks)"
| "settled l = True"

section \<open>The agent keeps to one identity\<close>

definition own_credentials :: "'c env \<Rightarrow> 'c world \<Rightarrow> bool" where
  "own_credentials e w \<longleftrightarrow>
     (\<forall>p st. w_proc w = Up p \<longrightarrow> recorded (env_store e) (w_fs w) = Some st \<longrightarrow> st_credentials st = Some (pr_creds p))"

lemma perform_creds [simp]: "pr_creds (perform a p) = pr_creds p"
  by (cases a) simp_all

lemma own_kept:
  assumes "own_credentials e w" and "w_fs w' = w_fs w"
    and "\<And>p'. w_proc w' = Up p' \<Longrightarrow> \<exists>p. w_proc w = Up p \<and> pr_creds p = pr_creds p'"
  shows "own_credentials e w'"
  using assms unfolding own_credentials_def by metis

lemma own_down: "w_proc w = Down \<or> w_proc w = Inert \<Longrightarrow> own_credentials e w"
  by (auto simp: own_credentials_def)

lemma own_step:
  assumes "world_step e w l w'" and "codec_ok (store_codec (env_store e))" and "env_exclusive e" and "world_ok e w"
    and "own_credentials e w"
  shows "own_credentials e w'"
  using assms(1)
proof (cases rule: world_step.cases)
  case (boot now refused m creds ls plan)
  then show ?thesis using run_start_Starts [OF boot(4)] by (auto simp: own_credentials_def booted_def)
next
  case (act_save p st plan fault u fs)
  obtain d where p: "proc_ok p" "disk_ok p d" using act_save(3) assms(4) by (auto simp: world_ok_def)
  have "st = ls_state (pr_loop p)" using saved_ok [OF p act_save(4)] by simp
  then have "st_credentials st = Some (pr_creds p)" using p(1) by (simp add: proc_ok_def loop_ok_def)
  moreover have "recorded (env_store e) fs = Some st"
    using completed_save [OF act_save(5)] recorded_save_at [OF assms(2)] by (simp del: save_at.simps)
  ultimately show ?thesis using act_save(1,2) by (simp add: own_credentials_def)
next
  case (take p i plan fl ls)
  then show ?thesis by (intro own_kept [OF assms(5)]) auto
next
  case (act p a plan)
  then show ?thesis by (intro own_kept [OF assms(5)]) auto
next
  case (client p i cmds out st)
  then show ?thesis by (intro own_kept [OF assms(5)]) auto
next
  case (enroll_run post server token now refused rename_works fault res fs)
  then show ?thesis using assms(3) by (intro own_down) simp
next
  case (enroll_crash now refused rename_works state fs server parsed pt)
  then show ?thesis using assms(3) by (intro own_down) simp
qed (simp_all add: assms(5) own_down)

text \<open>The state file does not stand for a managed machine of this identity.\<close>

definition released_from :: "'c env \<Rightarrow> string \<Rightarrow> 'c world \<Rightarrow> bool" where
  "released_from e mid w \<longleftrightarrow>
     (\<forall>st c. recorded (env_store e) (w_fs w) = Some st \<longrightarrow> st_credentials st = Some c \<longrightarrow> machine_id c = mid \<longrightarrow>
        st_decommissioned st)"

lemma no_record_step:
  assumes "world_step e w l w'" and "world_ok e w" and "recorded (env_store e) (w_fs w) = None" and "\<not> is_enroll l"
  shows "recorded (env_store e) (w_fs w') = None"
  using assms(1) by (cases rule: world_step.cases) (use assms(2-4) in \<open>auto simp: world_ok_def\<close>)

lemma released_step:
  assumes "world_step e w l w'" and "codec_ok (store_codec (env_store e))" and "world_ok e w"
    and "own_credentials e w" and "released_from e mid w" and "\<not> is_enroll l"
  shows "released_from e mid w'"
proof (cases "recorded (env_store e) (w_fs w)")
  case None
  then show ?thesis using no_record_step [OF assms(1,3)] assms(6) by (simp add: released_from_def)
next
  case (Some st)
  show ?thesis
    using assms(1-3) Some
  proof (cases rule: disk_step)
    case (saved p)
    then show ?thesis using Some assms(4,5)
      by (auto simp: released_from_def own_credentials_def disk_ok_def proc_ok_def loop_ok_def)
  qed (use assms(5,6) Some in \<open>auto simp: released_from_def\<close>)
qed

section \<open>The invariant\<close>

text \<open>An acknowledgement is in flight only for a machine the agent has been released from.\<close>

definition system_ok :: "'c env \<Rightarrow> 'c system \<Rightarrow> bool" where
  "system_ok e s \<longleftrightarrow> world_ok e (sy_world s) \<and> own_credentials e (sy_world s)
     \<and> (\<forall>mid \<in> set (sy_acks s). released_from e mid (sy_world s))"

lemma sent_released:
  assumes "world_step e w l w'" and "codec_ok (store_codec (env_store e))" and "world_ok e w" and "mid \<in> set (sent_acks (w_proc w) l)"
  shows "released_from e mid w"
proof -
  obtain p out where p: "w_proc w = Up p" "l = ClientActs out" "Send DecommissionAck \<in> set out"
    using assms(4) by (cases "(w_proc w, l)" rule: sent_acks.cases) (auto simp: count_list_0_iff intro: ccontr)
  obtain i cmds st where "feed (env_lib e) (pr_creds p) (pr_client p) (pr_cmds p) i = Some cmds"
    and "client_step (env_lib e) (pr_creds p) (pr_client p) i = (out, st)"
    using assms(1) p(1,2) by (auto simp: world_step_simps)
  moreover obtain d where "recorded (env_store e) (w_fs w) = Some d" "proc_ok p" "disk_ok p d"
    using assms(3) p(1) by (auto simp: world_ok_def)
  ultimately show ?thesis using client_ok [of p d] p(3) by (auto simp: released_from_def)
qed

lemma system_ok_step:
  assumes "system_step e s l s'" and "codec_ok (store_codec (env_store e))" and "env_exclusive e"
    and "system_ok e s" and "settled l"
  shows "system_ok e s'"
  using assms(1)
proof (cases rule: system_step.cases)
  case (agent l' w)
  note step = agent(3)
  note ok = assms(4) [unfolded system_ok_def]
  have "released_from e mid w" if "mid \<in> set (sy_acks s @ sent_acks (w_proc (sy_world s)) l')" for mid
    using that ok sent_released [OF step assms(2)] released_step [OF step assms(2)] agent(4) by auto
  then show ?thesis using agent ok world_step_ok [OF step assms(2,3)] own_step [OF step assms(2,3)]
    by (simp add: system_ok_def)
next
  case (enrolled l' w mid r)
  note ok = assms(4) [unfolded system_ok_def]
  have "mid \<notin> set (sy_acks s)" using enrolled assms(5) by simp
  then have "released_from e i w" if "i \<in> set (sy_acks s)" for i
    using that ok enrolled(6) unfolding released_from_def by (metis (no_types, lifting))
  then show ?thesis using enrolled ok world_step_ok [OF enrolled(3) assms(2,3)] own_step [OF enrolled(3) assms(2,3)]
    by (simp add: system_ok_def)
next
  case (not_enrolled l' w mid)
  then show ?thesis using assms(4) world_step_ok [OF not_enrolled(3) assms(2,3)] own_step [OF not_enrolled(3) assms(2,3)]
    by (simp add: system_ok_def released_from_def)
qed (use assms(4) in \<open>auto simp: system_ok_def\<close>)

lemma system_ok_path:
  assumes "system_path e s ls s'" and "codec_ok (store_codec (env_store e))" and "env_exclusive e"
    and "list_all settled ls" and "system_ok e s"
  shows "system_ok e s'"
  using assms(1,4,5) by (induction rule: steps.induct) (auto intro: system_ok_step [OF _ assms(2,3)])

lemma system_start_ok: "w_proc (sy_world s) = Down \<Longrightarrow> sy_acks s = [] \<Longrightarrow> system_ok e s"
  by (simp add: system_ok_def down_ok own_credentials_def)

text \<open>A life of the agent without an enrollment is one of the whole system.\<close>

lemma agent_path:
  assumes "world_path e w ls w'" and "list_all (\<lambda>l. \<not> is_enroll l) ls" and "sy_world s = w"
  shows "\<exists>s'. system_path e s (map ByAgent ls) s' \<and> sy_world s' = w' \<and> sy_rows s' = sy_rows s
     \<and> set (sy_acks s) \<subseteq> set (sy_acks s')"
  using assms
proof (induction rule: steps.induct)
  case (here w)
  then show ?case by (intro exI [of _ s]) simp
next
  case (onward w ls w1 l w2)
  then obtain s1 where s1: "system_path e s (map ByAgent ls) s1" "sy_world s1 = w1" "sy_rows s1 = sy_rows s"
      "set (sy_acks s) \<subseteq> set (sy_acks s1)" by auto
  then have "system_step e s1 (ByAgent l) (s1\<lparr>sy_world := w2, sy_acks := sy_acks s1 @ sent_acks (w_proc w1) l\<rparr>)"
    using system_step.agent [of e s1 l w2] onward.hyps(2) onward.prems(1) by simp
  from steps.onward [OF s1(1) this] show ?case using s1(3,4)
    by (intro exI [of _ "s1\<lparr>sy_world := w2, sy_acks := sy_acks s1 @ sent_acks (w_proc w1) l\<rparr>"]) auto
qed

lemma ack_reaches_server:
  assumes "world_step e (sy_world s) (ClientActs out) w" and "Send DecommissionAck \<in> set out"
    and "w_proc (sy_world s) = Up p" and "sy_rows s (machine_id (pr_creds p)) = Some r" and "row_pending r"
  shows "\<exists>s1 s'. system_step e s (ByAgent (ClientActs out)) s1 \<and> system_step e s1 (AckArrives (machine_id (pr_creds p))) s'
     \<and> sy_rows s1 = sy_rows s \<and> sy_rows s' (machine_id (pr_creds p)) = None \<and> sy_world s' = w"
proof -
  let ?s1 = "s\<lparr>sy_world := w, sy_acks := sy_acks s @ sent_acks (w_proc (sy_world s)) (ClientActs out)\<rparr>"
  have "machine_id (pr_creds p) \<in> set (sy_acks ?s1)" using assms(2,3) by (simp add: count_list_0_iff)
  then obtain xs ys where "sy_acks ?s1 = xs @ machine_id (pr_creds p) # ys" by (meson split_list)
  from system_step.agent [OF assms(1)] system_step.ack_arrives [OF this, of e] show ?thesis
    using assms(4,5) by (intro exI [of _ ?s1] exI conjI) (auto simp: finalize_decommission_def)
qed

section \<open>At rest\<close>

text \<open>A machine released under its identity makes no further call that blocks or releases it.\<close>

definition at_rest :: "'c env \<Rightarrow> string \<Rightarrow> 'c world \<Rightarrow> bool" where
  "at_rest e mid w \<longleftrightarrow>
     (\<forall>st c ls w'. recorded (env_store e) (w_fs w) = Some st \<longrightarrow> st_credentials st = Some c \<longrightarrow> machine_id c = mid \<longrightarrow>
        world_path e w ls w' \<longrightarrow> list_all (\<lambda>l. \<not> is_enroll l) ls \<longrightarrow> list_all (\<lambda>l. \<not> enforces l) ls)"

lemma released_at_rest:
  assumes "released_from e mid w" and "codec_ok (store_codec (env_store e))" and "env_exclusive e" and "world_ok e w"
  shows "at_rest e mid w"
  unfolding at_rest_def
proof (intro allI impI)
  fix st c ls w'
  assume "recorded (env_store e) (w_fs w) = Some st" "st_credentials st = Some c" "machine_id c = mid"
    and path: "world_path e w ls w'" and ls: "list_all (\<lambda>l. \<not> is_enroll l) ls"
  then have "disk_decommissioned e w" using assms(1) by (simp add: released_from_def disk_decommissioned_def)
  from decommissioned_path [OF path assms(2-4) this ls] show "list_all (\<lambda>l. \<not> enforces l) ls" ..
qed

section \<open>Properties\<close>

text \<open>C3. Provided that no machine is enrolled anew while an acknowledgement of its earlier life is still in
  flight, the server deletes a machine on an acknowledgement only when its removal was requested, and
  never under an agent that enforces: at that moment the agent's state file, if it still belongs to
  that machine, records the decommission, and the agent makes no further call that blocks or releases
  it until it is enrolled anew, whatever messages are lost or late otherwise and whenever the agent
  crashes and restarts.\<close>

theorem server_finalizes_only_inert_machines:
  assumes "codec_ok (store_codec (env_store e))" and "env_exclusive e"
    and "w_proc (sy_world s0) = Down" and "sy_acks s0 = []"
    and "system_path e s0 ls s" and "list_all settled ls"
    and "system_step e s (AckArrives mid) s'" and "sy_rows s mid = Some r" and "sy_rows s' mid = None"
  shows "row_pending r \<and> released_from e mid (sy_world s') \<and> at_rest e mid (sy_world s')"
proof -
  have ok: "system_ok e s" by (rule system_ok_path [OF assms(5,1,2,6) system_start_ok [OF assms(3,4)]])
  have "row_pending r \<and> released_from e mid (sy_world s') \<and> sy_world s' = sy_world s" using assms(7)
  proof (cases rule: system_step.cases)
    case (ack_arrives xs ys)
    then show ?thesis using ok assms(8,9)
      by (auto simp: system_ok_def finalize_decommission_def split: if_splits)
  qed
  then show ?thesis using released_at_rest [OF _ assms(1,2), of mid] ok by (auto simp: system_ok_def)
qed

text \<open>The machine m-1, enrolled and asked to leave, is released and acknowledges.\<close>

theorem server_finalizes_only_inert_machines_witness:
  "\<exists>ls s s'. system_path example_env
       \<lparr>sy_world = example_world example_released,
         sy_rows = [''m-1'' \<mapsto> (row_enroll row_new)\<lparr>row_pending := True\<rparr>], sy_acks = []\<rparr> ls s
     \<and> system_step example_env s (AckArrives ''m-1'') s' \<and> sy_rows s' ''m-1'' = None
     \<and> at_rest example_env ''m-1'' (sy_world s')"
proof -
  let ?s = "\<lparr>sy_world = example_world example_released,
    sy_rows = [''m-1'' \<mapsto> (row_enroll row_new)\<lparr>row_pending := True\<rparr>], sy_acks = []\<rparr>"
  obtain w p out w' where path: "world_path example_env (example_world example_released) [Boots, Acts (Command AckDecommission)] w"
    and step: "world_step example_env w (ClientActs out) w'" and out: "Send DecommissionAck \<in> set out"
    and p: "w_proc w = Up p" "pr_creds p = example_credentials" by (rule example_ack)
  have m: "machine_id (pr_creds p) = ''m-1''" using p(2) by (simp add: example_credentials_def)
  obtain s1 where s1: "system_path example_env ?s (map ByAgent [Boots, Acts (Command AckDecommission)]) s1"
    "sy_world s1 = w" "sy_rows s1 = sy_rows ?s" using agent_path [OF path, of ?s] by auto
  obtain s2 s3 where s2: "system_step example_env s1 (ByAgent (ClientActs out)) s2" "sy_rows s2 = sy_rows s1"
    and s3: "system_step example_env s2 (AckArrives ''m-1'') s3" "sy_rows s3 ''m-1'' = None"
    using ack_reaches_server [of example_env s1 out w' p] step out p(1) s1(2,3) m by auto
  have whole: "system_path example_env ?s ([ByAgent Boots, ByAgent (Acts (Command AckDecommission))] @ [ByAgent (ClientActs out)]) s2"
    using steps.onward [OF s1(1) s2(1)] by simp
  have "at_rest example_env ''m-1'' (sy_world s3)"
    using server_finalizes_only_inert_machines [OF example_codec _ _ whole _ s3(1) _ s3(2)] s1(3) s2(2) by simp
  then show ?thesis using whole s3 by blast
qed

text \<open>A process started on a managed state blocks at its first tick.\<close>

lemma managed_enforces:
  assumes "w_proc w = Down" and "recorded (env_store e) (w_fs w) = Some st" and "st_credentials st = Some c"
    and "\<not> st_decommissioned st" and "st_session st = None"
  shows "\<exists>r w'. world_path e w [Boots, Takes (TickAt r), Acts DisableUsage] w'"
proof -
  let ?r = "\<lparr>os_now = st_high_water_mark st, mono_elapsed = 0, mono_anchor = 0\<rparr>"
  let ?ls = "\<lparr>ls_state = st, ls_clock = guard_new (st_high_water_mark st) 0, ls_blocked = True,
    ls_warnings = warnings_new, ls_decommissioned = False, ls_events_closed = False\<rparr>"
  let ?w1 = "w\<lparr>w_proc := Up (booted c ?ls [])\<rparr>"
  have "run_start (env_store e) 0 False 0 (w_fs w) = Starts c ?ls []"
    using load_recorded [OF assms(2), of 0] assms(3,4) by (simp add: run_start_def Let_def)
  then have boot: "world_step e w Boots ?w1" by (rule world_step.boot [OF assms(1)])
  have g: "guard_now (ls_clock ?ls) ?r = Some (st_high_water_mark st, \<lparr>high_water_mark = st_high_water_mark st, anchor = 0\<rparr>)"
    by (simp add: guard_now_def guard_new_def)
  have "\<not> ls_decommissioned ?ls" by simp
  from on_tick_managed [OF this g] obtain plan ls where tick: "on_tick ?ls ?r = Some (DisableUsage # plan, ls)"
    using assms(5) by auto
  have b: "w_proc ?w1 = Up (booted c ?ls [])" "pr_plan (booted c ?ls []) = []" "pr_flow (booted c ?ls []) = Continue"
    "pr_loop (booted c ?ls []) = ?ls" by (simp_all add: booted_def)
  obtain w2 p2 where w2: "world_step e ?w1 (Takes (TickAt ?r)) w2" "w_proc w2 = Up p2" "pr_plan p2 = DisableUsage # plan"
    using take_tick [OF b(1-3), of ?r "DisableUsage # plan" ls e] tick b(4) by auto
  have "world_step e w2 (Acts DisableUsage) (w2\<lparr>w_proc := Up (perform DisableUsage (p2\<lparr>pr_plan := plan\<rparr>))\<rparr>)"
    using w2 by (intro world_step.act) auto
  from world_path_front [OF boot world_path_front [OF w2(1) world_path_step [OF this]]] show ?thesis by blast
qed

text \<open>C21. Without that condition it goes wrong: when a machine whose removal is pending is enrolled anew with
  success while an acknowledgement of its earlier life is in flight, the acknowledgement, when it
  arrives, deletes the machine under its new agent, since enrolling does not clear the request; the
  agent's state file records it as managed under that very identity, and it blocks the machine.\<close>

theorem late_acknowledgement_strands_agent:
  assumes "codec_ok (store_codec (env_store e))" and "w_proc (sy_world s) = Down"
    and "mid \<in> set (sy_acks s)" and "sy_rows s mid = Some r" and "row_pending r"
    and "enroll (env_store e) (env_enroll e) post server token now refused rename_works fault (w_fs (sy_world s)) = (Inr mid, fs)"
  shows "\<exists>s1 s2. system_step e s (ByEnroll (Enrolls (Inr mid)) mid (sy_acks s)) s1 \<and> system_step e s1 (AckArrives mid) s2
     \<and> sy_rows s1 mid \<noteq> None \<and> sy_rows s2 mid = None
     \<and> \<not> released_from e mid (sy_world s2) \<and> \<not> at_rest e mid (sy_world s2)"
proof -
  let ?w = "(sy_world s)\<lparr>w_fs := fs\<rparr>"
  obtain st c where st: "recorded (env_store e) fs = Some st" "st_credentials st = Some c" "machine_id c = mid"
      "\<not> st_decommissioned st" "st_session st = None"
    using enroll_recorded [OF assms(1,6)] by (auto simp: enrolled_state_def Let_def)
  let ?s1 = "s\<lparr>sy_world := ?w, sy_rows := (sy_rows s)(mid \<mapsto> row_enroll r)\<rparr>"
  have "world_step e (sy_world s) (Enrolls (Inr mid)) ?w" using assms(2,6) by (intro world_step.enroll_run) auto
  then have s1: "system_step e s (ByEnroll (Enrolls (Inr mid)) mid (sy_acks s)) ?s1"
    by (rule system_step.enrolled) (use assms(4) st in auto)
  obtain xs ys where "sy_acks ?s1 = xs @ mid # ys" using split_list [OF assms(3)] by auto
  note s2 = system_step.ack_arrives [OF this, of e]
  let ?s2 = "?s1\<lparr>sy_rows := (sy_rows ?s1)(mid := finalize_decommission (sy_rows ?s1 mid)), sy_acks := xs @ ys\<rparr>"
  have row: "sy_rows ?s2 mid = None" using assms(5) by (simp add: finalize_decommission_def row_enroll_def)
  have "\<not> released_from e mid (sy_world ?s2)" using st by (auto simp: released_from_def)
  moreover have "\<not> at_rest e mid (sy_world ?s2)"
  proof -
    obtain rd w' where path: "world_path e ?w [Boots, Takes (TickAt rd), Acts DisableUsage] w'"
      using managed_enforces [of ?w e st c] assms(2) st by auto
    show ?thesis
    proof
      assume "at_rest e mid (sy_world ?s2)"
      moreover have "recorded (env_store e) (w_fs (sy_world ?s2)) = Some st" "world_path e (sy_world ?s2) [Boots, Takes (TickAt rd), Acts DisableUsage] w'"
        using st path by simp_all
      ultimately have "list_all (\<lambda>l. \<not> is_enroll l) [Boots, Takes (TickAt rd), Acts DisableUsage]
          \<longrightarrow> list_all (\<lambda>l. \<not> enforces l) [Boots, Takes (TickAt rd), Acts DisableUsage]"
        using st(2,3) unfolding at_rest_def by blast
      then show False by simp
    qed
  qed
  ultimately show ?thesis using s1 s2 row by (intro exI [of _ ?s1] exI [of _ ?s2]) simp
qed

text \<open>The machine m-1 once more: released, its acknowledgement still under way, its agent stopped, it is
  enrolled anew before the acknowledgement arrives.\<close>

fun spares_disk :: "label \<Rightarrow> bool" where
  "spares_disk Boots = True"
| "spares_disk (Acts (Command cmd)) = True"
| "spares_disk (ClientActs out) = True"
| "spares_disk l = False"

lemma spares_disk_path: "world_path e w ls w' \<Longrightarrow> list_all spares_disk ls \<Longrightarrow> w_fs w' = w_fs w"
proof (induction rule: steps.induct)
  case (onward w ls w1 l w2)
  then have "w_fs w2 = w_fs w1" by (auto elim: world_stepE)
  with onward show ?case by simp
qed simp

definition pending_system :: "(agent_state + string) system" where
  "pending_system = \<lparr>sy_world = example_world example_released,
     sy_rows = [''m-1'' \<mapsto> (row_enroll row_new)\<lparr>row_pending := True\<rparr>], sy_acks = []\<rparr>"

lemma pending_system_acks:
  obtains ls s where "system_path example_env pending_system ls s" and "w_proc (sy_world s) = Down"
    and "''m-1'' \<in> set (sy_acks s)" and "sy_rows s = sy_rows pending_system"
    and "w_fs (sy_world s) = example_disk example_released"
proof -
  obtain w p out w' where path: "world_path example_env (example_world example_released) [Boots, Acts (Command AckDecommission)] w"
    and step: "world_step example_env w (ClientActs out) w'" and out: "Send DecommissionAck \<in> set out"
    and p: "w_proc w = Up p" "pr_creds p = example_credentials" by (rule example_ack)
  have fs: "w_fs w' = example_disk example_released"
    using spares_disk_path [OF steps.onward [OF path step]] by (simp add: example_world_def)
  obtain s1 where s1: "system_path example_env pending_system (map ByAgent [Boots, Acts (Command AckDecommission)]) s1"
    "sy_world s1 = w" "sy_rows s1 = sy_rows pending_system"
    using agent_path [OF path, of pending_system] by (auto simp: pending_system_def)
  obtain s2 where s2: "system_step example_env s1 (ByAgent (ClientActs out)) s2" "sy_world s2 = w'" "sy_rows s2 = sy_rows s1"
      "''m-1'' \<in> set (sy_acks s2)"
    using system_step.agent [of example_env s1 "ClientActs out" w'] step p out s1(2)
    by (force simp: count_list_0_iff example_credentials_def)
  have up: "w_proc w' \<noteq> Down" using step by (auto elim: world_stepE)
  obtain s3 where s3: "system_step example_env s2 (ByAgent Crashes) s3" "sy_world s3 = w'\<lparr>w_proc := Down\<rparr>"
      "sy_rows s3 = sy_rows s2" "set (sy_acks s2) \<subseteq> set (sy_acks s3)"
    using system_step.agent [of example_env s2 Crashes "w'\<lparr>w_proc := Down\<rparr>"] world_step.crash [OF up] s2(2) by force
  from that [OF steps.onward [OF steps.onward [OF s1(1) s2(1)] s3(1)]] show thesis
    using s1(3) s2 s3 fs by auto
qed

theorem late_acknowledgement_strands_agent_witness:
  "\<exists>ls s s1 s2. system_path example_env pending_system ls s
     \<and> system_step example_env s (ByEnroll (Enrolls (Inr ''m-1'')) ''m-1'' (sy_acks s)) s1
     \<and> system_step example_env s1 (AckArrives ''m-1'') s2
     \<and> sy_rows s2 ''m-1'' = None \<and> \<not> at_rest example_env ''m-1'' (sy_world s2)"
proof -
  obtain ls s where s: "system_path example_env pending_system ls s" "w_proc (sy_world s) = Down"
    "''m-1'' \<in> set (sy_acks s)" "sy_rows s = sy_rows pending_system" "w_fs (sy_world s) = example_disk example_released"
    by (rule pending_system_acks)
  let ?post = "\<lambda>url token. Some \<lparr>http_status = 200, http_body = Some ''ok''\<rparr>"
  have "load_for_enroll example_store 9 False True (example_disk example_released) = (Inr example_released, example_disk example_released)"
    using load_recorded [of example_store "example_disk example_released" example_released 9]
      example_recorded(2) [of example_released] by (simp add: load_for_enroll_def example_env_def)
  then obtain fs where "enroll (env_store example_env) (env_enroll example_env) ?post ''https://t.example'' ''tok'' 9 False True None
      (w_fs (sy_world s)) = (Inr ''m-1'', fs)"
    using s(5) by (simp add: enroll_def is_success_def example_env_def example_enroll_lib_def save_ok_fault_free)
  from late_acknowledgement_strands_agent [OF example_codec(1) s(2,3) _ _ this]
  obtain s1 s2 where "system_step example_env s (ByEnroll (Enrolls (Inr ''m-1'')) ''m-1'' (sy_acks s)) s1"
    "system_step example_env s1 (AckArrives ''m-1'') s2" "sy_rows s2 ''m-1'' = None" "\<not> at_rest example_env ''m-1'' (sy_world s2)"
    using s(4) by (auto simp: pending_system_def)
  with s(1) show ?thesis by blast
qed

end
