(* ===== verification/Removal.thy ===== *)
theory Removal imports Handshake begin

text \<open>
  The removal of a machine with the connection modelled on both sides: the agent of the theory World, and
  of the server the part of \<open>realtime.gateway.ts\<close>, \<open>machines.service.ts\<close> and
  \<open>connection-registry.service.ts\<close> that concerns this machine. Every text and every close frame the
  agent reads was sent by the server before, in that order, and every message the server acts on was
  sent by the agent; what is under way on a connection is lost when it ends. A message that arrives
  before the server has verified the credential is dropped, since its listener is only attached then
  (the comments of \<open>realtime.gateway.ts\<close> and of \<open>client.rs\<close> say so). The machine stays enrolled as it is
  (enrolling anew is in the theories Handshake and Registry), requests of the server do not overlap, and
  the agent's secret is the row's unless the credential was revoked. Shown is that a removal can always
  be completed over a connection that is open; and that an acknowledgement sent while connecting, which
  the server drops, is not sent again on that connection, nor heard on any later one it is early on.
\<close>

section \<open>The two sides\<close>

datatype downlink = Msg server_to_agent | CloseLink "16 word"

text \<open>The server's side of the connection: none; the credential being verified; refused; registered, with the
  listener attached; the greeting sent; closed by the server, while the listener stays attached.\<close>

datatype link = NoLink | Verifying | Refused | Listening | Told | Shut

definition registered :: "link \<Rightarrow> bool" where
  "registered l \<longleftrightarrow> l = Listening \<or> l = Told"

definition attached :: "link \<Rightarrow> bool" where
  "attached l \<longleftrightarrow> l = Listening \<or> l = Told \<or> l = Shut"

record 'c removal =
  rm_world :: "'c world"
  rm_row :: "machine_row option"
  rm_link :: link
  rm_up :: "agent_to_server list"
  rm_down :: "downlink list"

section \<open>The server's operations\<close>

text \<open>\<open>sendToMachine\<close> and \<open>disconnectMachine\<close>, over the connection registered for the machine.\<close>

definition send_to_machine :: "server_to_agent \<Rightarrow> 'c removal \<Rightarrow> 'c removal" where
  "send_to_machine m s = (if registered (rm_link s) then s\<lparr>rm_down := rm_down s @ [Msg m]\<rparr> else s)"

definition disconnect_machine :: "16 word \<Rightarrow> 'c removal \<Rightarrow> 'c removal" where
  "disconnect_machine code s =
     (if registered (rm_link s) then s\<lparr>rm_link := Shut, rm_down := rm_down s @ [CloseLink code]\<rparr> else s)"

text \<open>\<open>requestDecommission\<close>: a machine without a usable credential is deleted outright, any other is marked
  and told, if it is connected.\<close>

definition request_removal :: "'c removal \<Rightarrow> 'c removal" where
  "request_removal s =
     (case rm_row s of
        None \<Rightarrow> s
      | Some r \<Rightarrow>
          (case request_decommission r of
             None \<Rightarrow> (disconnect_machine 4002 s)\<lparr>rm_row := None\<rparr>
           | Some r' \<Rightarrow> send_to_machine DecommissionMsg (s\<lparr>rm_row := Some r'\<rparr>)))"

text \<open>\<open>revokeCredential\<close>.\<close>

definition revoke_machine :: "'c removal \<Rightarrow> 'c removal" where
  "revoke_machine s =
     (case rm_row s of None \<Rightarrow> s | Some r \<Rightarrow> disconnect_machine 4001 (s\<lparr>rm_row := Some (row_revoke r)\<rparr>))"

text \<open>\<open>finalizeDecommission\<close>, on an acknowledgement.\<close>

definition finalize_removal :: "'c removal \<Rightarrow> 'c removal" where
  "finalize_removal s =
     (case rm_row s of
        None \<Rightarrow> s
      | Some r \<Rightarrow>
          (case finalize_decommission (Some r) of
             None \<Rightarrow> disconnect_machine 4003 (s\<lparr>rm_row := None\<rparr>)
           | Some r' \<Rightarrow> s))"

definition row_usable :: "machine_row option \<Rightarrow> bool" where
  "row_usable row \<longleftrightarrow> (case row of None \<Rightarrow> False | Some r \<Rightarrow> row_credential r \<and> \<not> row_revoked r)"

text \<open>\<open>authenticateAgent\<close> up to the listener (the check of the secret itself is in the theory Registry), and from there to the greeting: a machine whose removal is
  pending is told to leave, any other the session there is (\<open>session\<close>, at the time \<open>t\<close>).\<close>

definition verify_connection :: "'c removal \<Rightarrow> 'c removal" where
  "verify_connection s =
     (if row_usable (rm_row s) then s\<lparr>rm_link := Listening\<rparr>
      else s\<lparr>rm_link := Refused, rm_down := rm_down s @ [CloseLink 4001]\<rparr>)"

definition greet_agent :: "session_snapshot option \<Rightarrow> datetime \<Rightarrow> machine_row \<Rightarrow> 'c removal \<Rightarrow> 'c removal" where
  "greet_agent session t r s =
     s\<lparr>rm_link := Told,
       rm_down := rm_down s @ [Msg (if row_pending r then DecommissionMsg else SessionStateMsg session t)]\<rparr>"

section \<open>The agent on its connection\<close>

text \<open>What an input of the connection task takes from the server, as what is left; \<open>json\<close> is the JSON of a message.
  Breaking connections are the network's.\<close>

fun takes_down :: "(server_to_agent \<Rightarrow> string) \<Rightarrow> client_input \<Rightarrow> downlink list \<Rightarrow> downlink list option" where
  "takes_down json (Serve (Incoming (TextFrame txt) now ok)) (Msg m # ds) = (if json m = txt then Some ds else None)"
| "takes_down json (Serve (Incoming (TextFrame txt) now ok)) ds = None"
| "takes_down json (Serve (Incoming (CloseFrame code) now ok)) (CloseLink c # ds) = (if code = Some c then Some ds else None)"
| "takes_down json (Serve (Incoming (CloseFrame code) now ok)) ds = None"
| "takes_down json i ds = Some ds"

fun sent :: "client_act list \<Rightarrow> agent_to_server list" where
  "sent [] = []"
| "sent (Send m # out) = m # sent out"
| "sent (a # out) = sent out"

definition cut :: "'c removal \<Rightarrow> 'c removal" where
  "cut s = s\<lparr>rm_link := NoLink, rm_up := [], rm_down := []\<rparr>"

text \<open>The connection after a step of the task: a dial that connects opens it, and it lasts until the task
  leaves it.\<close>

fun carry :: "client_state \<Rightarrow> client_state \<Rightarrow> agent_to_server list \<Rightarrow> downlink list \<Rightarrow> 'c removal \<Rightarrow> 'c removal" where
  "carry (Dialing b a) (Serving b' c) up down s = s\<lparr>rm_link := Verifying, rm_up := up, rm_down := []\<rparr>"
| "carry (Serving b a) (Serving b' c) up down s = s\<lparr>rm_up := rm_up s @ up, rm_down := down\<rparr>"
| "carry st st' up down s = cut s"

fun is_up :: "process \<Rightarrow> bool" where
  "is_up (Up p) = True"
| "is_up p = False"

text \<open>The labels of World that are steps of the process other than those of the connection task.\<close>

fun by_process :: "label \<Rightarrow> bool" where
  "by_process (ClientActs out) = False"
| "by_process (Enrolls res) = False"
| "by_process EnrollCrashes = False"
| "by_process l = True"

datatype removal_label =
    ByProcess label
  | ByClient client_input
  | Unheard
  | Verifies "agent_to_server list"
  | Greets
  | HeartbeatHeard
  | AckHeard
  | Requests
  | Revokes

text \<open>The label of the verification shows what had not arrived by then.\<close>

inductive removal_step ::
  "(server_to_agent \<Rightarrow> string) \<Rightarrow> 'c env \<Rightarrow> 'c removal \<Rightarrow> removal_label \<Rightarrow> 'c removal \<Rightarrow> bool" for json e where
  process: "world_step e (rm_world s) l w \<Longrightarrow> by_process l \<Longrightarrow>
     s' = s\<lparr>rm_world := w\<rparr> \<Longrightarrow>
     removal_step json e s (ByProcess l) (if is_up (w_proc w) then s' else cut s')"
| client: "w_proc (rm_world s) = Up p \<Longrightarrow> feed (env_lib e) (pr_creds p) (pr_client p) (pr_cmds p) i = Some cmds \<Longrightarrow>
     client_step (env_lib e) (pr_creds p) (pr_client p) i = (out, st) \<Longrightarrow> takes_down json i (rm_down s) = Some down \<Longrightarrow>
     p' = p\<lparr>pr_client := st, pr_cmds := cmds, pr_events := pr_events p @ emitted out\<rparr> \<Longrightarrow>
     removal_step json e s (ByClient i) (carry (pr_client p) st (sent out) down (s\<lparr>rm_world := (rm_world s)\<lparr>w_proc := Up p'\<rparr>\<rparr>))"
| unheard: "rm_link s = Verifying \<Longrightarrow> rm_up s = m # up \<Longrightarrow> removal_step json e s Unheard (s\<lparr>rm_up := up\<rparr>)"
| verifies: "rm_link s = Verifying \<Longrightarrow> removal_step json e s (Verifies (rm_up s)) (verify_connection s)"
| greets: "rm_link s = Listening \<Longrightarrow> rm_row s = Some r \<Longrightarrow> removal_step json e s Greets (greet_agent session t r s)"
| heartbeat: "attached (rm_link s) \<Longrightarrow> rm_row s = Some r \<Longrightarrow> rm_up s = Heartbeat at v # up \<Longrightarrow>
     removal_step json e s HeartbeatHeard (send_to_machine (HeartbeatAckMsg t) (s\<lparr>rm_up := up\<rparr>))"
| acknowledged: "attached (rm_link s) \<Longrightarrow> rm_up s = DecommissionAck # up \<Longrightarrow>
     removal_step json e s AckHeard (finalize_removal (s\<lparr>rm_up := up\<rparr>))"
| requests: "rm_row s = Some r \<Longrightarrow> removal_step json e s Requests (request_removal s)"
| revokes: "rm_row s = Some r \<Longrightarrow> removal_step json e s Revokes (revoke_machine s)"

inductive_cases removal_stepE: "removal_step json e s l s'"

abbreviation removal_path ::
  "(server_to_agent \<Rightarrow> string) \<Rightarrow> 'c env \<Rightarrow> 'c removal \<Rightarrow> removal_label list \<Rightarrow> 'c removal \<Rightarrow> bool" where
  "removal_path json e \<equiv> steps (removal_step json e)"

lemmas removal_path_step = path_step [of "removal_step json e" for json e]
  and removal_path_front = path_front [of "removal_step json e" for json e]
  and removal_path_trans = path_trans [of "removal_step json e" for json e]

text \<open>Its steps are steps of the agent of the theory World, or leave it alone.\<close>

lemma carry_keeps [simp]:
  "rm_world (carry st st' up down s) = rm_world s" "rm_row (carry st st' up down s) = rm_row s"
  by (cases "(st, st', up, down, s)" rule: carry.cases; simp add: cut_def)+

lemma cut_keeps [simp]:
  "rm_world (cut s) = rm_world s" "rm_row (cut s) = rm_row s" "rm_link (cut s) = NoLink" "rm_up (cut s) = []" "rm_down (cut s) = []"
  by (simp_all add: cut_def)

lemma server_keeps_world [simp]:
  "rm_world (send_to_machine m s) = rm_world s" "rm_world (disconnect_machine code s) = rm_world s"
  "rm_world (request_removal s) = rm_world s" "rm_world (revoke_machine s) = rm_world s"
  "rm_world (finalize_removal s) = rm_world s" "rm_world (verify_connection s) = rm_world s"
  "rm_world (greet_agent session t r s) = rm_world s"
  by (simp_all add: send_to_machine_def disconnect_machine_def request_removal_def revoke_machine_def finalize_removal_def
      verify_connection_def greet_agent_def split: option.split)

lemma removal_step_world:
  assumes "removal_step json e s l s'"
  shows "rm_world s' = rm_world s \<or> (\<exists>l'. world_step e (rm_world s) l' (rm_world s') \<and> \<not> is_enroll l')"
  using assms
proof (cases rule: removal_step.cases)
  case (process l' w s1)
  then have "\<not> is_enroll l'" by (cases l') auto
  then show ?thesis using process by auto
next
  case (client p i cmds out st down p')
  then have "world_step e (rm_world s) (ClientActs out) (rm_world s')"
    using world_step.client [OF client(3-5)] by simp
  then show ?thesis by auto
qed auto

section \<open>Invariants\<close>

text \<open>There is a connection exactly while the task serves one; the server closes none of a machine with a
  usable credential; and an acknowledgement is under way only when the disk says decommissioned.\<close>

fun serving :: "process \<Rightarrow> bool" where
  "serving (Up p) = (\<exists>b c. pr_client p = Serving b c)"
| "serving q = False"

definition removal_ok :: "'c env \<Rightarrow> 'c removal \<Rightarrow> bool" where
  "removal_ok e s \<longleftrightarrow>
     world_ok e (rm_world s)
     \<and> (if serving (w_proc (rm_world s)) then rm_link s \<noteq> NoLink else rm_link s = NoLink \<and> rm_up s = [] \<and> rm_down s = [])
     \<and> (row_usable (rm_row s) \<longrightarrow> rm_link s \<noteq> Refused \<and> rm_link s \<noteq> Shut \<and> rm_down s \<in> lists (range Msg))
     \<and> (DecommissionAck \<in> set (rm_up s) \<longrightarrow> disk_decommissioned e (rm_world s))"

lemmas server_defs = send_to_machine_def disconnect_machine_def request_removal_def revoke_machine_def finalize_removal_def
  verify_connection_def greet_agent_def request_decommission_def finalize_decommission_def row_revoke_def

lemma sent_set: "m \<in> set (sent out) \<longleftrightarrow> Send m \<in> set out"
  by (induction out rule: sent.induct) auto

lemma perform_client [simp]: "pr_client (perform a p) = pr_client p"
  by (cases a) simp_all

lemma process_serving:
  assumes "world_step e w l w'" and "by_process l" and "is_up (w_proc w')" and "l \<noteq> Boots"
  shows "serving (w_proc w') = serving (w_proc w)"
  using assms by (cases rule: world_step.cases) auto

lemma boot_serving: "world_step e w Boots w' \<Longrightarrow> \<not> serving (w_proc w') \<and> \<not> serving (w_proc w)"
  by (erule world_stepE) (auto simp: booted_def client_start_def)

lemma takes_down_lists: "takes_down json i ds = Some down \<Longrightarrow> ds \<in> lists A \<Longrightarrow> down \<in> lists A"
  by (cases "(json, i, ds)" rule: takes_down.cases) (auto split: if_splits)

lemma removal_ok_step:
  assumes "removal_step json e s l s'" and "codec_ok (store_codec (env_store e))" and "env_exclusive e" and "removal_ok e s"
  shows "removal_ok e s'"
  using assms(1)
proof (cases rule: removal_step.cases)
  case (process l' w s1)
  have "world_ok e w" using world_step_ok [OF process(3) assms(2,3)] assms(4) by (simp add: removal_ok_def)
  moreover have "disk_decommissioned e (rm_world s) \<Longrightarrow> disk_decommissioned e w"
    using decommissioned_step(1) [OF process(3) assms(2)] assms(4) process(4) by (cases l') (auto simp: removal_ok_def)
  moreover have "\<not> is_up (w_proc w) \<Longrightarrow> \<not> serving (w_proc w)" by (cases "w_proc w") auto
  moreover have "is_up (w_proc w) \<Longrightarrow> serving (w_proc w) = serving (w_proc (rm_world s))"
    using process_serving [OF process(3,4)] boot_serving [of e "rm_world s" w] process(3) by (cases "l' = Boots") auto
  ultimately show ?thesis using process assms(4) by (auto simp: removal_ok_def)
next
  case (client p i cmds out st down p')
  have step: "world_step e (rm_world s) (ClientActs out) (rm_world s')"
    using world_step.client [OF client(3-5)] client(2,7) by simp
  have ok: "world_ok e (rm_world s')" using world_step_ok [OF step assms(2,3)] assms(4) by (simp add: removal_ok_def)
  have disk: "disk_decommissioned e (rm_world s') = disk_decommissioned e (rm_world s)"
    using client(2) by (simp add: disk_decommissioned_def)
  have ack: "DecommissionAck \<in> set (sent out) \<Longrightarrow> disk_decommissioned e (rm_world s)"
    using sent_released [OF step assms(2), of "machine_id (pr_creds p)"] assms(4) client(3) step client_ok client(3,4,5)
    by (fastforce simp: removal_ok_def world_ok_def disk_decommissioned_def sent_set)
  have down: "rm_down s \<in> lists (range Msg) \<Longrightarrow> down \<in> lists (range Msg)" using takes_down_lists [OF client(6)] .
  have row: "rm_row s' = rm_row s" and proc: "w_proc (rm_world s') = Up p'" using client(2) by simp_all
  have "pr_client p \<noteq> Stopped" using client(4) by auto
  then show ?thesis
    using assms(4) ok disk ack down row proc client(2,3,7)
    by (cases "(pr_client p, st, sent out, down, s)" rule: carry.cases) (auto simp: removal_ok_def)
next
  case (acknowledged up)
  then show ?thesis using assms(4)
    by (auto simp: removal_ok_def server_defs row_usable_def attached_def registered_def split: option.splits if_splits)
qed (use assms(4) in \<open>auto simp: removal_ok_def server_defs row_usable_def registered_def attached_def split: option.splits if_splits\<close>)

lemma removal_ok_path:
  "removal_path json e s ls s' \<Longrightarrow> codec_ok (store_codec (env_store e)) \<Longrightarrow> env_exclusive e \<Longrightarrow> removal_ok e s \<Longrightarrow> removal_ok e s'"
  by (induction rule: steps.induct) (auto intro: removal_ok_step)

section \<open>A requested removal can complete\<close>

text \<open>What happens by itself: the process starts, takes up events and makes its calls; the connection task dials
  with success, serves and sends; the server verifies, greets and hears. No request of an operator, no
  tick, signal, crash, refused save or broken connection is among it.\<close>

fun unaided :: "removal_label \<Rightarrow> bool" where
  "unaided (ByProcess l) = (l = Boots \<or> event_work l)"
| "unaided (ByClient (Dial d)) = (connects d \<and> ack_send_ok d)"
| "unaided (ByClient (Serve (Recv cmd ok))) = ok"
| "unaided (ByClient (Serve (Incoming (TextFrame txt) now ok))) = ok"
| "unaided (ByClient i) = False"
| "unaided Unheard = False"
| "unaided Requests = False"
| "unaided Revokes = False"
| "unaided l = True"

definition brings :: "(server_to_agent \<Rightarrow> string) \<Rightarrow> 'c env \<Rightarrow> 'c removal \<Rightarrow> 'c removal \<Rightarrow> bool" where
  "brings json e s s' \<longleftrightarrow> (\<exists>ls. removal_path json e s ls s' \<and> list_all unaided ls)"

lemma brings_refl: "brings json e s s"
  unfolding brings_def by (intro exI [of _ "[]"]) (simp add: steps.here)

lemma brings_step: "removal_step json e s l s' \<Longrightarrow> unaided l \<Longrightarrow> brings json e s s'"
  unfolding brings_def by (intro exI [of _ "[l]"]) (simp add: removal_path_step)

lemma brings_trans: "brings json e s s1 \<Longrightarrow> brings json e s1 s2 \<Longrightarrow> brings json e s s2"
  unfolding brings_def by (metis list_all_append removal_path_trans)

lemma brings_ok:
  "brings json e s s' \<Longrightarrow> codec_ok (store_codec (env_store e)) \<Longrightarrow> env_exclusive e \<Longrightarrow> removal_ok e s \<Longrightarrow> removal_ok e s'"
  unfolding brings_def using removal_ok_path by blast

lemma event_work_process: "event_work l \<Longrightarrow> by_process l \<and> unaided (ByProcess l)"
  by (cases l rule: event_work.cases) auto

lemma event_work_up: "world_step e w l w' \<Longrightarrow> event_work l \<Longrightarrow> is_up (w_proc w')"
  by (cases rule: world_step.cases) auto

lemma work_brings:
  "world_path e w ls w' \<Longrightarrow> list_all event_work ls \<Longrightarrow> rm_world s = w \<Longrightarrow> brings json e s (s\<lparr>rm_world := w'\<rparr>)"
proof (induction rule: steps.induct)
  case (here w)
  then have "s\<lparr>rm_world := w\<rparr> = s" by simp
  then show ?case by (simp add: brings_refl)
next
  case (onward w ls w1 l w2)
  then have l: "event_work l" and b: "brings json e s (s\<lparr>rm_world := w1\<rparr>)" by simp_all
  have "removal_step json e (s\<lparr>rm_world := w1\<rparr>) (ByProcess l) (s\<lparr>rm_world := w2\<rparr>)"
    using removal_step.process [of e "s\<lparr>rm_world := w1\<rparr>" l w2 "s\<lparr>rm_world := w2\<rparr>" json] onward.hyps(2)
      event_work_process [OF l] event_work_up [OF onward.hyps(2) l] by simp
  then show ?case using brings_trans [OF b brings_step] event_work_process [OF l] by blast
qed

text \<open>A step of the connection task.\<close>

lemma client_brings:
  assumes "w_proc (rm_world s) = Up p" and "feed (env_lib e) (pr_creds p) (pr_client p) (pr_cmds p) i = Some cmds"
    and "client_step (env_lib e) (pr_creds p) (pr_client p) i = (out, st)" and "takes_down json i (rm_down s) = Some down"
    and "unaided (ByClient i)"
  shows "brings json e s (carry (pr_client p) st (sent out) down (s\<lparr>rm_world := (rm_world s)\<lparr>w_proc :=
     Up (p\<lparr>pr_client := st, pr_cmds := cmds, pr_events := pr_events p @ emitted out\<rparr>)\<rparr>\<rparr>))"
  by (rule brings_step [OF removal_step.client [OF assms(1-4) refl] assms(5)])

text \<open>The connection can be open, the credential verified, and the greeting sent.\<close>

definition told_to_leave :: "'c removal \<Rightarrow> bool" where
  "told_to_leave s \<longleftrightarrow> registered (rm_link s) \<and> serving (w_proc (rm_world s)) \<and> Msg DecommissionMsg \<in> set (rm_down s)"

text \<open>What stays of the process while the connection is set up and texts are read.\<close>

definition same_loop :: "agent_proc \<Rightarrow> agent_proc \<Rightarrow> bool" where
  "same_loop p p' \<longleftrightarrow> pr_creds p' = pr_creds p \<and> pr_loop p' = pr_loop p \<and> pr_plan p' = pr_plan p \<and> pr_flow p' = pr_flow p"

lemma greeted_brings:
  assumes "rm_link s = Verifying \<or> rm_link s = Listening" and "serving (w_proc (rm_world s))"
    and "rm_row s = Some r" and "row_usable (Some r)" and "row_pending r"
  shows "\<exists>s'. brings json e s s' \<and> rm_world s' = rm_world s \<and> rm_row s' = rm_row s \<and> told_to_leave s'"
proof -
  have "\<exists>s1. brings json e s s1 \<and> rm_world s1 = rm_world s \<and> rm_row s1 = rm_row s \<and> rm_link s1 = Listening"
  proof (cases "rm_link s = Listening")
    case True
    then show ?thesis using brings_refl by blast
  next
    case False
    then have "removal_step json e s (Verifies (rm_up s)) (verify_connection s)" using assms(1) by (auto intro: removal_step.verifies)
    from brings_step [OF this] show ?thesis using assms(3,4)
      by (intro exI [of _ "verify_connection s"]) (simp add: verify_connection_def)
  qed
  then obtain s1 where s1: "brings json e s s1" "rm_world s1 = rm_world s" "rm_row s1 = rm_row s" "rm_link s1 = Listening" by blast
  have "removal_step json e s1 Greets (greet_agent None 0 r s1)"
    by (rule removal_step.greets) (use s1(3,4) assms(3) in auto)
  from brings_trans [OF s1(1) brings_step [OF this]] show ?thesis
    using s1 assms(2,5) by (intro exI [of _ "greet_agent None 0 r s1"]) (simp add: greet_agent_def told_to_leave_def registered_def)
qed

lemma told_brings:
  assumes "removal_ok e s" and "w_proc (rm_world s) = Up p" and "pr_client p \<noteq> Stopped"
    and "rm_row s = Some r" and "row_usable (Some r)" and "row_pending r"
    and "rm_link s = Told \<Longrightarrow> Msg DecommissionMsg \<in> set (rm_down s)"
    and "request_ok (env_lib e) (to_ws_url (server_url (pr_creds p)))" and "header_ok (env_lib e) (auth_value (pr_creds p))"
  shows "\<exists>s' p'. brings json e s s' \<and> w_proc (rm_world s') = Up p' \<and> same_loop p p' \<and> w_fs (rm_world s') = w_fs (rm_world s)
     \<and> rm_row s' = Some r \<and> told_to_leave s'"
proof (cases "pr_client p")
  case (Dialing b a)
  let ?d = "\<lparr>connects = True, queued = pr_cmds p, ack_send_ok = True\<rparr>"
  obtain out c where out: "client_step (env_lib e) (pr_creds p) (pr_client p) (Dial ?d) = (out, Serving b c)"
    using assms(8,9) Dialing by (cases "drain (pr_cmds p) a") (auto simp: client_defs)
  have feed: "feed (env_lib e) (pr_creds p) (pr_client p) (pr_cmds p) (Dial ?d) = Some []"
    using assms(8,9) Dialing by simp
  let ?p = "p\<lparr>pr_client := Serving b c, pr_cmds := [], pr_events := pr_events p @ emitted out\<rparr>"
  let ?s1 = "carry (pr_client p) (Serving b c) (sent out) (rm_down s) (s\<lparr>rm_world := (rm_world s)\<lparr>w_proc := Up ?p\<rparr>\<rparr>)"
  have b1: "brings json e s ?s1" by (rule client_brings [OF assms(2) feed out]) simp_all
  obtain s' where "brings json e ?s1 s'" "rm_world s' = rm_world ?s1" "rm_row s' = rm_row ?s1" "told_to_leave s'"
    using greeted_brings [of ?s1 r] assms(4-6) Dialing by auto
  then show ?thesis using brings_trans [OF b1] assms(4)
    by (intro exI [of _ s'] exI [of _ ?p]) (simp add: same_loop_def)
next
  case (Serving b c)
  then have srv: "serving (w_proc (rm_world s))" using assms(2) by simp
  then have "rm_link s \<in> {Verifying, Listening, Told}"
    using assms(1,4,5) by (cases "rm_link s") (auto simp: removal_ok_def)
  then consider "rm_link s = Verifying \<or> rm_link s = Listening" | "rm_link s = Told" by blast
  then show ?thesis
  proof cases
    case 1
    then obtain s' where "brings json e s s'" "rm_world s' = rm_world s" "rm_row s' = rm_row s" "told_to_leave s'"
      using greeted_brings [OF _ srv assms(4-6)] by blast
    then show ?thesis using assms(2,4) by (intro exI [of _ s'] exI [of _ p]) (simp add: same_loop_def)
  next
    case 2
    then have "told_to_leave s" using assms(7) srv by (simp add: told_to_leave_def registered_def)
    then show ?thesis using assms(2,4) brings_refl by (intro exI [of _ s] exI [of _ p]) (simp add: same_loop_def)
  qed
qed (use assms(3) in simp)

text \<open>Everything sent is read.\<close>

lemma text_brings:
  assumes "w_proc (rm_world s) = Up p" and "pr_client p = Serving b c" and "rm_down s = Msg m # ds"
    and "parse_message (env_lib e) (json DecommissionMsg) = Some DecommissionMsg"
  shows "\<exists>s' p' c'. brings json e s s' \<and> w_proc (rm_world s') = Up p' \<and> same_loop p p' \<and> pr_client p' = Serving b c'
     \<and> w_fs (rm_world s') = w_fs (rm_world s) \<and> rm_row s' = rm_row s \<and> rm_link s' = rm_link s \<and> rm_down s' = ds
     \<and> set (pr_events p) \<subseteq> set (pr_events p') \<and> (m = DecommissionMsg \<longrightarrow> Decommission \<in> set (pr_events p'))"
proof -
  let ?i = "Serve (Incoming (TextFrame (json m)) 0 True)"
  obtain out c' where out: "client_step (env_lib e) (pr_creds p) (pr_client p) ?i = (out, Serving b c')"
      "emitted out = handle_message (env_lib e) (json m)"
    using assms(2) by (cases "greeted c") (auto simp: client_defs)
  have feed: "feed (env_lib e) (pr_creds p) (pr_client p) (pr_cmds p) ?i = Some (pr_cmds p)" using assms(2) by simp
  have down: "takes_down json ?i (rm_down s) = Some ds" using assms(3) by simp
  have ev: "m = DecommissionMsg \<Longrightarrow> emitted out = [Decommission]" using out(2) assms(4) by (simp add: handle_message_def event_of_def)
  let ?p = "p\<lparr>pr_client := Serving b c', pr_cmds := pr_cmds p, pr_events := pr_events p @ emitted out\<rparr>"
  let ?s = "carry (pr_client p) (Serving b c') (sent out) ds (s\<lparr>rm_world := (rm_world s)\<lparr>w_proc := Up ?p\<rparr>\<rparr>)"
  have "brings json e s ?s" by (rule client_brings [OF assms(1) feed out(1) down]) simp
  then show ?thesis using assms(2) ev
    by (intro exI [of _ ?s] exI [of _ ?p] exI [of _ c']) (simp add: same_loop_def)
qed

lemma all_read:
  assumes "parse_message (env_lib e) (json DecommissionMsg) = Some DecommissionMsg"
    and "w_proc (rm_world s) = Up p" and "pr_client p = Serving b c"
    and "rm_down s = map Msg ms"
  shows "\<exists>s' p' c'. brings json e s s' \<and> w_proc (rm_world s') = Up p' \<and> same_loop p p' \<and> pr_client p' = Serving b c'
     \<and> w_fs (rm_world s') = w_fs (rm_world s) \<and> rm_row s' = rm_row s \<and> rm_link s' = rm_link s \<and> rm_down s' = []
     \<and> set (pr_events p) \<subseteq> set (pr_events p') \<and> (DecommissionMsg \<in> set ms \<longrightarrow> Decommission \<in> set (pr_events p'))"
  using assms(2-4)
proof (induction ms arbitrary: s p c)
  case Nil
  then show ?case using brings_refl by (intro exI [of _ s] exI [of _ p] exI [of _ c]) (simp add: same_loop_def)
next
  case (Cons m ms)
  then have "rm_down s = Msg m # map Msg ms" by simp
  from text_brings [of s p b c m "map Msg ms" e json, OF Cons.prems(1,2) this assms(1)] obtain s1 p1 c1 where
    1: "brings json e s s1" "w_proc (rm_world s1) = Up p1" "same_loop p p1" "pr_client p1 = Serving b c1"
      "w_fs (rm_world s1) = w_fs (rm_world s)" "rm_row s1 = rm_row s" "rm_link s1 = rm_link s" "rm_down s1 = map Msg ms"
      "set (pr_events p) \<subseteq> set (pr_events p1)" "m = DecommissionMsg \<longrightarrow> Decommission \<in> set (pr_events p1)" by blast
  from Cons.IH [OF 1(2,4,8)] obtain s2 p2 c2 where
    2: "brings json e s1 s2" "w_proc (rm_world s2) = Up p2" "same_loop p1 p2" "pr_client p2 = Serving b c2"
      "w_fs (rm_world s2) = w_fs (rm_world s1)" "rm_row s2 = rm_row s1" "rm_link s2 = rm_link s1" "rm_down s2 = []"
      "set (pr_events p1) \<subseteq> set (pr_events p2)" "DecommissionMsg \<in> set ms \<longrightarrow> Decommission \<in> set (pr_events p2)" by blast
  have "same_loop p p2" using 1(3) 2(3) by (simp add: same_loop_def)
  moreover have "DecommissionMsg \<in> set (m # ms) \<longrightarrow> Decommission \<in> set (pr_events p2)" using 1(10) 2(9,10) by auto
  ultimately show ?case using brings_trans [OF 1(1) 2(1)] 1(5-9) 2(2,4-9)
    by (intro exI [of _ s2] exI [of _ p2] exI [of _ c2]) auto
qed

text \<open>The server hears all there is, up to the acknowledgement.\<close>

lemma all_heard:
  assumes "registered (rm_link s)" and "rm_row s = Some r" and "row_pending r" and "rm_up s = hs @ [DecommissionAck]"
    and "DecommissionAck \<notin> set hs"
  shows "\<exists>s'. brings json e s s' \<and> rm_row s' = None \<and> rm_world s' = rm_world s"
  using assms
proof (induction hs arbitrary: s)
  case Nil
  then have "removal_step json e s AckHeard (finalize_removal (s\<lparr>rm_up := []\<rparr>))"
    by (intro removal_step.acknowledged) (auto simp: registered_def attached_def)
  from brings_step [OF this] show ?case using Nil.prems(2,3)
    by (intro exI [of _ "finalize_removal (s\<lparr>rm_up := []\<rparr>)"])
      (simp add: finalize_removal_def finalize_decommission_def disconnect_machine_def)
next
  case (Cons h hs)
  then obtain t v where h: "h = Heartbeat t v" by (cases h) auto
  let ?s = "send_to_machine (HeartbeatAckMsg 0) (s\<lparr>rm_up := hs @ [DecommissionAck]\<rparr>)"
  have "removal_step json e s HeartbeatHeard ?s"
    by (rule removal_step.heartbeat [of _ r t v]) (use Cons.prems h in \<open>auto simp: registered_def attached_def\<close>)
  note b = brings_step [OF this]
  obtain s' where "brings json e ?s s'" "rm_row s' = None" "rm_world s' = rm_world ?s"
    using Cons.IH [of ?s] Cons.prems by (auto simp: send_to_machine_def)
  then show ?case using brings_trans [OF b] by auto
qed

text \<open>From a process that runs its loop under management.\<close>

definition live :: "agent_proc \<Rightarrow> bool" where
  "live p \<longleftrightarrow> pr_flow p = Continue \<and> pr_client p \<noteq> Stopped \<and> \<not> ls_events_closed (pr_loop p) \<and> \<not> ls_decommissioned (pr_loop p)"

lemma managed_disk:
  assumes "removal_ok e s" and "w_proc (rm_world s) = Up p" and "\<not> ls_decommissioned (pr_loop p)"
  shows "DecommissionAck \<notin> set (rm_up s)"
  using assms by (auto simp: removal_ok_def world_ok_def disk_ok_def disk_decommissioned_def)

lemma commanded_disk:
  assumes "removal_ok e s" and "w_proc (rm_world s) = Up p" and "pr_cmds p \<noteq> []"
  shows "disk_decommissioned e (rm_world s)"
  using assms by (auto simp: removal_ok_def world_ok_def disk_ok_def disk_decommissioned_def)

text \<open>Once told, the process finishes its plan, takes up what has arrived and hands the acknowledgement out.\<close>

lemma leaves:
  assumes "codec_ok (store_codec (env_store e))" and "env_exclusive e" and "removal_ok e s"
    and "w_proc (rm_world s) = Up p" and "pr_flow p = Continue" and "\<not> ls_events_closed (pr_loop p)" and "\<not> ls_decommissioned (pr_loop p)"
    and "pr_client p = Serving b c" and "Decommission \<in> set (pr_events p)"
    and "registered (rm_link s)" and "rm_row s = Some r" and "row_pending r"
  shows "\<exists>s'. brings json e s s' \<and> rm_row s' = None \<and> disk_decommissioned e (rm_world s')"
proof -
  obtain w1 p1 where w1: "world_path e (rm_world s) (map Acts (pr_plan p)) w1" "w_proc w1 = Up p1" "pr_plan p1 = []"
      "pr_loop p1 = pr_loop p" "pr_flow p1 = Continue" "pr_events p1 = pr_events p" "pr_client p1 = pr_client p"
    using drain_plan [OF assms(1,4)] assms(5) by auto
  have nc: "\<not> ls_events_closed (pr_loop p1)" using assms(6) w1(4) by simp
  obtain as w2 p2 where w2: "world_path e w1 as w2" "list_all event_work as" "w_proc w2 = Up p2" "pr_client p2 = pr_client p1"
      "pr_cmds p2 \<noteq> []"
    using events_run [OF assms(1) w1(2,3,5) nc] assms(7,9) w1(4,6) by auto
  have work: "list_all event_work (map Acts (pr_plan p) @ as)" using w2(2) by (auto simp: list_all_iff)
  let ?s2 = "s\<lparr>rm_world := w2\<rparr>"
  have b2: "brings json e s ?s2" by (rule work_brings [OF world_path_trans [OF w2(1) w1(1)] work refl])
  have disk: "disk_decommissioned e (rm_world ?s2)"
    by (rule commanded_disk [OF brings_ok [OF b2 assms(1-3)]]) (use w2 in auto)
  obtain cmds where cmds: "pr_cmds p2 = AckDecommission # cmds"
    using w2(5) by (cases "pr_cmds p2") (auto intro: client_command.exhaust)
  have p2: "w_proc (rm_world ?s2) = Up p2" using w2(3) by simp
  let ?i = "Serve (Recv (Some AckDecommission) True)" and ?c = "c\<lparr>ack := True\<rparr>"
  have st: "client_step (env_lib e) (pr_creds p2) (pr_client p2) ?i = ([Send DecommissionAck], Serving b ?c)"
    using w2(4) w1(7) assms(8) by (simp add: client_defs)
  have fd: "feed (env_lib e) (pr_creds p2) (pr_client p2) (pr_cmds p2) ?i = Some cmds"
    using w2(4) w1(7) assms(8) cmds by simp
  have td: "takes_down json ?i (rm_down ?s2) = Some (rm_down s)" by simp
  let ?w3 = "w2\<lparr>w_proc := Up (p2\<lparr>pr_client := Serving b ?c, pr_cmds := cmds, pr_events := pr_events p2 @ emitted [Send DecommissionAck]\<rparr>)\<rparr>"
  let ?s3 = "s\<lparr>rm_world := ?w3, rm_up := rm_up s @ [DecommissionAck]\<rparr>"
  have "brings json e ?s2 (carry (pr_client p2) (Serving b ?c) (sent [Send DecommissionAck]) (rm_down s)
      (?s2\<lparr>rm_world := (rm_world ?s2)\<lparr>w_proc := Up (p2\<lparr>pr_client := Serving b ?c, pr_cmds := cmds,
        pr_events := pr_events p2 @ emitted [Send DecommissionAck]\<rparr>)\<rparr>\<rparr>))"
    by (rule client_brings [OF p2 fd st td]) simp
  then have b3: "brings json e ?s2 ?s3" using w2(4) w1(7) assms(8) by simp
  obtain s4 where "brings json e ?s3 s4" "rm_row s4 = None" "rm_world s4 = ?w3"
    using all_heard [of ?s3 r "rm_up s"] assms(10-12) managed_disk [OF assms(3,4,7)] by auto
  then show ?thesis using brings_trans [OF brings_trans [OF b2 b3]] disk
    by (intro exI [of _ s4]) (simp add: disk_decommissioned_def)
qed

lemma completes:
  assumes "codec_ok (store_codec (env_store e))" and "env_exclusive e"
    and "parse_message (env_lib e) (json DecommissionMsg) = Some DecommissionMsg"
    and "removal_ok e s" and "w_proc (rm_world s) = Up p" and "live p"
    and "rm_row s = Some r" and "row_usable (Some r)" and "row_pending r"
    and "rm_link s = Told \<Longrightarrow> Msg DecommissionMsg \<in> set (rm_down s)"
    and "request_ok (env_lib e) (to_ws_url (server_url (pr_creds p)))" and "header_ok (env_lib e) (auth_value (pr_creds p))"
  shows "\<exists>s'. brings json e s s' \<and> rm_row s' = None \<and> disk_decommissioned e (rm_world s')"
proof -
  have "pr_client p \<noteq> Stopped" using assms(6) by (simp add: live_def)
  from told_brings [OF assms(4,5) this assms(7-12)] obtain s1 p1 where
    1: "brings json e s s1" "w_proc (rm_world s1) = Up p1" "same_loop p p1" "rm_row s1 = Some r" "told_to_leave s1" by blast
  have ok1: "removal_ok e s1" by (rule brings_ok [OF 1(1) assms(1,2,4)])
  obtain b c where cl: "pr_client p1 = Serving b c" using 1(2,5) by (auto simp: told_to_leave_def)
  have "rm_down s1 \<in> lists (range Msg)" using ok1 1(4) assms(8) by (simp add: removal_ok_def)
  then obtain ms where ms: "rm_down s1 = map Msg ms" by (auto simp: lists_image [symmetric] image_def) (metis ex_map_conv)
  have "DecommissionMsg \<in> set ms" using 1(5) ms by (auto simp: told_to_leave_def)
  with all_read [of e json s1 p1 b c ms, OF assms(3) 1(2) cl ms] obtain s2 p2 c2 where
    2: "brings json e s1 s2" "w_proc (rm_world s2) = Up p2" "same_loop p1 p2" "pr_client p2 = Serving b c2"
      "rm_row s2 = rm_row s1" "rm_link s2 = rm_link s1" "Decommission \<in> set (pr_events p2)" by blast
  have ok2: "removal_ok e s2" by (rule brings_ok [OF 2(1) assms(1,2) ok1])
  have loop: "pr_loop p2 = pr_loop p" "pr_flow p2 = pr_flow p" using 1(3) 2(3) by (simp_all add: same_loop_def)
  obtain s3 where "brings json e s2 s3" "rm_row s3 = None" "disk_decommissioned e (rm_world s3)"
    using leaves [OF assms(1,2) ok2 2(2) _ _ _ 2(4,7)] 1(4,5) 2(5,6) assms(6,9) loop
    by (auto simp: told_to_leave_def live_def)
  then show ?thesis using brings_trans [OF brings_trans [OF 1(1) 2(1)]] by blast
qed

text \<open>A managed agent that can be told: running, its loop not left and its connection task not ended, or stopped
  with a state file that lets it start.\<close>

definition can_be_told :: "'c env \<Rightarrow> credentials \<Rightarrow> 'c world \<Rightarrow> bool" where
  "can_be_told e creds w \<longleftrightarrow>
     (\<exists>p. w_proc w = Up p \<and> live p \<and> pr_creds p = creds)
     \<or> w_proc w = Down \<and> (\<exists>st. recorded (env_store e) (w_fs w) = Some st \<and> st_credentials st = Some creds \<and> \<not> st_decommissioned st)"

lemma start_brings:
  assumes "removal_ok e s" and "w_proc (rm_world s) = Down"
    and "recorded (env_store e) (w_fs (rm_world s)) = Some st" and "st_credentials st = Some creds" and "\<not> st_decommissioned st"
  shows "\<exists>s' p. brings json e s s' \<and> w_proc (rm_world s') = Up p \<and> live p \<and> pr_creds p = creds \<and> rm_row s' = rm_row s \<and> rm_link s' = NoLink"
proof -
  let ?ls = "\<lparr>ls_state = st, ls_clock = guard_new (st_high_water_mark st) 0, ls_blocked = True,
    ls_warnings = warnings_new, ls_decommissioned = False, ls_events_closed = False\<rparr>"
  let ?w = "(rm_world s)\<lparr>w_proc := Up (booted creds ?ls [])\<rparr>"
  have "run_start (env_store e) 0 False 0 (w_fs (rm_world s)) = Starts creds ?ls []"
    using load_recorded [OF assms(3), of 0] assms(4,5) by (simp add: run_start_def Let_def)
  from world_step.boot [OF assms(2) this] have "removal_step json e s (ByProcess Boots) (s\<lparr>rm_world := ?w\<rparr>)"
    using removal_step.process [of e s Boots ?w "s\<lparr>rm_world := ?w\<rparr>" json] by simp
  from brings_step [OF this] show ?thesis
    using assms(1,2) by (intro exI [of _ "s\<lparr>rm_world := ?w\<rparr>"] exI [of _ "booted creds ?ls []"])
      (simp add: booted_def live_def client_start_def removal_ok_def)
qed

lemma requested:
  assumes "row_usable (rm_row s)"
  obtains r where "removal_step json e s Requests (request_removal s)" and "rm_row (request_removal s) = Some r"
    and "row_usable (Some r)" and "row_pending r" and "rm_link (request_removal s) = rm_link s"
    and "rm_link s = Told \<longrightarrow> Msg DecommissionMsg \<in> set (rm_down (request_removal s))"
proof -
  obtain r where r: "rm_row s = Some r" "row_credential r" "\<not> row_revoked r"
    using assms by (auto simp: row_usable_def split: option.splits)
  have "removal_step json e s Requests (request_removal s)" by (rule removal_step.requests [OF r(1)])
  then show thesis using that [of "r\<lparr>row_pending := True\<rparr>"] r
    by (auto simp: request_removal_def request_decommission_def send_to_machine_def row_usable_def registered_def)
qed

lemma removal_start_ok:
  "w_proc (rm_world s) = Down \<Longrightarrow> rm_link s = NoLink \<Longrightarrow> rm_up s = [] \<Longrightarrow> rm_down s = [] \<Longrightarrow> removal_ok e s"
  by (simp add: removal_ok_def down_ok)

section \<open>An acknowledgement the server does not hear\<close>

text \<open>A decommissioned process that has already commanded its acknowledgement and whose connection task sends it
  when connecting: nothing makes it send one on a connection that is open.\<close>

definition acknowledged_early :: "machine_row \<Rightarrow> 'c removal \<Rightarrow> bool" where
  "acknowledged_early r s \<longleftrightarrow>
     (\<exists>p. w_proc (rm_world s) = Up p \<and> ls_decommissioned (pr_loop p) \<and> plan_commands (pr_plan p) = [] \<and> pr_cmds p = []
        \<and> acked (pr_client p))
     \<and> (attached (rm_link s) \<longrightarrow> DecommissionAck \<notin> set (rm_up s))
     \<and> rm_row s = Some r \<and> row_usable (Some r) \<and> row_pending r"

text \<open>The process is not started anew, the credential not revoked, and no verification is quicker than the
  acknowledgement it lets pass.\<close>

fun same_life :: "removal_label \<Rightarrow> bool" where
  "same_life (ByProcess (Takes i)) = True"
| "same_life (ByProcess (Acts a)) = True"
| "same_life (ByProcess l) = False"
| "same_life (Verifies up) = (DecommissionAck \<notin> set up)"
| "same_life Revokes = False"
| "same_life l = True"

lemma handle_decommissioned:
  assumes "ls_decommissioned ls" and "handle ls i = Some (plan, fl, ls')"
  shows "ls_decommissioned ls' \<and> plan_commands plan = []"
proof (cases i)
  case (EventRecv ev m)
  then show ?thesis using assms by (cases "(ls, ev, m)" rule: on_event.cases) auto
qed (use assms in auto)

lemma acknowledged_early_step:
  assumes "removal_step json e s l s'" and "acknowledged_early r s" and "same_life l"
  shows "acknowledged_early r s' \<and> l \<noteq> AckHeard"
proof -
  obtain p where p: "w_proc (rm_world s) = Up p" "ls_decommissioned (pr_loop p)" "plan_commands (pr_plan p) = []" "pr_cmds p = []"
      "acked (pr_client p)" using assms(2) by (auto simp: acknowledged_early_def)
  have row: "rm_row s = Some r" "row_usable (Some r)" "row_pending r" using assms(2) by (simp_all add: acknowledged_early_def)
  show ?thesis
    using assms(1)
  proof (cases rule: removal_step.cases)
    case (process l' w s1)
    have "\<exists>q. w_proc w = Up q \<and> ls_decommissioned (pr_loop q) \<and> plan_commands (pr_plan q) = [] \<and> pr_cmds q = [] \<and> acked (pr_client q)"
      using process(3)
    proof (cases rule: world_step.cases)
      case (take q i plan fl ls)
      then show ?thesis using handle_decommissioned [of "pr_loop p" i plan fl ls] p by auto
    next
      case (act q a plan)
      then show ?thesis using p by (cases a) auto
    qed (use p process(1) assms(3) in auto)
    then show ?thesis using process assms(2) by (auto simp: acknowledged_early_def)
  next
    case (client q i cmds out st down p')
    then have q: "q = p" using p(1) by simp
    have cmds: "commands i @ cmds = []"
      using client(4) p(4) unfolding q by (cases "(env_lib e, pr_creds p, pr_client p, pr_cmds p, i)" rule: feed.cases) (auto split: if_splits list.splits)
    have st: "acked st" "DecommissionAck \<notin> set (sent out) \<or> (\<exists>b a. pr_client p = Dialing b a)"
    proof -
      have "acked st \<and> (Send DecommissionAck \<notin> set out \<or> (\<exists>b a. pr_client p = Dialing b a))"
      proof (rule client_step_cases [where st = "pr_client p" and i = i and lib = "env_lib e" and creds = "pr_creds p"])
        fix b a d assume a: "pr_client p = Dialing b a" "i = Dial d"
          "client_step (env_lib e) (pr_creds p) (pr_client p) i = after b (connect (env_lib e) (to_ws_url (server_url (pr_creds p))) (pr_creds p) a d)"
        then have "ack (fst (snd (connect (env_lib e) (to_ws_url (server_url (pr_creds p))) (pr_creds p) a d)))"
          using connect_ack(2) p(5) by simp
        then show ?thesis using a client(5) q
          by (cases rule: after_cases [of "connect (env_lib e) (to_ws_url (server_url (pr_creds p))) (pr_creds p) a d" b]) auto
      next
        fix b c j assume a: "pr_client p = Serving b c" "i = Serve j"
          "client_step (env_lib e) (pr_creds p) (pr_client p) i = after b (serve_step (env_lib e) c j)"
        then have "ack (fst (snd (serve_step (env_lib e) c j)))" using serve_step_ack p(5) by simp
        moreover have "Send DecommissionAck \<notin> set (fst (serve_step (env_lib e) c j))"
          using serve_step_sends_ack [of "env_lib e" c j] cmds a(2) by auto
        ultimately show ?thesis using a client(5) q
          by (cases rule: after_cases [of "serve_step (env_lib e) c j" b]) auto
      qed (use client(5) q p(5) in auto)
      then show "acked st" "DecommissionAck \<notin> set (sent out) \<or> (\<exists>b a. pr_client p = Dialing b a)" by (auto simp: sent_set)
    qed
    have "\<exists>q. w_proc (rm_world s') = Up q \<and> ls_decommissioned (pr_loop q) \<and> plan_commands (pr_plan q) = [] \<and> pr_cmds q = [] \<and> acked (pr_client q)"
      using client(2,7) p(2,3) st(1) cmds q by simp
    moreover have "attached (rm_link s') \<longrightarrow> DecommissionAck \<notin> set (rm_up s')"
      using st(2) assms(2) client(2) q
      by (cases "(pr_client q, st, sent out, down, s)" rule: carry.cases) (auto simp: acknowledged_early_def attached_def)
    moreover have "rm_row s' = Some r" using client(2) row(1) by simp
    ultimately show ?thesis using row client(1) by (auto simp: acknowledged_early_def)
  next
    case (requests r')
    then have "rm_row s' = Some (r\<lparr>row_pending := True\<rparr>)" "r\<lparr>row_pending := True\<rparr> = r"
      using row by (auto simp: request_removal_def request_decommission_def send_to_machine_def row_usable_def)
    then show ?thesis using requests assms(2) row
      by (auto simp: acknowledged_early_def request_removal_def request_decommission_def send_to_machine_def row_usable_def)
  qed (use assms(2,3) in \<open>auto simp: acknowledged_early_def verify_connection_def greet_agent_def send_to_machine_def attached_def\<close>)
qed

section \<open>Properties\<close>

text \<open>C12. A removal the operator asks for can always complete: in every reachable state in which the machine has
  a usable credential and its managed agent either runs, its loop not left and its connection task not
  ended, or is stopped, whatever it is doing and whatever is under way on its connection, the request
  marks the row, and then the agent and the server by themselves (the agent started if it was stopped,
  the connection opened if there is none, the message sent by the server and read by the agent, the
  decommission recorded, the acknowledgement sent and heard), with no tick, no crash, nothing lost and
  nothing asked of the operator again, can get to where the row is deleted and the agent's state file
  records the decommission. The URL and the credential must be ones the client's parsers accept.\<close>

theorem requested_removal_can_complete:
  assumes "codec_ok (store_codec (env_store e))" and "env_exclusive e"
    and "parse_message (env_lib e) (json DecommissionMsg) = Some DecommissionMsg"
    and "w_proc (rm_world s0) = Down" and "rm_link s0 = NoLink" and "rm_up s0 = []" and "rm_down s0 = []"
    and "removal_path json e s0 ls s" and "row_usable (rm_row s)" and "can_be_told e creds (rm_world s)"
    and "request_ok (env_lib e) (to_ws_url (server_url creds))" and "header_ok (env_lib e) (auth_value creds)"
  shows "\<exists>ms s'. removal_path json e s (Requests # ms) s' \<and> list_all unaided ms
     \<and> rm_row s' = None \<and> disk_decommissioned e (rm_world s')"
proof -
  have ok: "removal_ok e s" by (rule removal_ok_path [OF assms(8,1,2) removal_start_ok [OF assms(4-7)]])
  obtain r where r: "removal_step json e s Requests (request_removal s)" "rm_row (request_removal s) = Some r"
      "row_usable (Some r)" "row_pending r" "rm_link (request_removal s) = rm_link s"
      "rm_link s = Told \<longrightarrow> Msg DecommissionMsg \<in> set (rm_down (request_removal s))" by (rule requested [OF assms(9), where json = json and e = e])
  have okr: "removal_ok e (request_removal s)" by (rule removal_ok_step [OF r(1) assms(1,2) ok])
  have "\<exists>s'. brings json e (request_removal s) s' \<and> rm_row s' = None \<and> disk_decommissioned e (rm_world s')"
    using assms(10) unfolding can_be_told_def
  proof (elim disjE exE conjE)
    fix p assume p: "w_proc (rm_world s) = Up p" "live p" "pr_creds p = creds"
    then have "w_proc (rm_world (request_removal s)) = Up p" by simp
    from completes [of e json "request_removal s" p r, OF assms(1-3) okr this p(2) r(2-4)] show ?thesis
      using r(5,6) assms(11,12) p(3) by simp
  next
    fix st assume st: "w_proc (rm_world s) = Down" "recorded (env_store e) (w_fs (rm_world s)) = Some st"
      "st_credentials st = Some creds" "\<not> st_decommissioned st"
    obtain s1 p where 1: "brings json e (request_removal s) s1" "w_proc (rm_world s1) = Up p" "live p" "pr_creds p = creds"
        "rm_row s1 = Some r" "rm_link s1 = NoLink" using start_brings [OF okr, of st creds json] st r(2) by auto
    have "removal_ok e s1" by (rule brings_ok [OF 1(1) assms(1,2) okr])
    from completes [of e json s1 p r, OF assms(1-3) this 1(2,3,5) r(3,4)] show ?thesis
      using brings_trans [OF 1(1)] 1(4,6) assms(11,12) by auto
  qed
  then obtain ms s' where "removal_path json e (request_removal s) ms s'" "list_all unaided ms" "rm_row s' = None"
    "disk_decommissioned e (rm_world s')" by (auto simp: brings_def)
  then show ?thesis using removal_path_front [OF r(1)] by blast
qed

text \<open>The machine m-1, started, connected, verified and greeted with its session.\<close>

definition example_json :: "server_to_agent \<Rightarrow> string" where
  "example_json m = (case m of DecommissionMsg \<Rightarrow> ''decommission'' | _ \<Rightarrow> ''other'')"

definition example_removal :: "agent_state \<Rightarrow> machine_row \<Rightarrow> (agent_state + string) removal" where
  "example_removal st r = \<lparr>rm_world = example_world st, rm_row = Some r, rm_link = NoLink, rm_up = [], rm_down = []\<rparr>"

lemma example_parses:
  "parse_message (env_lib example_env) (example_json DecommissionMsg) = Some DecommissionMsg"
  "request_ok (env_lib example_env) url" "header_ok (env_lib example_env) v"
  by (simp_all add: example_env_def example_lib_def example_json_def)

theorem requested_removal_can_complete_witness:
  "\<exists>s ms s'. removal_path example_json example_env (example_removal example_managed (row_enroll row_new)) [ByProcess Boots] s
     \<and> removal_path example_json example_env s (Requests # ms) s' \<and> list_all unaided ms
     \<and> rm_row s' = None \<and> disk_decommissioned example_env (rm_world s')"
proof -
  let ?a = "example_removal example_managed (row_enroll row_new)"
  let ?b = "?a\<lparr>rm_world := example_booted example_managed\<rparr>"
  have w: "rm_world ?a = example_world example_managed" by (simp add: example_removal_def)
  have boot: "world_step example_env (rm_world ?a) Boots (example_booted example_managed)"
    unfolding w by (rule example_boot) simp
  have step: "removal_step example_json example_env ?a (ByProcess Boots) ?b"
    using removal_step.process [of example_env ?a Boots "example_booted example_managed" ?b example_json] boot
    by (simp add: example_booted_def)
  have told: "can_be_told example_env example_credentials (rm_world ?b)"
    by (simp add: can_be_told_def example_booted_def booted_def live_def client_start_def)
  have s0: "w_proc (rm_world ?a) = Down" "rm_link ?a = NoLink" "rm_up ?a = []" "rm_down ?a = []"
    by (simp_all add: example_removal_def)
  have "row_usable (rm_row ?b)" by (simp add: example_removal_def row_usable_def row_enroll_def)
  from requested_removal_can_complete [OF example_codec example_parses(1) s0 removal_path_step [OF step] this told example_parses(2,3)]
  show ?thesis using removal_path_step [OF step] by blast
qed

text \<open>C22. An acknowledgement sent while connecting is lost on the server and not made up for: a released agent
  that starts again acknowledges as soon as its connection opens, before the server has verified the
  credential and listens, so it is dropped; the server tells the agent again to leave, as on every
  connection, but a decommissioned loop ignores that; and for the rest of the process's life, however
  often it connects again with the acknowledgement as early, and however often the operator repeats the
  request, no acknowledgement is heard and the machine stays pending.\<close>

theorem early_acknowledgement_is_never_heard:
  assumes "w_proc (rm_world s) = Down" and "rm_link s = NoLink"
    and "recorded (env_store e) (w_fs (rm_world s)) = Some st" and "st_credentials st = Some creds" and "st_decommissioned st"
    and "rm_row s = Some r" and "row_usable (Some r)" and "row_pending r"
    and "request_ok (env_lib e) (to_ws_url (server_url creds))" and "header_ok (env_lib e) (auth_value creds)"
  shows "\<exists>d s1. removal_path json e s
       [ByProcess Boots, ByProcess (Acts (Command AckDecommission)), ByClient (Dial d), Unheard, Verifies [], Greets] s1
     \<and> connects d \<and> ack_send_ok d \<and> rm_down s1 = [Msg DecommissionMsg]
     \<and> (\<forall>ls s2. removal_path json e s1 ls s2 \<and> list_all same_life ls \<longrightarrow> AckHeard \<notin> set ls \<and> rm_row s2 = Some r)"
proof -
  let ?ls = "\<lparr>ls_state = st, ls_clock = guard_new (st_high_water_mark st) 0, ls_blocked = True,
    ls_warnings = warnings_new, ls_decommissioned = True, ls_events_closed = False\<rparr>"
  let ?p1 = "booted creds ?ls [Command AckDecommission]"
  let ?w1 = "(rm_world s)\<lparr>w_proc := Up ?p1\<rparr>" and ?d = "\<lparr>connects = True, queued = [AckDecommission], ack_send_ok = True\<rparr>"
  have "run_start (env_store e) 0 False 0 (w_fs (rm_world s)) = Starts creds ?ls [Command AckDecommission]"
    using load_recorded [OF assms(3), of 0] assms(4,5) by (simp add: run_start_def Let_def)
  note boot = world_step.boot [OF assms(1) this]
  let ?s1 = "s\<lparr>rm_world := ?w1\<rparr>"
  have 1: "removal_step json e s (ByProcess Boots) ?s1"
    using removal_step.process [OF boot _ refl, of json] by simp
  let ?p2 = "?p1\<lparr>pr_plan := [], pr_cmds := [AckDecommission]\<rparr>"
  have "world_step e ?w1 (Acts (Command AckDecommission)) (?w1\<lparr>w_proc := Up (perform (Command AckDecommission) (?p1\<lparr>pr_plan := []\<rparr>))\<rparr>)"
    by (rule world_step.act) (simp_all add: booted_def)
  then have act: "world_step e (rm_world ?s1) (Acts (Command AckDecommission)) ((rm_world s)\<lparr>w_proc := Up ?p2\<rparr>)"
    by (simp add: booted_def)
  let ?s2 = "s\<lparr>rm_world := (rm_world s)\<lparr>w_proc := Up ?p2\<rparr>\<rparr>"
  have 2: "removal_step json e ?s1 (ByProcess (Acts (Command AckDecommission))) ?s2"
    using removal_step.process [OF act _ refl, of json] by simp
  let ?out = "[Request (to_ws_url (server_url creds)) (auth_value creds), Send DecommissionAck]"
  let ?st = "Serving MIN_BACKOFF \<lparr>greeted = False, ack = True\<rparr>"
  have p2: "w_proc (rm_world ?s2) = Up ?p2" "pr_client ?p2 = Dialing MIN_BACKOFF False" "pr_cmds ?p2 = [AckDecommission]"
    "pr_creds ?p2 = creds" by (simp_all add: booted_def client_start_def)
  have fd: "feed (env_lib e) (pr_creds ?p2) (pr_client ?p2) (pr_cmds ?p2) (Dial ?d) = Some []"
    unfolding p2 using assms(9,10) by simp
  have cs: "client_step (env_lib e) (pr_creds ?p2) (pr_client ?p2) (Dial ?d) = (?out, ?st)"
    unfolding p2 using assms(9,10) by (simp add: client_defs drain_iff)
  have td: "takes_down json (Dial ?d) (rm_down ?s2) = Some (rm_down ?s2)" by simp
  let ?p3 = "?p2\<lparr>pr_client := ?st, pr_cmds := [], pr_events := pr_events ?p2 @ emitted ?out\<rparr>"
  let ?s3 = "s\<lparr>rm_world := (rm_world s)\<lparr>w_proc := Up ?p3\<rparr>, rm_link := Verifying, rm_up := [DecommissionAck], rm_down := []\<rparr>"
  have 3: "removal_step json e ?s2 (ByClient (Dial ?d)) ?s3"
    using removal_step.client [OF p2(1) fd cs td refl] by (simp add: booted_def client_start_def)
  let ?s4 = "?s3\<lparr>rm_up := []\<rparr>"
  have 4: "removal_step json e ?s3 Unheard ?s4" by (rule removal_step.unheard) simp_all
  let ?s5 = "?s4\<lparr>rm_link := Listening\<rparr>"
  have 5: "removal_step json e ?s4 (Verifies []) ?s5"
    using removal_step.verifies [of ?s4 json e] assms(6,7) by (simp add: verify_connection_def)
  let ?s6 = "greet_agent None 0 r ?s5"
  have 6: "removal_step json e ?s5 Greets ?s6" by (rule removal_step.greets) (use assms(6) in simp_all)
  have path: "removal_path json e s
      [ByProcess Boots, ByProcess (Acts (Command AckDecommission)), ByClient (Dial ?d), Unheard, Verifies [], Greets] ?s6"
    by (intro removal_path_front [OF 1] removal_path_front [OF 2] removal_path_front [OF 3] removal_path_front [OF 4]
        removal_path_front [OF 5] removal_path_step [OF 6])
  have early: "acknowledged_early r ?s6"
    using assms(6-8) by (simp add: acknowledged_early_def greet_agent_def attached_def booted_def)
  have never: "AckHeard \<notin> set ls \<and> rm_row s2 = Some r" if "removal_path json e ?s6 ls s2" "list_all same_life ls" for ls s2
    using path_invariant [OF that(1), of "acknowledged_early r" same_life "\<lambda>l. l \<noteq> AckHeard"] early that(2)
      acknowledged_early_step by (fastforce simp: acknowledged_early_def list_all_iff)
  have down: "rm_down ?s6 = [Msg DecommissionMsg]" using assms(8) by (simp add: greet_agent_def)
  have d: "connects ?d \<and> ack_send_ok ?d" by simp
  show ?thesis using path never down d by blast
qed

theorem early_acknowledgement_is_never_heard_witness:
  "\<exists>d s1. removal_path example_json example_env (example_removal example_released ((row_enroll row_new)\<lparr>row_pending := True\<rparr>))
       [ByProcess Boots, ByProcess (Acts (Command AckDecommission)), ByClient (Dial d), Unheard, Verifies [], Greets] s1
     \<and> rm_down s1 = [Msg DecommissionMsg]"
proof -
  let ?r = "(row_enroll row_new)\<lparr>row_pending := True\<rparr>"
  let ?s = "example_removal example_released ?r"
  have s: "w_proc (rm_world ?s) = Down" "rm_link ?s = NoLink" "rm_row ?s = Some ?r" "row_usable (Some ?r)" "row_pending ?r"
    "recorded (env_store example_env) (w_fs (rm_world ?s)) = Some example_released"
    by (simp_all add: example_removal_def row_usable_def row_enroll_def)
  from early_acknowledgement_is_never_heard [OF s(1,2,6) _ _ s(3-5) example_parses(2,3), of example_credentials example_json]
  show ?thesis by auto
qed

end
