(* ===== verification/Registry.thy ===== *)
theory Registry imports Agent begin

text \<open>
  Enrollment across the two programs: the server's rows of machines and one-time tokens
  (\<open>src/api/src/modules/machines/machines.service.ts\<close>), the answer it gives the agent's \<open>enroll\<close>, and the
  check of the credential a connection presents (\<open>realtime.gateway.ts\<close>). UUIDs, hashing and the JSON text
  of an answer are parameters. Shown is that an enrolled agent is let in, that a token is redeemed once
  at most when requests do not overlap, and what two overlapping redemptions of one token lead to.
\<close>

section \<open>Rows and parameters\<close>

text \<open>\<open>class-validator\<close>'s \<open>isUUID\<close>, \<open>argon2\<close>'s \<open>hash\<close> and \<open>verify\<close>, and the serialization of the result.\<close>

record server_lib =
  is_uuid :: "string \<Rightarrow> bool"
  argon_hash :: "string \<Rightarrow> string"
  argon_verify :: "string \<Rightarrow> string \<Rightarrow> bool"
  render_result :: "string \<Rightarrow> string \<Rightarrow> string"
  render_error :: "string \<Rightarrow> string"

text \<open>What is documented of them: a UUID has no dot, a secret matches its own hash.\<close>

definition server_lib_ok :: "server_lib \<Rightarrow> bool" where
  "server_lib_ok lib \<longleftrightarrow>
     (\<forall>i. is_uuid lib i \<longrightarrow> i \<noteq> [] \<and> CHR ''.'' \<notin> set i)
     \<and> (\<forall>x. argon_hash lib x \<noteq> [] \<and> argon_verify lib (argon_hash lib x) x)"

text \<open>A row of a token, and of a machine what its credential needs.\<close>

record token_row =
  token_machine :: string
  token_hash :: string
  token_expires :: datetime
  token_used :: bool

record login_row =
  login_hash :: "string option"
  login_revoked :: bool

record registry =
  tokens :: "string \<Rightarrow> token_row option"
  machines :: "string \<Rightarrow> login_row option"

section \<open>Operations\<close>

definition split_credential :: "string \<Rightarrow> (string \<times> string) option" where
  "split_credential v =
     (case dropWhile (\<lambda>c. c \<noteq> CHR ''.'') v of
        [] \<Rightarrow> None
      | dot # secret \<Rightarrow>
          (let i = takeWhile (\<lambda>c. c \<noteq> CHR ''.'') v
           in if i = [] \<or> secret = [] then None else Some (i, secret)))"

definition verify_secret :: "server_lib \<Rightarrow> string option \<Rightarrow> string \<Rightarrow> bool" where
  "verify_secret lib hash secret =
     (case hash of None \<Rightarrow> False | Some h \<Rightarrow> if h = '''' then False else argon_verify lib h secret)"

definition ENROLLMENT_TOKEN_TTL :: timedelta where "ENROLLMENT_TOKEN_TTL = secs (15 * 60)"

text \<open>\<open>create\<close>, less the token it also issues.\<close>

definition create_machine :: "string \<Rightarrow> registry \<Rightarrow> registry" where
  "create_machine mid reg =
     (if machines reg mid = None then reg\<lparr>machines := (machines reg)(mid \<mapsto> \<lparr>login_hash = None, login_revoked = False\<rparr>)\<rparr>
      else reg)"

text \<open>The token issued, and the row stored; \<open>None\<close> when there is no such machine or the id is taken.\<close>

definition issue_enrollment_token ::
  "server_lib \<Rightarrow> datetime \<Rightarrow> string \<Rightarrow> string \<Rightarrow> string \<Rightarrow> registry \<Rightarrow> (string \<times> registry) option" where
  "issue_enrollment_token lib now tid mid secret reg =
     (if machines reg mid = None \<or> tokens reg tid \<noteq> None then None
      else Some (tid @ ''.'' @ secret,
        reg\<lparr>tokens := (tokens reg)(tid \<mapsto> \<lparr>token_machine = mid, token_hash = argon_hash lib secret,
          token_expires = now + ENROLLMENT_TOKEN_TTL, token_used = False\<rparr>)\<rparr>))"

definition revoke_credential :: "string \<Rightarrow> registry \<Rightarrow> registry" where
  "revoke_credential mid reg =
     (case machines reg mid of
        None \<Rightarrow> reg
      | Some m \<Rightarrow> reg\<lparr>machines := (machines reg)(mid \<mapsto> m\<lparr>login_hash := None, login_revoked := True\<rparr>)\<rparr>)"

text \<open>Deleting a machine deletes its tokens with it.\<close>

definition delete_machine :: "string \<Rightarrow> registry \<Rightarrow> registry" where
  "delete_machine mid reg =
     reg\<lparr>machines := (machines reg)(mid := None),
       tokens := (\<lambda>tid. case tokens reg tid of
         None \<Rightarrow> None | Some r \<Rightarrow> if token_machine r = mid then None else Some r)\<rparr>"

datatype refusal = Malformed | InvalidToken | TransactionFails

text \<open>\<open>enroll\<close> up to the transaction: the row found, if it may be redeemed.\<close>

definition check_token :: "server_lib \<Rightarrow> datetime \<Rightarrow> string \<Rightarrow> registry \<Rightarrow> refusal + (string \<times> string)" where
  "check_token lib now token reg =
     (case split_credential token of
        None \<Rightarrow> Inl Malformed
      | Some (tid, secret) \<Rightarrow>
          if \<not> is_uuid lib tid then Inl Malformed
          else (case tokens reg tid of
                  None \<Rightarrow> Inl InvalidToken
                | Some r \<Rightarrow>
                    if token_used r \<or> token_expires r \<le> now \<or> \<not> verify_secret lib (Some (token_hash r)) secret
                    then Inl InvalidToken
                    else Inr (tid, token_machine r)))"

text \<open>The transaction, which fails when one of the two rows is gone.\<close>

definition commit_enrollment :: "server_lib \<Rightarrow> string \<times> string \<Rightarrow> string \<Rightarrow> registry \<Rightarrow> registry option" where
  "commit_enrollment lib found secret reg =
     (case found of (tid, mid) \<Rightarrow>
        (case (tokens reg tid, machines reg mid) of
           (Some r, Some m) \<Rightarrow>
             Some (reg\<lparr>tokens := (tokens reg)(tid \<mapsto> r\<lparr>token_used := True\<rparr>),
               machines := (machines reg)(mid \<mapsto> m\<lparr>login_hash := Some (argon_hash lib secret), login_revoked := False\<rparr>)\<rparr>)
         | _ \<Rightarrow> None))"

definition enroll_machine ::
  "server_lib \<Rightarrow> datetime \<Rightarrow> string \<Rightarrow> string \<Rightarrow> registry \<Rightarrow> (refusal + (string \<times> string)) \<times> registry" where
  "enroll_machine lib now secret token reg =
     (case check_token lib now token reg of
        Inl e \<Rightarrow> (Inl e, reg)
      | Inr found \<Rightarrow>
          (case commit_enrollment lib found secret reg of
             None \<Rightarrow> (Inl TransactionFails, reg)
           | Some reg' \<Rightarrow> (Inr (snd found, secret), reg')))"

text \<open>The response of the controller.\<close>

definition enroll_response :: "server_lib \<Rightarrow> refusal + (string \<times> string) \<Rightarrow> http_response" where
  "enroll_response lib res =
     (case res of
        Inr (mid, secret) \<Rightarrow> \<lparr>http_status = 200, http_body = Some (render_result lib mid secret)\<rparr>
      | Inl Malformed \<Rightarrow> \<lparr>http_status = 400, http_body = Some (render_error lib ''Malformed enrollment token'')\<rparr>
      | Inl InvalidToken \<Rightarrow>
          \<lparr>http_status = 400, http_body = Some (render_error lib ''Enrollment token is invalid, used, or expired'')\<rparr>
      | Inl TransactionFails \<Rightarrow> \<lparr>http_status = 500, http_body = Some (render_error lib ''Internal server error'')\<rparr>)"

definition verify_machine_credential :: "server_lib \<Rightarrow> registry \<Rightarrow> string \<Rightarrow> string \<Rightarrow> bool" where
  "verify_machine_credential lib reg mid secret =
     (if \<not> is_uuid lib mid then False
      else (case machines reg mid of
              None \<Rightarrow> False
            | Some m \<Rightarrow> if login_revoked m then False else verify_secret lib (login_hash m) secret))"

text \<open>\<open>handleConnection\<close> and the start of \<open>authenticateAgent\<close>: the machine a header stands for. \<open>None\<close> is the
  close with code 4001, or a header that is not an agent's.\<close>

definition authenticate_agent :: "server_lib \<Rightarrow> registry \<Rightarrow> string \<Rightarrow> string option" where
  "authenticate_agent lib reg header =
     (case strip_prefix ''Machine '' header of
        None \<Rightarrow> None
      | Some credential \<Rightarrow>
          (case split_credential credential of
             None \<Rightarrow> None
           | Some (mid, secret) \<Rightarrow> if verify_machine_credential lib reg mid secret then Some mid else None))"

section \<open>Credentials as text\<close>

lemma while_before:
  "d \<notin> set i \<Longrightarrow> dropWhile (\<lambda>c. c \<noteq> d) (i @ d # s) = d # s"
  "d \<notin> set i \<Longrightarrow> takeWhile (\<lambda>c. c \<noteq> d) (i @ d # s) = i"
  by (induction i) auto

text \<open>An id without a dot and a secret, put together and split again.\<close>

lemma split_joined:
  "CHR ''.'' \<notin> set i \<Longrightarrow> i \<noteq> [] \<Longrightarrow> secret \<noteq> [] \<Longrightarrow> split_credential (i @ CHR ''.'' # secret) = Some (i, secret)"
  by (simp only: split_credential_def while_before list.case Let_def simp_thms if_False)

lemma split_Some: "split_credential v = Some (i, secret) \<Longrightarrow> v = i @ CHR ''.'' # secret \<and> i \<noteq> [] \<and> CHR ''.'' \<notin> set i \<and> secret \<noteq> []"
proof -
  assume a: "split_credential v = Some (i, secret)"
  then obtain dot where d: "dropWhile (\<lambda>c. c \<noteq> CHR ''.'') v = dot # secret" "i = takeWhile (\<lambda>c. c \<noteq> CHR ''.'') v" "i \<noteq> []" "secret \<noteq> []"
    by (auto simp: split_credential_def Let_def split: list.splits if_splits)
  have "dot = CHR ''.''" using hd_dropWhile [of "\<lambda>c. c \<noteq> CHR ''.''" v] unfolding d(1) by (metis list.distinct(1) list.sel(1))
  then have v: "v = i @ CHR ''.'' # secret" using takeWhile_dropWhile_id [of "\<lambda>c. c \<noteq> CHR ''.''" v] unfolding d(1) d(2) by simp
  have "CHR ''.'' \<notin> set i" unfolding d(2) using set_takeWhileD by metis
  with v d(3,4) show ?thesis by blast
qed

lemma authenticate_header:
  assumes "server_lib_ok lib" and "is_uuid lib (machine_id creds)" and "machine_secret creds \<noteq> []"
  shows "authenticate_agent lib reg (auth_value creds) =
     (if verify_machine_credential lib reg (machine_id creds) (machine_secret creds) then Some (machine_id creds) else None)"
proof -
  have "split_credential (machine_id creds @ CHR ''.'' # machine_secret creds) = Some (machine_id creds, machine_secret creds)"
    using assms by (intro split_joined) (auto simp: server_lib_ok_def)
  then show ?thesis using strip_prefix_append [of "''Machine ''"]
    by (simp add: authenticate_agent_def auth_value_def)
qed

section \<open>From the token to the connection\<close>

lemma verify_own [simp]: "server_lib_ok lib \<Longrightarrow> verify_secret lib (Some (argon_hash lib x)) x"
  by (auto simp: verify_secret_def server_lib_ok_def)

lemma check_issued:
  assumes "server_lib_ok lib" and "is_uuid lib tid" and "tsecret \<noteq> []"
    and "tokens reg tid = Some \<lparr>token_machine = mid, token_hash = argon_hash lib tsecret, token_expires = t, token_used = False\<rparr>"
    and "now < t"
  shows "check_token lib now (tid @ ''.'' @ tsecret) reg = Inr (tid, mid)"
proof -
  have "split_credential (tid @ CHR ''.'' # tsecret) = Some (tid, tsecret)"
    using assms(1-3) by (intro split_joined) (auto simp: server_lib_ok_def)
  then show ?thesis using assms by (simp add: check_token_def)
qed

lemma commit_verifies:
  assumes "server_lib_ok lib" and "is_uuid lib mid" and "commit_enrollment lib (tid, mid) secret reg = Some reg'"
  shows "verify_machine_credential lib reg' mid secret"
  using assms by (auto simp: commit_enrollment_def verify_machine_credential_def split: option.splits)

section \<open>Tokens over a history\<close>

text \<open>The requests of a history, each served before the next; what a redemption answers is put out.\<close>

datatype request =
    CreateMachine string
  | IssueToken datetime string string string
  | Redeem datetime string string
  | Revoke string
  | Remove string

record redemption =
  red_token :: string
  red_machine :: string
  red_time :: datetime

fun serve_request :: "server_lib \<Rightarrow> registry \<Rightarrow> request \<Rightarrow> redemption list \<times> registry" where
  "serve_request lib reg (CreateMachine mid) = ([], create_machine mid reg)"
| "serve_request lib reg (IssueToken now tid mid secret) =
     (case issue_enrollment_token lib now tid mid secret reg of None \<Rightarrow> ([], reg) | Some (token, reg') \<Rightarrow> ([], reg'))"
| "serve_request lib reg (Redeem now secret token) =
     (case enroll_machine lib now secret token reg of
        (Inl e, reg') \<Rightarrow> ([], reg')
      | (Inr (mid, _), reg') \<Rightarrow>
          ([\<lparr>red_token = fst (the (split_credential token)), red_machine = mid, red_time = now\<rparr>], reg'))"
| "serve_request lib reg (Revoke mid) = ([], revoke_credential mid reg)"
| "serve_request lib reg (Remove mid) = ([], delete_machine mid reg)"

definition empty_registry :: registry where
  "empty_registry = \<lparr>tokens = Map.empty, machines = Map.empty\<rparr>"

fun issued_ids :: "request list \<Rightarrow> string list" where
  "issued_ids [] = []"
| "issued_ids (IssueToken now tid mid secret # rs) = tid # issued_ids rs"
| "issued_ids (r # rs) = issued_ids rs"

text \<open>What a row of a token says of the requests and redemptions before, and what a redemption says.\<close>

definition issued_for :: "request list \<Rightarrow> string \<Rightarrow> string \<Rightarrow> datetime \<Rightarrow> bool" where
  "issued_for rs tid mid expires \<longleftrightarrow>
     (\<exists>t0 secret. IssueToken t0 tid mid secret \<in> set rs \<and> expires = t0 + ENROLLMENT_TOKEN_TTL)"

definition row_ok :: "request list \<Rightarrow> redemption list \<Rightarrow> string \<Rightarrow> token_row \<Rightarrow> bool" where
  "row_ok rs outs tid r \<longleftrightarrow>
     issued_for rs tid (token_machine r) (token_expires r) \<and> (tid \<in> red_token ` set outs \<longrightarrow> token_used r)"

definition redemption_ok :: "request list \<Rightarrow> redemption \<Rightarrow> bool" where
  "redemption_ok rs x \<longleftrightarrow> (\<exists>e. issued_for rs (red_token x) (red_machine x) e \<and> red_time x < e)"

definition tokens_ok :: "request list \<Rightarrow> redemption list \<Rightarrow> registry \<Rightarrow> bool" where
  "tokens_ok rs outs reg \<longleftrightarrow>
     (\<forall>tid r. tokens reg tid = Some r \<longrightarrow> row_ok rs outs tid r)
     \<and> distinct (map red_token outs) \<and> list_all (redemption_ok rs) outs"

lemma issued_for_append [intro]: "issued_for rs tid mid e \<Longrightarrow> issued_for (rs @ rs') tid mid e"
  by (auto simp: issued_for_def)

lemma redemptions_append: "list_all (redemption_ok rs) outs \<Longrightarrow> list_all (redemption_ok (rs @ rs')) outs"
  by (auto simp: redemption_ok_def list_all_iff)

text \<open>A request that redeems nothing and only removes rows.\<close>

lemma tokens_ok_kept:
  assumes "tokens_ok rs outs reg" and "\<And>tid r. tokens reg' tid = Some r \<Longrightarrow> tokens reg tid = Some r"
  shows "tokens_ok (rs @ [q]) outs reg'"
  using assms redemptions_append unfolding tokens_ok_def row_ok_def by blast

lemma issued_ids_append: "issued_ids (rs @ rs') = issued_ids rs @ issued_ids rs'"
  by (induction rs rule: issued_ids.induct) auto

lemma issued_in: "IssueToken t tid mid secret \<in> set rs \<Longrightarrow> tid \<in> set (issued_ids rs)"
  by (induction rs rule: issued_ids.induct) auto

text \<open>A redemption that succeeds finds an unused row in time and marks it used.\<close>

lemma check_token_Inr:
  assumes "check_token lib now token reg = Inr (tid, mid)"
  obtains tsecret r where "split_credential token = Some (tid, tsecret)" and "tokens reg tid = Some r"
    and "\<not> token_used r" and "now < token_expires r" and "token_machine r = mid"
proof (cases "split_credential token")
  case None
  then show thesis using assms by (simp add: check_token_def)
next
  case (Some x)
  obtain i tsecret where x: "x = (i, tsecret)" by fastforce
  show thesis
  proof (cases "tokens reg i")
    case None
    then show thesis using assms Some x by (simp add: check_token_def split: if_splits)
  next
    case (Some r)
    then show thesis using assms \<open>split_credential token = Some x\<close> x that [of tsecret r]
      by (auto simp: check_token_def split: if_splits)
  qed
qed

lemma redeemed:
  assumes "enroll_machine lib now secret token reg = (Inr (mid, sec), reg')"
  obtains tid tsecret r where "split_credential token = Some (tid, tsecret)" and "tokens reg tid = Some r"
    and "\<not> token_used r" and "now < token_expires r" and "token_machine r = mid"
    and "tokens reg' = (tokens reg)(tid \<mapsto> r\<lparr>token_used := True\<rparr>)"
proof -
  obtain tid where check: "check_token lib now token reg = Inr (tid, mid)"
    and commit: "commit_enrollment lib (tid, mid) secret reg = Some reg'"
    using assms by (auto simp: enroll_machine_def split: sum.splits option.splits)
  obtain tsecret r where r: "split_credential token = Some (tid, tsecret)" "tokens reg tid = Some r"
    "\<not> token_used r" "now < token_expires r" "token_machine r = mid"
    using check_token_Inr [OF check] .
  moreover have "tokens reg' = (tokens reg)(tid \<mapsto> r\<lparr>token_used := True\<rparr>)"
    using commit r(2) by (auto simp: commit_enrollment_def split: option.splits)
  ultimately show thesis by (rule that)
qed

lemma refused_redemption: "enroll_machine lib now secret token reg = (Inl e, reg') \<Longrightarrow> reg' = reg"
  by (auto simp: enroll_machine_def split: sum.splits option.splits)

lemma tokens_ok_issued:
  assumes "tokens_ok rs outs reg" and "tid \<notin> set (issued_ids rs)" and "r = IssueToken now tid mid secret"
    and "tokens reg' = (tokens reg)(tid \<mapsto> row)" and "token_machine row = mid" and "token_expires row = now + ENROLLMENT_TOKEN_TTL"
  shows "tokens_ok (rs @ [r]) outs reg'"
proof -
  have "\<not> issued_for rs tid mid' e" for mid' e using assms(2) issued_in by (auto simp: issued_for_def)
  then have "red_token x \<noteq> tid" if "x \<in> set outs" for x
    using assms(1) that unfolding tokens_ok_def redemption_ok_def list_all_iff by metis
  moreover have "issued_for (rs @ [r]) tid mid (now + ENROLLMENT_TOKEN_TTL)" using assms(3) by (auto simp: issued_for_def)
  ultimately have "row_ok (rs @ [r]) outs tid row" using assms(5,6) by (auto simp: row_ok_def)
  then show ?thesis using tokens_ok_kept [OF assms(1), of reg r] assms(4) unfolding tokens_ok_def by simp
qed

lemma tokens_ok_redeemed:
  assumes "tokens_ok rs outs reg" and "tokens reg tid = Some row" and "\<not> token_used row" and "now < token_expires row"
    and "tokens reg' = (tokens reg)(tid \<mapsto> row\<lparr>token_used := True\<rparr>)"
  shows "tokens_ok (rs @ [r]) (outs @ [\<lparr>red_token = tid, red_machine = token_machine row, red_time = now\<rparr>]) reg'"
proof -
  let ?x = "\<lparr>red_token = tid, red_machine = token_machine row, red_time = now\<rparr>"
  have row: "row_ok rs outs tid row" using assms(1,2) by (simp add: tokens_ok_def)
  then have "issued_for (rs @ [r]) tid (token_machine row) (token_expires row)" and new: "tid \<notin> red_token ` set outs"
    using assms(3) by (auto simp: row_ok_def)
  then have "redemption_ok (rs @ [r]) ?x" "row_ok (rs @ [r]) (outs @ [?x]) tid (row\<lparr>token_used := True\<rparr>)"
    using assms(4) by (auto simp: redemption_ok_def row_ok_def)
  moreover have "row_ok (rs @ [r]) (outs @ [?x]) i k" if "tokens reg i = Some k" "i \<noteq> tid" for i k
    using tokens_ok_kept [OF assms(1), of reg r] that by (auto simp: tokens_ok_def row_ok_def)
  moreover have "distinct (map red_token outs)" "list_all (redemption_ok (rs @ [r])) outs"
    using assms(1) redemptions_append by (simp_all add: tokens_ok_def)
  ultimately show ?thesis using new assms(5) by (simp add: tokens_ok_def)
qed

lemma tokens_ok_step:
  assumes "tokens_ok rs outs reg" and "distinct (issued_ids (rs @ [r]))"
  shows "tokens_ok (rs @ [r]) (outs @ fst (serve_request lib reg r)) (snd (serve_request lib reg r))"
proof (cases r)
  case (IssueToken now tid mid secret)
  have fresh: "tid \<notin> set (issued_ids rs)" using assms(2) IssueToken by (simp add: issued_ids_append)
  show ?thesis
  proof (cases "issue_enrollment_token lib now tid mid secret reg")
    case None
    then show ?thesis using tokens_ok_kept [OF assms(1)] IssueToken by simp
  next
    case (Some x)
    then show ?thesis using IssueToken
      by (auto simp: issue_enrollment_token_def split: if_splits intro!: tokens_ok_issued [OF assms(1) fresh refl])
  qed
next
  case (Redeem now secret token)
  show ?thesis
  proof (cases "enroll_machine lib now secret token reg")
    case (Pair res reg')
    show ?thesis
    proof (cases res)
      case (Inl e)
      then show ?thesis using tokens_ok_kept [OF assms(1)] Redeem Pair refused_redemption [of lib now secret token reg e reg']
        by simp
    next
      case (Inr x)
      then obtain mid sec where x: "res = Inr (mid, sec)" by (cases x) auto
      obtain tid tsecret row where row: "split_credential token = Some (tid, tsecret)"
          "tokens reg tid = Some row" "\<not> token_used row" "now < token_expires row" "token_machine row = mid"
          "tokens reg' = (tokens reg)(tid \<mapsto> row\<lparr>token_used := True\<rparr>)"
        using redeemed [of lib now secret token reg mid sec reg'] Pair x by auto
      show ?thesis using tokens_ok_redeemed [OF assms(1) row(2-4,6), of r] Redeem Pair x row(1,5) by simp
    qed
  qed
next
  case (CreateMachine mid)
  have "tokens (create_machine mid reg) = tokens reg" by (simp add: create_machine_def)
  then show ?thesis using tokens_ok_kept [OF assms(1), of "create_machine mid reg" r] CreateMachine by simp
next
  case (Revoke mid)
  have "tokens (revoke_credential mid reg) = tokens reg" by (simp add: revoke_credential_def split: option.split)
  then show ?thesis using tokens_ok_kept [OF assms(1), of "revoke_credential mid reg" r] Revoke by simp
next
  case (Remove mid)
  have "tokens (delete_machine mid reg) tid = Some row \<Longrightarrow> tokens reg tid = Some row" for tid row
    by (auto simp: delete_machine_def split: option.splits if_splits)
  then show ?thesis using tokens_ok_kept [OF assms(1), of "delete_machine mid reg" r] Remove by simp
qed

lemma tokens_ok_run:
  assumes "distinct (issued_ids (rs0 @ rs))" and "tokens_ok rs0 outs reg"
  shows "tokens_ok (rs0 @ rs) (outs @ fst (run_out (serve_request lib) reg rs)) (snd (run_out (serve_request lib) reg rs))"
  using assms
proof (induction rs arbitrary: rs0 outs reg)
  case (Cons r rs)
  have "distinct (issued_ids (rs0 @ [r]))" using Cons.prems(1) by (cases r) (auto simp: issued_ids_append)
  from Cons.IH [OF _ tokens_ok_step [OF Cons.prems(2) this]] Cons.prems(1) show ?case by simp
qed simp

text \<open>A redemption between the check and the commit of another one.\<close>

lemma commit_again:
  assumes "commit_enrollment lib (tid, mid) x reg = Some reg1"
  shows "\<exists>reg2. commit_enrollment lib (tid, mid) y reg1 = Some reg2
     \<and> (\<exists>m. machines reg2 mid = Some m \<and> login_hash m = Some (argon_hash lib y) \<and> \<not> login_revoked m)
     \<and> (\<exists>r. tokens reg1 tid = Some r \<and> token_used r)"
  using assms by (auto simp: commit_enrollment_def split: option.splits)


section \<open>Properties\<close>

text \<open>C7. Enrolling works across the two programs: with a token the server issued and not yet used, before
  it expires and while its machine exists, the server accepts the request; if the agent's \<open>enroll\<close> then
  reports success, the state file records an identity whose header the server's gateway accepts, for that
  very machine, for as long as the row's credential is not changed.\<close>

theorem enrolled_agent_authenticates:
  assumes "server_lib_ok lib" and "is_uuid lib tid" and "is_uuid lib mid" and "tsecret \<noteq> []" and "secret \<noteq> []"
    and "issue_enrollment_token lib t0 tid mid tsecret reg0 = Some (token, reg1)"
    and "tokens reg2 tid = tokens reg1 tid" and "machines reg2 mid \<noteq> None" and "t < t0 + ENROLLMENT_TOKEN_TTL"
    and "enroll_machine lib t secret token reg2 = (answer, reg3)"
    and "codec_ok (store_codec s)" and "parse_enrolled elib (render_result lib mid secret) = Some (mid, secret)"
    and "enroll s elib (\<lambda>url tok. Some (enroll_response lib (fst (enroll_machine lib t secret tok reg2))))
       server token now refused rename_works fault fs = (Inr m, fs')"
    and "machines reg4 mid = machines reg3 mid"
  shows "answer = Inr (mid, secret) \<and> m = mid
     \<and> (\<exists>st creds. recorded s fs' = Some st \<and> st_credentials st = Some creds \<and> \<not> st_decommissioned st
          \<and> authenticate_agent lib reg4 (auth_value creds) = Some mid)"
proof -
  have token: "token = tid @ ''.'' @ tsecret"
    and row: "tokens reg2 tid = Some \<lparr>token_machine = mid, token_hash = argon_hash lib tsecret,
      token_expires = t0 + ENROLLMENT_TOKEN_TTL, token_used = False\<rparr>"
    using assms(6,7) by (auto simp: issue_enrollment_token_def split: if_splits)
  obtain reg' where commit: "commit_enrollment lib (tid, mid) secret reg2 = Some reg'"
    using row assms(8) by (auto simp: commit_enrollment_def)
  have "check_token lib t token reg2 = Inr (tid, mid)"
    unfolding token by (rule check_issued [OF assms(1,2,4) row assms(9)])
  then have served: "enroll_machine lib t secret token reg2 = (Inr (mid, secret), reg')"
    using commit by (simp add: enroll_machine_def)
  from enroll_answered [OF assms(11,13)] obtain old where m: "m = mid"
    and recorded: "recorded s fs' = Some (enrolled_state server (mid, secret) old)"
    using served assms(12) by (auto simp: enroll_response_def)
  let ?creds = "\<lparr>server_url = server, machine_id = mid, machine_secret = secret\<rparr>"
  have same: "machines reg4 mid = machines reg' mid" using assms(10,14) served by simp
  have "verify_machine_credential lib reg4 mid secret"
    using commit_verifies [OF assms(1,3) commit] unfolding verify_machine_credential_def same .
  then have "authenticate_agent lib reg4 (auth_value ?creds) = Some mid"
    using authenticate_header [of lib ?creds reg4] assms(1,3,5) by simp
  then show ?thesis using served assms(10) m recorded by (simp add: enrolled_state_def)
qed

definition example_server :: server_lib where
  "example_server = \<lparr>is_uuid = (\<lambda>i. i \<in> {''t-1'', ''m-1''}), argon_hash = (\<lambda>x. CHR ''h'' # x),
     argon_verify = (\<lambda>h x. h = CHR ''h'' # x), render_result = (\<lambda>mid secret. ''ok''), render_error = (\<lambda>m. m)\<rparr>"

lemma example_server_ok: "server_lib_ok example_server"
  by (auto simp: server_lib_ok_def example_server_def)

definition example_registry :: registry where
  "example_registry = create_machine ''m-1'' empty_registry"

theorem enrolled_agent_authenticates_witness:
  "\<exists>token reg1 answer reg3 fs'.
     issue_enrollment_token example_server 0 ''t-1'' ''m-1'' ''one'' example_registry = Some (token, reg1)
     \<and> enroll_machine example_server 5 ''s3cret'' token reg1 = (answer, reg3) \<and> answer = Inr (''m-1'', ''s3cret'')
     \<and> (\<exists>st creds. recorded example_store fs' = Some st \<and> st_credentials st = Some creds
          \<and> authenticate_agent example_server reg3 (auth_value creds) = Some ''m-1'')"
proof -
  obtain token reg1 where issued: "issue_enrollment_token example_server 0 ''t-1'' ''m-1'' ''one'' example_registry = Some (token, reg1)"
    by (simp add: issue_enrollment_token_def example_registry_def create_machine_def empty_registry_def)
  then have token: "token = ''t-1.one''" and reg1: "machines reg1 ''m-1'' \<noteq> None"
    and row: "tokens reg1 ''t-1'' = Some \<lparr>token_machine = ''m-1'', token_hash = argon_hash example_server ''one'',
      token_expires = 0 + ENROLLMENT_TOKEN_TTL, token_used = False\<rparr>"
    by (auto simp: issue_enrollment_token_def split: if_splits)
  obtain answer reg3 where served: "enroll_machine example_server 5 ''s3cret'' token reg1 = (answer, reg3)" by fastforce
  have ids: "is_uuid example_server ''t-1''" "is_uuid example_server ''m-1''" by (simp_all add: example_server_def)
  have time: "5 < 0 + ENROLLMENT_TOKEN_TTL" by (simp add: ENROLLMENT_TOKEN_TTL_def secs_def)
  have "check_token example_server 5 (''t-1'' @ ''.'' @ ''one'') reg1 = Inr (''t-1'', ''m-1'')"
    by (rule check_issued [OF example_server_ok ids(1) _ row time]) simp
  then have "fst (enroll_machine example_server 5 ''s3cret'' ''t-1.one'' reg1) = Inr (''m-1'', ''s3cret'')"
    using row reg1 by (auto simp: enroll_machine_def commit_enrollment_def)
  then have "enroll example_store example_enroll_lib (\<lambda>url tok. Some (enroll_response example_server
      (fst (enroll_machine example_server 5 ''s3cret'' tok reg1)))) ''https://t.example'' token 9 False True None Map.empty
    = (Inr ''m-1'', snd (enroll example_store example_enroll_lib (\<lambda>url tok. Some (enroll_response example_server
      (fst (enroll_machine example_server 5 ''s3cret'' tok reg1)))) ''https://t.example'' token 9 False True None Map.empty))"
    by (simp add: token enroll_def enroll_response_def is_success_def example_enroll_lib_def example_server_def
        load_for_enroll_def load_def read_file_def save_ok_fault_free)
  from enrolled_agent_authenticates [OF example_server_ok ids _ _ issued refl reg1 time served _ _ this refl]
  show ?thesis using issued served by (auto simp: example_store_def plain_codec_ok example_enroll_lib_def example_server_def)
qed

text \<open>C23. A token enrolls one machine once: over any history of requests served one after the other, each
  token is redeemed at most once, only for the machine it was issued for and only in the fifteen minutes
  after that, whatever is revoked, removed and issued in between.\<close>

theorem tokens_redeemed_once:
  assumes "distinct (issued_ids rs)"
  shows "distinct (map red_token (fst (run_out (serve_request lib) empty_registry rs)))
     \<and> (\<forall>x \<in> set (fst (run_out (serve_request lib) empty_registry rs)).
          \<exists>t0 secret. IssueToken t0 (red_token x) (red_machine x) secret \<in> set rs
            \<and> red_time x < t0 + ENROLLMENT_TOKEN_TTL)"
proof -
  have "tokens_ok [] [] empty_registry" by (simp add: tokens_ok_def empty_registry_def)
  from tokens_ok_run [of "[]" rs "[]", OF _ this, of lib] assms
  have "tokens_ok rs (fst (run_out (serve_request lib) empty_registry rs)) (snd (run_out (serve_request lib) empty_registry rs))"
    by simp
  then show ?thesis unfolding tokens_ok_def list_all_iff redemption_ok_def issued_for_def by blast
qed

theorem tokens_redeemed_once_witness:
  "map red_token (fst (run_out (serve_request example_server) empty_registry
     [CreateMachine ''m-1'', IssueToken 0 ''t-1'' ''m-1'' ''one'', Redeem 5 ''s3cret'' ''t-1.one'', Redeem 6 ''other'' ''t-1.one'']))
   = [''t-1''] \<and> distinct (map red_token (fst (run_out (serve_request example_server) empty_registry
     [CreateMachine ''m-1'', IssueToken 0 ''t-1'' ''m-1'' ''one'', Redeem 5 ''s3cret'' ''t-1.one'', Redeem 6 ''other'' ''t-1.one''])))"
  (is "?runs = _ \<and> _")
proof
  let ?rs = "[CreateMachine ''m-1'', IssueToken 0 ''t-1'' ''m-1'' ''one'', Redeem 5 ''s3cret'' ''t-1.one'', Redeem 6 ''other'' ''t-1.one'']"
  show "distinct (map red_token (fst (run_out (serve_request example_server) empty_registry ?rs)))"
    by (rule conjunct1 [OF tokens_redeemed_once]) simp
  have split: "split_credential ''t-1.one'' = Some (''t-1'', ''one'')" by code_simp
  show "?runs = [''t-1'']"
    by (simp add: split create_machine_def issue_enrollment_token_def enroll_machine_def check_token_def commit_enrollment_def
        verify_secret_def empty_registry_def example_server_def ENROLLMENT_TOKEN_TTL_def secs_def)
qed

text \<open>C24. Overlapping redemptions break the single use: when a second request with the token is checked
  before the first one's transaction, both succeed, and the agent answered first is enrolled with a
  credential the server refuses from then on; checked after it, the second request is refused.\<close>

theorem overlapping_redemptions_both_succeed:
  assumes "server_lib_ok lib" and "check_token lib t1 token reg = Inr (tid, mid)" and "is_uuid lib mid" and "machines reg mid \<noteq> None"
    and "\<not> argon_verify lib (argon_hash lib y) x" and "x \<noteq> []" and "y \<noteq> []"
  shows "\<exists>reg1 reg2. commit_enrollment lib (tid, mid) x reg = Some reg1 \<and> commit_enrollment lib (tid, mid) y reg1 = Some reg2
     \<and> authenticate_agent lib reg1 (auth_value \<lparr>server_url = url, machine_id = mid, machine_secret = x\<rparr>) = Some mid
     \<and> authenticate_agent lib reg2 (auth_value \<lparr>server_url = url, machine_id = mid, machine_secret = x\<rparr>) = None
     \<and> authenticate_agent lib reg2 (auth_value \<lparr>server_url = url, machine_id = mid, machine_secret = y\<rparr>) = Some mid
     \<and> check_token lib t2 token reg1 = Inl InvalidToken"
proof -
  obtain tsecret r where r: "split_credential token = Some (tid, tsecret)" "tokens reg tid = Some r"
    using check_token_Inr [OF assms(2)] by metis
  obtain reg1 where reg1: "commit_enrollment lib (tid, mid) x reg = Some reg1"
    using r(2) assms(4) by (auto simp: commit_enrollment_def)
  obtain reg2 m r' where reg2: "commit_enrollment lib (tid, mid) y reg1 = Some reg2" "machines reg2 mid = Some m"
      "login_hash m = Some (argon_hash lib y)" "\<not> login_revoked m" and used: "tokens reg1 tid = Some r'" "token_used r'"
    using commit_again [OF reg1, of y] by blast
  have "verify_machine_credential lib reg1 mid x" "verify_machine_credential lib reg2 mid y"
    using commit_verifies [OF assms(1,3)] reg1 reg2(1) by blast+
  moreover have "\<not> verify_machine_credential lib reg2 mid x"
    using reg2(2-4) assms(5) by (simp add: verify_machine_credential_def verify_secret_def)
  moreover have "check_token lib t2 token reg1 = Inl InvalidToken"
    using assms(2) r(1) used by (auto simp: check_token_def split: if_splits)
  ultimately show ?thesis using reg1 reg2(1) assms(1,3,6,7) by (simp add: authenticate_header)
qed

theorem overlapping_redemptions_both_succeed_witness:
  "\<exists>token reg reg1 reg2. issue_enrollment_token example_server 0 ''t-1'' ''m-1'' ''one'' example_registry = Some (token, reg)
     \<and> commit_enrollment example_server (''t-1'', ''m-1'') ''x'' reg = Some reg1
     \<and> commit_enrollment example_server (''t-1'', ''m-1'') ''y'' reg1 = Some reg2
     \<and> authenticate_agent example_server reg2 (auth_value \<lparr>server_url = ''u'', machine_id = ''m-1'', machine_secret = ''x''\<rparr>) = None"
proof -
  obtain token reg where issued: "issue_enrollment_token example_server 0 ''t-1'' ''m-1'' ''one'' example_registry = Some (token, reg)"
    by (simp add: issue_enrollment_token_def example_registry_def create_machine_def empty_registry_def)
  then have reg: "machines reg ''m-1'' \<noteq> None"
    and row: "tokens reg ''t-1'' = Some \<lparr>token_machine = ''m-1'', token_hash = argon_hash example_server ''one'',
      token_expires = 0 + ENROLLMENT_TOKEN_TTL, token_used = False\<rparr>"
    by (auto simp: issue_enrollment_token_def split: if_splits)
  have ids: "is_uuid example_server ''t-1''" "is_uuid example_server ''m-1''" by (simp_all add: example_server_def)
  have time: "5 < 0 + ENROLLMENT_TOKEN_TTL" by (simp add: ENROLLMENT_TOKEN_TTL_def secs_def)
  have "check_token example_server 5 (''t-1'' @ ''.'' @ ''one'') reg = Inr (''t-1'', ''m-1'')"
    by (rule check_issued [OF example_server_ok ids(1) _ row time]) simp
  moreover have "\<not> argon_verify example_server (argon_hash example_server ''y'') ''x''" by (simp add: example_server_def)
  ultimately obtain reg1 reg2 where "commit_enrollment example_server (''t-1'', ''m-1'') ''x'' reg = Some reg1"
    "commit_enrollment example_server (''t-1'', ''m-1'') ''y'' reg1 = Some reg2"
    "authenticate_agent example_server reg2 (auth_value \<lparr>server_url = ''u'', machine_id = ''m-1'', machine_secret = ''x''\<rparr>) = None"
    using overlapping_redemptions_both_succeed [OF example_server_ok _ ids(2) reg, of 5 _ _ "''y''" "''x''" "''u''" 6] by blast
  then show ?thesis using issued by blast
qed

end
