(* ===== verification/Pacing.thy ===== *)
theory Pacing imports Machine begin

text \<open>
  The run loop in time. The ticker of the run loop (\<open>tokio::time::interval\<close>, \<open>main.rs\<close>) is due every
  \<open>TICK_INTERVAL\<close> from its start on and stays due until it is served, also when it was served late; how
  late is up to the machine and the other branch of the select, so a bound on it is a parameter. With an
  honest clock that gives bounds in time: how long after the deadline the machine can be used, how soon
  it is locked again, and how often the lock is run.
\<close>

section \<open>Timed runs\<close>

definition period :: timedelta where "period = secs (int TICK_INTERVAL)"

type_synonym timed = "(datetime \<times> loop_input) list"

text \<open>\<open>due\<close> is when the ticker is due next, \<open>now\<close> the time of the input before. Nothing is served once a tick
  has been due for longer than the lateness allowed.\<close>

fun served :: "timedelta \<Rightarrow> datetime \<Rightarrow> datetime \<Rightarrow> timed \<Rightarrow> bool" where
  "served lateness due now [] = True"
| "served lateness due now ((t, TickAt r) # tis) =
     (now \<le> t \<and> due \<le> t \<and> t \<le> due + lateness \<and> os_now r = t \<and> served lateness (due + period) t tis)"
| "served lateness due now ((t, i) # tis) = (now \<le> t \<and> t \<le> due + lateness \<and> served lateness due t tis)"

fun is_tick :: "loop_input \<Rightarrow> bool" where
  "is_tick (TickAt r) = True"
| "is_tick i = False"

definition ticks :: "timed \<Rightarrow> nat" where
  "ticks tis = length (filter (is_tick \<circ> snd) tis)"

text \<open>The time of the ticker after the run.\<close>

definition due_after :: "datetime \<Rightarrow> timed \<Rightarrow> datetime" where
  "due_after due tis = due + int (ticks tis) * period"

text \<open>The run as seen until the time \<open>stop\<close>: nothing later, and no tick overdue.\<close>

definition seen_until :: "timedelta \<Rightarrow> datetime \<Rightarrow> timed \<Rightarrow> datetime \<Rightarrow> bool" where
  "seen_until lateness due tis stop \<longleftrightarrow> (\<forall>x \<in> set tis. fst x \<le> stop) \<and> stop \<le> due_after due tis + lateness"

text \<open>Inputs that bring no news of the session, with the server's clock not ahead.\<close>

fun brings_no_news :: "datetime \<times> loop_input \<Rightarrow> bool" where
  "brings_no_news (t, TickAt r) = True"
| "brings_no_news (t, EventRecv None m) = True"
| "brings_no_news (t, EventRecv (Some (ServerTime s)) m) = (s \<le> t)"
| "brings_no_news (t, i) = False"

definition timed_step :: "loop_state \<Rightarrow> datetime \<times> loop_input \<Rightarrow> (datetime \<times> action) list \<times> loop_state" where
  "timed_step ls x = (case loop_step ls (snd x) of (plan, ls') \<Rightarrow> (map (Pair (fst x)) plan, ls'))"

text \<open>The calls of a run, each with the time of the input it belongs to.\<close>

definition timed_calls :: "loop_state \<Rightarrow> timed \<Rightarrow> (datetime \<times> action) list" where
  "timed_calls ls tis = fst (run_out timed_step ls tis)"

lemma timed_calls_Nil [simp]: "timed_calls ls [] = []"
  by (simp add: timed_calls_def)

lemma timed_calls_Cons [simp]:
  "timed_calls ls (x # tis) = map (Pair (fst x)) (fst (loop_step ls (snd x))) @ timed_calls (snd (loop_step ls (snd x))) tis"
  by (simp add: timed_calls_def timed_step_def split: prod.splits)

lemma ticks_simps [simp]:
  "ticks [] = 0" "ticks ((t, TickAt r) # tis) = Suc (ticks tis)" "\<not> is_tick i \<Longrightarrow> ticks ((t, i) # tis) = ticks tis"
  by (simp_all add: ticks_def)

lemma due_after_simps [simp]:
  "due_after due [] = due" "due_after due ((t, TickAt r) # tis) = due_after (due + period) tis"
  "\<not> is_tick i \<Longrightarrow> due_after due ((t, i) # tis) = due_after due tis"
  by (simp_all add: due_after_def algebra_simps)

lemma served_other [simp]:
  "\<not> is_tick i \<Longrightarrow> served lateness due now ((t, i) # tis) \<longleftrightarrow> now \<le> t \<and> t \<le> due + lateness \<and> served lateness due t tis"
  by (cases i) simp_all

lemma period_secs: "period = secs 2"
  by (simp add: period_def TICK_INTERVAL_def)

lemma period_pos: "0 < period"
  by (simp add: period_def TICK_INTERVAL_def secs_def)

section \<open>A loop past its deadline\<close>

text \<open>The clock has not run ahead of the time, and no session lasts beyond the deadline.\<close>

definition on_time :: "datetime \<Rightarrow> datetime \<Rightarrow> loop_state \<Rightarrow> bool" where
  "on_time deadline now ls \<longleftrightarrow>
     \<not> ls_decommissioned ls \<and> high_water_mark (ls_clock ls) \<le> now \<and> \<not> usable_at (st_session (ls_state ls)) deadline"

lemma on_time_tick:
  assumes "on_time deadline now ls" and "now \<le> t" and "os_now r = t"
  shows "on_time deadline t (snd (loop_step ls (TickAt r)))
     \<and> (EnableUsage \<in> set (fst (loop_step ls (TickAt r))) \<longrightarrow> t < deadline)
     \<and> (deadline \<le> t \<longrightarrow> DisableUsage \<in> set (fst (loop_step ls (TickAt r))) \<and> tick_blocks ls (TickAt r))"
proof -
  let ?s = "st_session (ls_state ls)"
  have m: "\<not> ls_decommissioned ls" using assms(1) by (simp add: on_time_def)
  have g: "guard_now (ls_clock ls) r = Some (t, \<lparr>high_water_mark = t, anchor = mono_anchor r\<rparr>)"
    using guard_now_honest [of "ls_clock ls" r] assms by (simp add: on_time_def)
  have late: "\<not> usable_at ?s t" if "deadline \<le> t"
    using assms(1) that usable_at_antimono [of ?s t deadline] by (auto simp: on_time_def)
  have "\<not> usable_at (snd (advance ?s t)) deadline"
    using assms(1) by (simp add: on_time_def usable_at_advance)
  moreover have "tick_blocks ls (TickAt r)" if "deadline \<le> t" using late [OF that] m g by simp
  moreover have "t < deadline" if "usable_at ?s t" using late that by (meson not_le)
  ultimately show ?thesis using on_tick_managed [OF m g] m late
    by (auto simp: on_time_def)
qed

lemma on_time_other:
  assumes "on_time deadline now ls" and "now \<le> t" and "brings_no_news (t, i)" and "\<not> is_tick i"
  shows "on_time deadline t (snd (loop_step ls i)) \<and> EnableUsage \<notin> set (fst (loop_step ls i)) \<and> \<not> tick_blocks ls i"
  using assms by (cases "(t, i)" rule: brings_no_news.cases) (auto simp: on_time_def handler_defs)

text \<open>Without news, no release from the deadline on.\<close>

lemma releases_before_deadline:
  assumes "served lateness due now tis" and "list_all brings_no_news tis" and "on_time deadline now ls"
    and "(t, EnableUsage) \<in> set (timed_calls ls tis)"
  shows "t < deadline"
  using assms
proof (induction tis arbitrary: due now ls)
  case (Cons x tis)
  obtain u i where x: "x = (u, i)" by fastforce
  show ?case
  proof (cases "is_tick i")
    case True
    then obtain r where i: "i = TickAt r" by (cases i) auto
    then show ?thesis using Cons.prems Cons.IH [of "due + period" u] on_time_tick [OF Cons.prems(3), of u r] x by auto
  next
    case False
    then show ?thesis using Cons.prems Cons.IH [of due u] on_time_other [OF Cons.prems(3), of u i] x by auto
  qed
qed simp

text \<open>A window of a period and the lateness holds a tick.\<close>

lemma lock_in_window:
  assumes "served lateness due now tis" and "list_all brings_no_news tis" and "on_time deadline now ls" and "0 \<le> lateness"
    and "deadline \<le> u" and "due \<le> u + period" and "u + period + lateness < stop" and "stop \<le> due_after due tis + lateness"
  shows "\<exists>t. u \<le> t \<and> t \<le> u + period + lateness \<and> (t, DisableUsage) \<in> set (timed_calls ls tis)"
  using assms(1-3,6,8)
proof (induction tis arbitrary: due now ls)
  case Nil
  then show ?case using assms(7) by simp
next
  case (Cons x tis)
  obtain t i where x: "x = (t, i)" by fastforce
  show ?case
  proof (cases "is_tick i")
    case True
    then obtain r where i: "i = TickAt r" by (cases i) auto
    note step = on_time_tick [OF Cons.prems(3), of t r]
    show ?thesis
    proof (cases "u \<le> t")
      case True
      then have "(t, DisableUsage) \<in> set (timed_calls ls (x # tis))" using step Cons.prems(1) assms(5) x i by simp
      then show ?thesis using True Cons.prems(1,4) x i by auto
    next
      case False
      then have "due + period \<le> u + period" using Cons.prems(1) x i by simp
      then show ?thesis using Cons.IH [of "due + period" t "snd (loop_step ls i)"] Cons.prems step x i by auto
    qed
  next
    case False
    then show ?thesis
      using Cons.IH [of due t "snd (loop_step ls i)"] Cons.prems on_time_other [OF Cons.prems(3), of t i] x by auto
  qed
qed

text \<open>From the deadline on every tick blocks.\<close>

lemma every_tick_locks:
  assumes "served lateness due now tis" and "list_all brings_no_news tis" and "on_time deadline now ls" and "deadline \<le> due"
  shows "locks_due ls (map snd tis) = ticks tis"
  using assms
proof (induction tis arbitrary: due now ls)
  case (Cons x tis)
  obtain t i where x: "x = (t, i)" by fastforce
  show ?case
  proof (cases "is_tick i")
    case True
    then obtain r where i: "i = TickAt r" by (cases i) auto
    then show ?thesis using Cons.prems Cons.IH [of "due + period" t "snd (loop_step ls i)"]
        on_time_tick [OF Cons.prems(3), of t r] period_pos x by simp
  next
    case False
    then show ?thesis using Cons.prems Cons.IH [of due t "snd (loop_step ls i)"] on_time_other [OF Cons.prems(3), of t i] x by simp
  qed
qed simp

text \<open>The last tick was not before it was due.\<close>

lemma ticks_bound:
  assumes "served lateness due now tis" and "\<forall>x \<in> set tis. fst x \<le> stop" and "due \<le> stop + period"
  shows "due_after due tis \<le> stop + period"
  using assms
proof (induction tis arbitrary: due now)
  case (Cons x tis)
  obtain t i where x: "x = (t, i)" by fastforce
  show ?case
  proof (cases "is_tick i")
    case True
    then obtain r where i: "i = TickAt r" by (cases i) auto
    then have "due + period \<le> stop + period" using Cons.prems(1,2) x by simp
    then show ?thesis using Cons.IH [of "due + period" t] Cons.prems x i by simp
  next
    case False
    then show ?thesis using Cons.IH [of due t] Cons.prems x by simp
  qed
qed simp

context prompt_machine
begin

text \<open>On a machine that runs the lock at every call, the number of locks keeps pace with the time.\<close>

lemma locks_keep_pace:
  assumes "served lateness due now tis" and "list_all brings_no_news tis" and "on_time deadline now ls" and "deadline \<le> due"
    and "seen_until lateness due tis stop" and "due \<le> stop + period"
    and "ds \<in> deliveries (fst (run_out loop_step ls (map snd tis)))"
  shows "stop - due - lateness \<le> int (count (ran (fold perform ds d)) lock - count (ran d) lock) * period
     \<and> int (count (ran (fold perform ds d)) lock - count (ran d) lock) * period \<le> stop - due + period"
proof -
  obtain C where C: "ran (fold perform ds d) = ran d + C" "count C lock = locks_due ls (map snd tis)"
    using run_count [OF assms(7), of d] by blast
  then have "count (ran (fold perform ds d)) lock - count (ran d) lock = ticks tis"
    using every_tick_locks [OF assms(1-4)] by simp
  moreover have "due_after due tis \<le> stop + period"
    using ticks_bound [OF assms(1) _ assms(6)] assms(5) by (simp add: seen_until_def)
  ultimately show ?thesis using assms(5) by (simp add: seen_until_def due_after_def)
qed

end

text \<open>How often the lock is run by the deliveries \<open>ds\<close>.\<close>

definition linux_locks :: "'o exec \<Rightarrow> action list \<Rightarrow> 'o linux_notifier \<Rightarrow> nat" where
  "linux_locks exec ds d = count (linux_ran (fold (linux_perform exec) ds d)) linux_lock - count (linux_ran d) linux_lock"

definition mac_locks :: "'o exec \<Rightarrow> 'o mac_os \<Rightarrow> action list \<Rightarrow> 'o mac_machine \<Rightarrow> nat" where
  "mac_locks exec os ds d = count (mac_ran (fold (mac_perform exec os) ds d)) mac_lock - count (mac_ran d) mac_lock"

section \<open>Properties\<close>

text \<open>C5. The machine is locked in time: without news from the server and with an honest clock, whatever
  else the loop is given, a window of one tick interval and the lateness of the ticker (2 seconds and
  what the machine is behind), anywhere from the deadline on, holds a call that locks, so the first
  comes within that time of the deadline and none is further from the next; and from the deadline on
  nothing releases the machine.\<close>

theorem locked_in_time:
  assumes "served lateness due now tis" and "list_all brings_no_news tis" and "0 \<le> lateness"
    and "\<not> ls_decommissioned ls" and "high_water_mark (ls_clock ls) \<le> now" and "\<not> usable_at (st_session (ls_state ls)) deadline"
    and "deadline \<le> u" and "due \<le> u + secs 2" and "u + secs 2 + lateness < stop" and "seen_until lateness due tis stop"
  shows "(\<exists>t. u \<le> t \<and> t \<le> u + secs 2 + lateness \<and> (t, DisableUsage) \<in> set (timed_calls ls tis))
     \<and> (\<forall>t. (t, EnableUsage) \<in> set (timed_calls ls tis) \<longrightarrow> t < deadline)"
proof -
  have ls: "on_time deadline now ls" using assms(4-6) by (simp add: on_time_def)
  have "stop \<le> due_after due tis + lateness" using assms(10) by (simp add: seen_until_def)
  from lock_in_window [OF assms(1,2) ls assms(3,7) assms(8,9) [folded period_secs] this] releases_before_deadline [OF assms(1,2) ls]
  show ?thesis unfolding period_secs by blast
qed

definition example_timed :: timed where
  "example_timed = [(secs 1799, TickAt \<lparr>os_now = secs 1799, mono_elapsed = 0, mono_anchor = 0\<rparr>),
     (secs 1800, EventRecv (Some (ServerTime (secs 1800))) 0),
     (secs 1801, TickAt \<lparr>os_now = secs 1801, mono_elapsed = 0, mono_anchor = 0\<rparr>),
     (secs 1803, TickAt \<lparr>os_now = secs 1803, mono_elapsed = 0, mono_anchor = 0\<rparr>)]"

theorem locked_in_time_witness:
  "\<exists>t. secs 1800 \<le> t \<and> t \<le> secs 1802 \<and> (t, DisableUsage) \<in> set (timed_calls example_loop example_timed)"
proof -
  have p: "served 0 (secs 1799) 0 example_timed" "list_all brings_no_news example_timed"
      "seen_until 0 (secs 1799) example_timed (secs 1804)"
    by (simp_all add: example_timed_def period_def TICK_INTERVAL_def secs_def seen_until_def)
  have l: "\<not> ls_decommissioned example_loop" "high_water_mark (ls_clock example_loop) \<le> 0"
      "\<not> usable_at (st_session (ls_state example_loop)) (secs 1800)"
    by (simp_all add: example_loop_def guard_new_def usable_at_def example_session_def)
  have t: "secs 1799 \<le> secs 1800 + secs 2" "secs 1800 + secs 2 + 0 < secs 1804" "secs 1800 + secs 2 + 0 = secs 1802"
    by (simp_all add: secs_def)
  from locked_in_time [OF p(1,2) order_refl l order_refl t(1,2) p(3)] show ?thesis unfolding t(3) by blast
qed

text \<open>C15. The lock is really run, at that pace: over a stretch of time past the deadline, on Linux and on
  macOS, however the warnings interleave and whatever the programs answer, the number of locks run
  times the tick interval is the length of the stretch, up to the lateness less and one interval more.\<close>

theorem locks_run_at_pace:
  assumes "served lateness due now tis" and "list_all brings_no_news tis"
    and "\<not> ls_decommissioned ls" and "high_water_mark (ls_clock ls) \<le> now" and "\<not> usable_at (st_session (ls_state ls)) deadline"
    and "deadline \<le> due" and "seen_until lateness due tis stop" and "due \<le> stop + secs 2"
    and "ds \<in> deliveries (fst (run_out loop_step ls (map snd tis)))"
  shows "int (linux_locks exec ds d) * secs 2 \<in> {stop - due - lateness .. stop - due + secs 2}
     \<and> int (mac_locks exec' os ds d') * secs 2 \<in> {stop - due - lateness .. stop - due + secs 2}"
proof -
  have ls: "on_time deadline now ls" using assms(3-5) by (simp add: on_time_def)
  show ?thesis
    using linux_machine.locks_keep_pace [OF assms(1,2) ls assms(6,7) assms(8) [folded period_secs] assms(9), of exec d]
      mac_machine.locks_keep_pace [OF assms(1,2) ls assms(6,7) assms(8) [folded period_secs] assms(9), of exec' os d']
    unfolding period_secs by (simp add: linux_locks_def mac_locks_def)
qed

text \<open>Two ticks in three seconds.\<close>

theorem locks_run_at_pace_witness:
  "\<exists>ds. ds \<in> deliveries (fst (run_out loop_step example_loop (map snd (drop 2 example_timed))))
     \<and> int (linux_locks Linux.example_exec ds (linux_notifier_new example_host)) * secs 2 \<in> {secs 3 .. secs 5}"
proof -
  let ?tis = "drop 2 example_timed"
  let ?plan = "fst (run_out loop_step example_loop (map snd ?tis))"
  have p: "served 0 (secs 1801) 0 ?tis" "list_all brings_no_news ?tis" "seen_until 0 (secs 1801) ?tis (secs 1804)"
    by (simp_all add: example_timed_def period_def TICK_INTERVAL_def secs_def seen_until_def)
  have l: "\<not> ls_decommissioned example_loop" "high_water_mark (ls_clock example_loop) \<le> 0"
      "\<not> usable_at (st_session (ls_state example_loop)) (secs 1800)"
    by (simp_all add: example_loop_def guard_new_def usable_at_def example_session_def)
  have t: "secs 1800 \<le> secs 1801" "secs 1801 \<le> secs 1804 + secs 2" "secs 1804 - secs 1801 - 0 = secs 3"
      "secs 1804 - secs 1801 + secs 2 = secs 5"
    by (simp_all add: secs_def)
  have ds: "filter is_enforcement ?plan \<in> deliveries ?plan"
    unfolding deliveries_def by (intro UN_I [of 0]) simp_all
  from locks_run_at_pace [OF p(1,2) l t(1) p(3) t(2) ds, of Linux.example_exec "linux_notifier_new example_host"]
  show ?thesis unfolding t(3,4) using ds by blast
qed

end
