(* ===== verification/Session_Tests.thy ===== *)
theory Session_Tests imports Session begin

text \<open>
  The unit tests of \<open>agent/src/session.rs\<close> (its \<open>mod tests\<close>), run on the model. A test is a
  definition with the name of the Rust function: the conjunction of its assertions, with the
  readings of \<open>Utc::now()\<close>, in the order the test takes them, as its arguments. Where the verdict
  depends on the clock, the lemma that the test passes says on what: that consecutive readings are
  in order, and that a test whose session has ten minutes left does not itself take ten minutes.
\<close>

section \<open>The fixture\<close>

definition minutes :: "int \<Rightarrow> timedelta" where
  "minutes n = secs (n * 60)"

definition hours :: "int \<Rightarrow> timedelta" where
  "hours n = secs (n * 3600)"

lemmas durations = minutes_def hours_def secs_def

text \<open>\<open>snapshot\<close> reads the clock twice, for the start and for the expiry.\<close>

definition snapshot ::
  "session_status \<Rightarrow> timedelta \<Rightarrow> datetime \<Rightarrow> datetime \<Rightarrow> datetime \<Rightarrow> session_snapshot" where
  "snapshot st expires_in updated now1 now2 =
     \<lparr>snap_id = ''session-1'', started_at = now1 - minutes 1, expires_at = now2 + expires_in,
      status = st, updated_at = updated\<rparr>"

text \<open>A session that started at a given time and runs for some minutes, as three tests write it out.\<close>

definition session_from :: "datetime \<Rightarrow> int \<Rightarrow> session_snapshot" where
  "session_from started n =
     \<lparr>snap_id = ''s'', started_at = started, expires_at = started + minutes n,
      status = Active, updated_at = started\<rparr>"

lemmas session_fixture = snapshot_def session_from_def durations

section \<open>Local expiry\<close>

definition no_session_is_blocked :: "datetime \<Rightarrow> bool" where
  "no_session_is_blocked now = (fst (advance None now) = Blocked)"

definition active_session_before_expiry_is_allowed :: "datetime list \<Rightarrow> bool" where
  "active_session_before_expiry_is_allowed now =
     (let session = Some (snapshot Active (minutes 10) (now ! 0) (now ! 1) (now ! 2))
      in fst (advance session (now ! 3)) = Allowed)"

definition active_session_past_expiry_becomes_locally_expired_and_blocked :: "datetime list \<Rightarrow> bool" where
  "active_session_past_expiry_becomes_locally_expired_and_blocked now =
     (let session = Some (snapshot Active (secs (-1)) (now ! 0) (now ! 1) (now ! 2));
          (desired, session') = advance session (now ! 3)
      in desired = Blocked \<and> map_option status session' = Some Expired)"

definition ended_session_is_blocked :: "datetime list \<Rightarrow> bool" where
  "ended_session_is_blocked now =
     (let session = Some (snapshot Ended (minutes 10) (now ! 0) (now ! 1) (now ! 2))
      in fst (advance session (now ! 3)) = Blocked)"

definition disconnected_expiry_with_no_server_messages_still_blocks_at_expires_at :: "datetime \<Rightarrow> bool" where
  "disconnected_expiry_with_no_server_messages_still_blocks_at_expires_at started =
     (let session = Some (session_from started 30);
          (at29, session') = advance session (started + minutes 29);
          (at31, _) = advance session' (started + minutes 31)
      in at29 = Allowed \<and> at31 = Blocked)"

definition restarting_with_a_persisted_active_session_does_not_reset_the_timer :: "datetime list \<Rightarrow> bool" where
  "restarting_with_a_persisted_active_session_does_not_reset_the_timer now =
     (let started_long_ago = now ! 0 - hours 1;
          session = Some (session_from started_long_ago 30)
      in fst (advance session (now ! 1)) = Blocked)"

definition extending_a_session_pushes_expiry_out :: "datetime \<Rightarrow> bool" where
  "extending_a_session_pushes_expiry_out started =
     (let (at6, session) = advance (Some (session_from started 5)) (started + minutes 6);
          extended = (the session)\<lparr>expires_at := started + minutes 20,
                                   updated_at := started + minutes 6, status := Active\<rparr>;
          (_, session', _) =
            apply_server_message session started (Some extended) (updated_at extended)
      in at6 = Blocked \<and> session \<noteq> None \<and> fst (advance session' (started + minutes 10)) = Allowed)"

section \<open>The stale-message gate\<close>

definition stale_message_is_rejected_and_does_not_replace_newer_local_state :: "datetime list \<Rightarrow> bool" where
  "stale_message_is_rejected_and_does_not_replace_newer_local_state now =
     (let base = now ! 0;
          session = Some (snapshot Active (minutes 30) base (now ! 1) (now ! 2));
          stale = snapshot Ended (minutes 30) (base - secs 5) (now ! 3) (now ! 4);
          (applied, session', _) = apply_server_message session base (Some stale) (base - secs 5)
      in \<not> applied \<and> map_option status session' = Some Active)"

definition newer_message_reporting_no_active_session_is_applied :: "datetime list \<Rightarrow> bool" where
  "newer_message_reporting_no_active_session_is_applied now =
     (let base = now ! 0;
          session = Some (snapshot Active (minutes 30) base (now ! 1) (now ! 2));
          server_time = base + secs 5;
          (applied, session', last_applied_at) = apply_server_message session base None server_time
      in applied \<and> session' = None \<and> last_applied_at = server_time)"

definition reconciliation_after_reconnect_prefers_the_servers_view_when_newer :: "datetime list \<Rightarrow> bool" where
  "reconciliation_after_reconnect_prefers_the_servers_view_when_newer now =
     (let base = now ! 0;
          session = Some (snapshot Expired (minutes (-5)) base (now ! 1) (now ! 2));
          servers_view = snapshot Expired (minutes (-5)) (base + secs 1) (now ! 3) (now ! 4);
          (applied, session', _) =
            apply_server_message session base (Some servers_view) (updated_at servers_view)
      in applied \<and> map_option status session' = Some Expired)"

section \<open>The tests pass\<close>

text \<open>The facts every test unfolds to.\<close>

lemmas session_run = advance_def expire_locally_def apply_server_message_def session_fixture

text \<open>Readings taken one after the other, and the whole test done within a given time.\<close>

definition readings_in_order :: "datetime list \<Rightarrow> bool" where
  "readings_in_order now \<longleftrightarrow> sorted now"

lemma readings_in_order_nth: "readings_in_order now \<Longrightarrow> i \<le> j \<Longrightarrow> j < length now \<Longrightarrow> now ! i \<le> now ! j"
  by (simp add: readings_in_order_def sorted_nth_mono)

lemma no_session_is_blocked_passes: "no_session_is_blocked now"
  by (simp add: no_session_is_blocked_def session_run)

lemma active_session_before_expiry_is_allowed_passes:
  "now ! 3 < now ! 2 + minutes 10 \<Longrightarrow> active_session_before_expiry_is_allowed now"
  by (simp add: active_session_before_expiry_is_allowed_def session_run)

lemma active_session_past_expiry_becomes_locally_expired_and_blocked_passes:
  "readings_in_order now \<Longrightarrow> length now = 4 \<Longrightarrow>
     active_session_past_expiry_becomes_locally_expired_and_blocked now"
  using readings_in_order_nth [of now 2 3]
  by (simp add: active_session_past_expiry_becomes_locally_expired_and_blocked_def session_run)

lemma ended_session_is_blocked_passes: "ended_session_is_blocked now"
  by (simp add: ended_session_is_blocked_def session_run)

lemma disconnected_expiry_passes:
  "disconnected_expiry_with_no_server_messages_still_blocks_at_expires_at started"
  by (simp add: disconnected_expiry_with_no_server_messages_still_blocks_at_expires_at_def session_run)

lemma restarting_does_not_reset_the_timer_passes:
  "readings_in_order now \<Longrightarrow> length now = 2 \<Longrightarrow>
     restarting_with_a_persisted_active_session_does_not_reset_the_timer now"
  using readings_in_order_nth [of now 0 1]
  by (simp add: restarting_with_a_persisted_active_session_does_not_reset_the_timer_def session_run)

lemma extending_a_session_pushes_expiry_out_passes: "extending_a_session_pushes_expiry_out started"
  by (simp add: extending_a_session_pushes_expiry_out_def session_run)

lemma stale_message_is_rejected_passes:
  "stale_message_is_rejected_and_does_not_replace_newer_local_state now"
  by (simp add: stale_message_is_rejected_and_does_not_replace_newer_local_state_def session_run)

lemma newer_message_reporting_no_active_session_passes:
  "newer_message_reporting_no_active_session_is_applied now"
  by (simp add: newer_message_reporting_no_active_session_is_applied_def session_run)

lemma reconciliation_after_reconnect_passes:
  "reconciliation_after_reconnect_prefers_the_servers_view_when_newer now"
  by (simp add: reconciliation_after_reconnect_prefers_the_servers_view_when_newer_def session_run)

end
