(* ===== verification/Warning_Tests.thy ===== *)
theory Warning_Tests imports Warning Session_Tests begin

text \<open>
  The unit tests of \<open>agent/src/warning.rs\<close> (its \<open>mod tests\<close>), run on the model. A test is a
  definition with the name of the Rust function, the conjunction of its assertions over the
  warnings it threads through its calls; the lemma that it passes evaluates it in the kernel.
\<close>

section \<open>Fixtures\<close>

text \<open>\<open>base()\<close> is 2026-01-01T10:00:00Z.\<close>

definition test_base :: datetime where
  "test_base = secs 1767261600"

definition test_session :: "string \<Rightarrow> datetime \<Rightarrow> session_snapshot" where
  "test_session i deadline =
     \<lparr>snap_id = i, started_at = deadline - hours 1, expires_at = deadline, status = Active,
      updated_at = deadline - hours 1\<rparr>"

definition tick_at ::
  "expiry_warnings \<Rightarrow> session_snapshot \<Rightarrow> timedelta \<Rightarrow> warning_effect list \<times> expiry_warnings" where
  "tick_at w s remaining = reconcile w (Some s) (expires_at s - remaining)"

text \<open>The loop \<open>while remaining >= to\<close>, stepping by the two seconds of a tick.\<close>

function count_down ::
  "expiry_warnings \<Rightarrow> session_snapshot \<Rightarrow> int \<Rightarrow> int \<Rightarrow> warning_effect list \<times> expiry_warnings" where
  "count_down w s remaining target =
     (if remaining \<ge> target
      then (case reconcile w (Some s) (expires_at s - secs remaining) of
              (effects, w') \<Rightarrow> (case count_down w' s (remaining - 2) target of
                 (rest, w'') \<Rightarrow> (effects @ rest, w'')))
      else ([], w))"
  by pat_completeness auto
termination by (relation "measure (\<lambda>(w, s, r, t). nat (r - t + 2))") auto

definition titles :: "warning_effect list \<Rightarrow> string list" where
  "titles effects = List.map_filter (\<lambda>e. case e of Notify n \<Rightarrow> Some (title n) | _ \<Rightarrow> None) effects"

text \<open>A \<open>for\<close> loop of a test that asserts of every tick that it has no effect.\<close>

fun all_quiet :: "expiry_warnings \<Rightarrow> session_snapshot \<Rightarrow> int list \<Rightarrow> bool" where
  "all_quiet w s [] = True"
| "all_quiet w s (r # rs) =
     (case tick_at w s (secs r) of (effects, w') \<Rightarrow> effects = [] \<and> all_quiet w' s rs)"

definition is_notify :: "warning_effect \<Rightarrow> bool" where
  "is_notify e = (case e of Notify _ \<Rightarrow> True | _ \<Rightarrow> False)"

section \<open>The countdown\<close>

definition normal_countdown_fires_each_threshold_once_in_order :: bool where
  "normal_countdown_fires_each_threshold_once_in_order =
     (let s = test_session ''s1'' (test_base + hours 2);
          effects = fst (count_down warnings_new s (11 * 60) 0)
      in titles effects = [''10 minutes remaining'', ''5 minutes remaining'', ''1 minute remaining'']
         \<and> filter (\<lambda>e. \<not> is_notify e) effects = [ShowFinalWarning 30, DismissFinalWarning])"

definition the_one_minute_warning_is_raised_in_urgency :: bool where
  "the_one_minute_warning_is_raised_in_urgency =
     (let s = test_session ''s1'' (test_base + hours 2);
          effects = fst (count_down warnings_new s (11 * 60) 32)
      in case rev effects of
           Notify n # _ \<Rightarrow> title n = ''1 minute remaining'' \<and> urgency_of n = Critical
         | _ \<Rightarrow> False)"

definition a_threshold_fires_at_most_once_however_many_ticks_pass_inside_it :: bool where
  "a_threshold_fires_at_most_once_however_many_ticks_pass_inside_it =
     (let s = test_session ''s1'' (test_base + hours 2);
          (effects, w) = tick_at warnings_new s (minutes 10)
      in length effects = 1 \<and> all_quiet w s (map (\<lambda>i. 600 - int i * 2) [0..<150]))"

definition a_late_tick_that_jumps_past_a_threshold_still_fires_it :: bool where
  "a_late_tick_that_jumps_past_a_threshold_still_fires_it =
     (let s = test_session ''s1'' (test_base + hours 2);
          (established, w) = count_down warnings_new s 610 303;
          (late, _) = tick_at w s (secs 299)
      in titles established = [''10 minutes remaining''] \<and> titles late = [''5 minutes remaining''])"

section \<open>Arriving late, and short sessions\<close>

definition starting_up_mid_window_warns_once_with_the_real_time_left :: bool where
  "starting_up_mid_window_warns_once_with_the_real_time_left =
     (let s = test_session ''s1'' (test_base + secs 270);
          (first, w) = tick_at warnings_new s (secs 270);
          (second, w') = tick_at w s (secs 268);
          (third, _) = tick_at w' s (secs 30)
      in titles first = [''5 minutes remaining''] \<and> second = [] \<and> third = [ShowFinalWarning 30])"

definition starting_up_inside_the_last_minute_goes_straight_to_the_final_warning :: bool where
  "starting_up_inside_the_last_minute_goes_straight_to_the_final_warning =
     (let s = test_session ''s1'' (test_base + secs 40);
          (first, w) = tick_at warnings_new s (secs 40)
      in first = [ShowFinalWarning 40] \<and> all_quiet w s (rev (map int [1..<40])))"

definition a_three_minute_session_warns_once_honestly_then_counts_down :: bool where
  "a_three_minute_session_warns_once_honestly_then_counts_down =
     (let s = test_session ''short'' (test_base + minutes 3);
          (first, w) = tick_at warnings_new s (minutes 3);
          (rest, _) = count_down w s 178 0
      in titles first = [''3 minutes remaining''] \<and> length first = 1
         \<and> titles rest = [''1 minute remaining''] \<and> ShowFinalWarning 30 \<in> set rest
         \<and> rest \<noteq> [] \<and> List.last rest = DismissFinalWarning)"

definition a_twenty_second_session_shows_only_the_final_warning :: bool where
  "a_twenty_second_session_shows_only_the_final_warning =
     (let s = test_session ''tiny'' (test_base + secs 20);
          (first, w) = tick_at warnings_new s (secs 20);
          (second, w') = tick_at w s (secs 10);
          (third, _) = tick_at w' s (secs 0)
      in first = [ShowFinalWarning 20] \<and> second = [] \<and> third = [DismissFinalWarning])"

section \<open>A deadline that changes\<close>

definition extending_resets_the_lifecycle_and_warns_again_on_the_new_deadline :: bool where
  "extending_resets_the_lifecycle_and_warns_again_on_the_new_deadline =
     (let s = test_session ''s1'' (test_base + minutes 5);
          (first, w) = tick_at warnings_new s (minutes 5);
          extended = s\<lparr>expires_at := expires_at s + hours 2\<rparr>;
          (second, w2) = tick_at w extended (hours 2);
          (third, w3) = tick_at w2 extended (minutes 10);
          (fourth, _) = tick_at w3 extended (minutes 5)
      in titles first = [''5 minutes remaining''] \<and> second = []
         \<and> titles third = [''10 minutes remaining''] \<and> titles fourth = [''5 minutes remaining''])"

definition extending_during_the_final_warning_dismisses_it :: bool where
  "extending_during_the_final_warning_dismisses_it =
     (let s = test_session ''s1'' (test_base + secs 30);
          (first, w) = tick_at warnings_new s (secs 30);
          extended = s\<lparr>expires_at := expires_at s + hours 1\<rparr>;
          (second, w2) = tick_at w extended (hours 1);
          (third, _) = tick_at w2 extended (minutes 30)
      in first = [ShowFinalWarning 30] \<and> second = [DismissFinalWarning] \<and> third = [])"

definition a_session_ending_early_dismisses_the_final_warning_and_stops_warning :: bool where
  "a_session_ending_early_dismisses_the_final_warning_and_stops_warning =
     (let s = test_session ''s1'' (test_base + secs 30);
          w = snd (tick_at warnings_new s (secs 30));
          ended = s\<lparr>status := Ended\<rparr>;
          (first, w1) = reconcile w (Some ended) test_base;
          (second, w2) = reconcile w1 None test_base;
          (third, _) = reconcile w2 None (test_base + minutes 1)
      in first = [DismissFinalWarning] \<and> second = [] \<and> third = [])"

definition a_replacement_session_starts_a_fresh_warning_lifecycle :: bool where
  "a_replacement_session_starts_a_fresh_warning_lifecycle =
     (let first = test_session ''first'' (test_base + minutes 5);
          (effects, w) = tick_at warnings_new first (minutes 5);
          second = test_session ''second'' (expires_at first);
          (effects', _) = tick_at w second (minutes 4)
      in titles effects = [''5 minutes remaining''] \<and> titles effects' = [''4 minutes remaining''])"

definition a_repeated_session_state_for_the_same_deadline_does_not_re_warn :: bool where
  "a_repeated_session_state_for_the_same_deadline_does_not_re_warn =
     (let s = test_session ''s1'' (test_base + minutes 10);
          (first, w) = tick_at warnings_new s (minutes 10);
          repushed = s\<lparr>updated_at := updated_at s + minutes 1\<rparr>;
          (second, _) = tick_at w repushed (minutes 9)
      in length first = 1 \<and> second = [])"

section \<open>Waking up\<close>

definition waking_after_expiry_warns_about_nothing_and_still_expires :: bool where
  "waking_after_expiry_warns_about_nothing_and_still_expires =
     (let s = test_session ''s1'' (test_base + minutes 8);
          woke_at = expires_at s + minutes 2;
          (desired, held) = advance (Some s) woke_at;
          (first, _) = reconcile warnings_new held woke_at;
          (second, _) = reconcile warnings_new (Some (s\<lparr>status := Active\<rparr>)) woke_at
      in desired = Blocked \<and> map_option status held = Some Expired \<and> first = [] \<and> second = [])"

definition waking_inside_the_last_minute_shows_the_final_warning_for_the_real_time_left :: bool where
  "waking_inside_the_last_minute_shows_the_final_warning_for_the_real_time_left =
     (let s = test_session ''s1'' (test_base + minutes 8);
          (first, w) = tick_at warnings_new s (minutes 8);
          (second, w') = tick_at w s (secs 40);
          (third, _) = tick_at w' s (secs 20)
      in titles first = [''8 minutes remaining''] \<and> second = [ShowFinalWarning 40] \<and> third = [])"

section \<open>A notifier that does nothing\<close>

text \<open>\<open>AlwaysFails\<close>: each of the three operations returns at once. The loop asserts at every tick that
  the machine may be used, and hands every effect to that notifier.\<close>

definition always_fails :: "warning_effect \<Rightarrow> 'd \<Rightarrow> 'd" where
  "always_fails = apply_effect (\<lambda>_ d. d) (\<lambda>_ d. d) (\<lambda>d. d)"

fun failing_loop ::
  "datetime \<Rightarrow> int list \<Rightarrow> expiry_warnings \<Rightarrow> session_snapshot option \<Rightarrow> 'd
     \<Rightarrow> bool \<times> session_snapshot option \<times> 'd" where
  "failing_loop deadline [] w held d = (True, held, d)"
| "failing_loop deadline (r # rs) w held d =
     (let now = deadline - secs r;
          (desired, held') = advance held now;
          (effects, w') = reconcile w held' now;
          (ok, held'', d') = failing_loop deadline rs w' held' (fold always_fails effects d)
      in (desired = Allowed \<and> ok, held'', d'))"

definition a_notifier_that_fails_every_call_changes_nothing_about_expiry :: bool where
  "a_notifier_that_fails_every_call_changes_nothing_about_expiry =
     (let s = test_session ''s1'' (test_base + minutes 11);
          (ok, held, _) = failing_loop (expires_at s) [660, 600, 300, 60, 30, 10] warnings_new (Some s) ();
          (desired, held') = advance held (expires_at s)
      in ok \<and> desired = Blocked \<and> map_option status held' = Some Expired)"

section \<open>The tables\<close>

definition headlines_round_to_the_nearest_minute :: bool where
  "headlines_round_to_the_nearest_minute \<longleftrightarrow>
     title (notice_for TenMinutes 600) = ''10 minutes remaining''
     \<and> title (notice_for FiveMinutes 299) = ''5 minutes remaining''
     \<and> title (notice_for FiveMinutes 270) = ''5 minutes remaining''
     \<and> title (notice_for FiveMinutes 180) = ''3 minutes remaining''
     \<and> title (notice_for OneMinute 61) = ''1 minute remaining''"

definition thresholds_map_to_the_expected_levels :: bool where
  "thresholds_map_to_the_expected_levels \<longleftrightarrow>
     level_for 601 = None
     \<and> level_for 600 = Some TenMinutes
     \<and> level_for 301 = Some TenMinutes
     \<and> level_for 300 = Some FiveMinutes
     \<and> level_for 61 = Some FiveMinutes
     \<and> level_for 60 = Some OneMinute
     \<and> level_for 31 = Some OneMinute
     \<and> level_for 30 = Some Final
     \<and> level_for 1 = Some Final
     \<and> arriving_late_level 601 = None
     \<and> arriving_late_level 600 = Some TenMinutes
     \<and> arriving_late_level 61 = Some FiveMinutes
     \<and> arriving_late_level 60 = Some Final
     \<and> arriving_late_level 31 = Some Final"

section \<open>The tests pass\<close>

lemma normal_countdown_fires_each_threshold_once_in_order_passes: normal_countdown_fires_each_threshold_once_in_order
  by code_simp

lemma the_one_minute_warning_is_raised_in_urgency_passes: the_one_minute_warning_is_raised_in_urgency
  by code_simp

lemma a_threshold_fires_at_most_once_however_many_ticks_pass_inside_it_passes: a_threshold_fires_at_most_once_however_many_ticks_pass_inside_it
  by code_simp

lemma a_late_tick_that_jumps_past_a_threshold_still_fires_it_passes: a_late_tick_that_jumps_past_a_threshold_still_fires_it
  by code_simp

lemma starting_up_mid_window_warns_once_with_the_real_time_left_passes: starting_up_mid_window_warns_once_with_the_real_time_left
  by code_simp

lemma starting_up_inside_the_last_minute_goes_straight_to_the_final_warning_passes: starting_up_inside_the_last_minute_goes_straight_to_the_final_warning
  by code_simp

lemma a_three_minute_session_warns_once_honestly_then_counts_down_passes: a_three_minute_session_warns_once_honestly_then_counts_down
  by code_simp

lemma a_twenty_second_session_shows_only_the_final_warning_passes: a_twenty_second_session_shows_only_the_final_warning
  by code_simp

lemma extending_resets_the_lifecycle_and_warns_again_on_the_new_deadline_passes: extending_resets_the_lifecycle_and_warns_again_on_the_new_deadline
  by code_simp

lemma extending_during_the_final_warning_dismisses_it_passes: extending_during_the_final_warning_dismisses_it
  by code_simp

lemma a_session_ending_early_dismisses_the_final_warning_and_stops_warning_passes: a_session_ending_early_dismisses_the_final_warning_and_stops_warning
  by code_simp

lemma a_replacement_session_starts_a_fresh_warning_lifecycle_passes: a_replacement_session_starts_a_fresh_warning_lifecycle
  by code_simp

lemma a_repeated_session_state_for_the_same_deadline_does_not_re_warn_passes: a_repeated_session_state_for_the_same_deadline_does_not_re_warn
  by code_simp

lemma waking_after_expiry_warns_about_nothing_and_still_expires_passes: waking_after_expiry_warns_about_nothing_and_still_expires
  by code_simp

lemma waking_inside_the_last_minute_shows_the_final_warning_for_the_real_time_left_passes: waking_inside_the_last_minute_shows_the_final_warning_for_the_real_time_left
  by code_simp

lemma a_notifier_that_fails_every_call_changes_nothing_about_expiry_passes: a_notifier_that_fails_every_call_changes_nothing_about_expiry
  by code_simp

lemma headlines_round_to_the_nearest_minute_passes: headlines_round_to_the_nearest_minute
  by code_simp

lemma thresholds_map_to_the_expected_levels_passes: thresholds_map_to_the_expected_levels
  by code_simp

end
