(* ===== verification/Wire.thy ===== *)
theory Wire imports Agent Host "HOL-Library.Monad_Syntax" begin

text \<open>
  The JSON of the state file and of the protocol, as the serde attributes of \<open>session.rs\<close>,
  \<open>storage.rs\<close>, \<open>client.rs\<close> and \<open>main.rs\<close> lay it down: names of fields and tags, optional and defaulted
  fields, unknown ones ignored, a known one given twice refused. JSON values are a datatype; text,
  and the RFC 3339 form of a time, are the parameter \<open>json_lib\<close>. The codec of the theory Storage and
  the parser of messages of the theory Client are instances, so their law is proved here from the
  laws of the text alone. Forms that serde's derived code accepts besides, a struct given as an array
  above all, are refused here: nothing the agent or the server writes has them.
\<close>

section \<open>JSON values\<close>

datatype json =
    JNull
  | JBool bool
  | JNum int
  | JStr string
  | JArr "json list"
  | JObj "(string \<times> json) list"

record 'c json_lib =
  print_json :: "json \<Rightarrow> 'c"
  parse_json :: "'c \<Rightarrow> json option"
  print_time :: "datetime \<Rightarrow> string"
  parse_time :: "string \<Rightarrow> datetime option"

definition json_ok :: "'c json_lib \<Rightarrow> bool" where
  "json_ok lib \<longleftrightarrow> (\<forall>v. parse_json lib (print_json lib v) = Some v) \<and> (\<forall>t. parse_time lib (print_time lib t) = Some t)"

section \<open>What derived code does with an object\<close>

text \<open>The value of a known field: absent, present, or given twice, which is an error.\<close>

definition field :: "string \<Rightarrow> (string \<times> json) list \<Rightarrow> json option option" where
  "field k kvs = (case filter (\<lambda>kv. fst kv = k) kvs of [] \<Rightarrow> Some None | [kv] \<Rightarrow> Some (Some (snd kv)) | _ \<Rightarrow> None)"

definition required :: "(json \<Rightarrow> 'a option) \<Rightarrow> string \<Rightarrow> (string \<times> json) list \<Rightarrow> 'a option" where
  "required dec k kvs = (case field k kvs of Some (Some v) \<Rightarrow> dec v | _ \<Rightarrow> None)"

definition defaulted :: "'a \<Rightarrow> (json \<Rightarrow> 'a option) \<Rightarrow> string \<Rightarrow> (string \<times> json) list \<Rightarrow> 'a option" where
  "defaulted d dec k kvs = (case field k kvs of Some (Some v) \<Rightarrow> dec v | Some None \<Rightarrow> Some d | None \<Rightarrow> None)"

definition nullable :: "(json \<Rightarrow> 'a option) \<Rightarrow> json \<Rightarrow> 'a option option" where
  "nullable dec v = (if v = JNull then Some None else map_option Some (dec v))"

text \<open>A field of type \<open>Option\<close> may be absent, which is \<open>None\<close>, as null is.\<close>

definition optional :: "(json \<Rightarrow> 'a option) \<Rightarrow> string \<Rightarrow> (string \<times> json) list \<Rightarrow> 'a option option" where
  "optional dec = defaulted None (nullable dec)"

fun as_string :: "json \<Rightarrow> string option" where
  "as_string (JStr s) = Some s"
| "as_string v = None"

fun as_bool :: "json \<Rightarrow> bool option" where
  "as_bool (JBool b) = Some b"
| "as_bool v = None"

definition as_time :: "'c json_lib \<Rightarrow> json \<Rightarrow> datetime option" where
  "as_time lib v = Option.bind (as_string v) (parse_time lib)"

fun or_null :: "('a \<Rightarrow> json) \<Rightarrow> 'a option \<Rightarrow> json" where
  "or_null enc None = JNull"
| "or_null enc (Some a) = enc a"

section \<open>The types of the agent\<close>

subsection \<open>Sessions\<close>

fun status_name :: "session_status \<Rightarrow> string" where
  "status_name Active = ''ACTIVE''"
| "status_name Expired = ''EXPIRED''"
| "status_name Ended = ''ENDED''"

definition status_named :: "string \<Rightarrow> session_status option" where
  "status_named s =
     (if s = ''ACTIVE'' then Some Active else if s = ''EXPIRED'' then Some Expired
      else if s = ''ENDED'' then Some Ended else None)"

text \<open>A variant without data is its name, or an object with its name for only key and null.\<close>

fun status_of_json :: "json \<Rightarrow> session_status option" where
  "status_of_json (JStr s) = status_named s"
| "status_of_json (JObj [(s, JNull)]) = status_named s"
| "status_of_json v = None"

definition snapshot_fields :: "'c json_lib \<Rightarrow> session_snapshot \<Rightarrow> (string \<times> json) list" where
  "snapshot_fields lib s =
     [(''id'', JStr (snap_id s)),
      (''startedAt'', JStr (print_time lib (started_at s))),
      (''expiresAt'', JStr (print_time lib (expires_at s))),
      (''status'', JStr (status_name (status s))),
      (''updatedAt'', JStr (print_time lib (updated_at s)))]"

definition snapshot_of_json :: "'c json_lib \<Rightarrow> json \<Rightarrow> session_snapshot option" where
  "snapshot_of_json lib v =
     (case v of
        JObj kvs \<Rightarrow> do {
          i \<leftarrow> required as_string ''id'' kvs;
          started \<leftarrow> required (as_time lib) ''startedAt'' kvs;
          expires \<leftarrow> required (as_time lib) ''expiresAt'' kvs;
          st \<leftarrow> required status_of_json ''status'' kvs;
          updated \<leftarrow> required (as_time lib) ''updatedAt'' kvs;
          Some \<lparr>snap_id = i, started_at = started, expires_at = expires, status = st, updated_at = updated\<rparr>
        }
      | _ \<Rightarrow> None)"

subsection \<open>The state file\<close>

definition credentials_fields :: "credentials \<Rightarrow> (string \<times> json) list" where
  "credentials_fields c =
     [(''server_url'', JStr (server_url c)),
      (''machine_id'', JStr (machine_id c)),
      (''machine_secret'', JStr (machine_secret c))]"

definition credentials_of_json :: "json \<Rightarrow> credentials option" where
  "credentials_of_json v =
     (case v of
        JObj kvs \<Rightarrow> do {
          url \<leftarrow> required as_string ''server_url'' kvs;
          mid \<leftarrow> required as_string ''machine_id'' kvs;
          secret \<leftarrow> required as_string ''machine_secret'' kvs;
          Some \<lparr>server_url = url, machine_id = mid, machine_secret = secret\<rparr>
        }
      | _ \<Rightarrow> None)"

definition state_fields :: "'c json_lib \<Rightarrow> agent_state \<Rightarrow> (string \<times> json) list" where
  "state_fields lib st =
     [(''credentials'', or_null (\<lambda>c. JObj (credentials_fields c)) (st_credentials st)),
      (''decommissioned'', JBool (st_decommissioned st)),
      (''session'', or_null (\<lambda>s. JObj (snapshot_fields lib s)) (st_session st)),
      (''last_applied_at'', JStr (print_time lib (st_last_applied_at st))),
      (''trusted_high_water_mark'', JStr (print_time lib (st_high_water_mark st)))]"

definition state_of_json :: "'c json_lib \<Rightarrow> json \<Rightarrow> agent_state option" where
  "state_of_json lib v =
     (case v of
        JObj kvs \<Rightarrow> do {
          creds \<leftarrow> optional credentials_of_json ''credentials'' kvs;
          decommissioned \<leftarrow> defaulted False as_bool ''decommissioned'' kvs;
          session \<leftarrow> optional (snapshot_of_json lib) ''session'' kvs;
          applied \<leftarrow> required (as_time lib) ''last_applied_at'' kvs;
          mark \<leftarrow> required (as_time lib) ''trusted_high_water_mark'' kvs;
          Some \<lparr>st_credentials = creds, st_decommissioned = decommissioned, st_session = session,
                st_last_applied_at = applied, st_high_water_mark = mark\<rparr>
        }
      | _ \<Rightarrow> None)"

text \<open>\<open>serde_json::to_string_pretty\<close> and \<open>serde_json::from_str\<close> on a state.\<close>

definition json_codec :: "'c json_lib \<Rightarrow> 'c codec" where
  "json_codec lib = \<lparr>to_json = (\<lambda>st. print_json lib (JObj (state_fields lib st))),
     from_json = (\<lambda>c. Option.bind (parse_json lib c) (state_of_json lib))\<rparr>"

subsection \<open>The protocol\<close>

fun to_server_json :: "agent_to_server \<Rightarrow> json" where
  "to_server_json (Heartbeat at_ms version) =
     JObj [(''type'', JStr ''heartbeat''), (''atMs'', JNum at_ms), (''version'', JStr version)]"
| "to_server_json DecommissionAck = JObj [(''type'', JStr ''decommission_ack'')]"

definition server_message_of_json :: "'c json_lib \<Rightarrow> json \<Rightarrow> server_to_agent option" where
  "server_message_of_json lib v =
     (case v of
        JObj kvs \<Rightarrow> do {
          tag \<leftarrow> required as_string ''type'' kvs;
          if tag = ''session_state'' then do {
            session \<leftarrow> optional (snapshot_of_json lib) ''session'' kvs;
            t \<leftarrow> required (as_time lib) ''serverTime'' kvs;
            Some (SessionStateMsg session t)
          }
          else if tag = ''heartbeat_ack'' then map_option HeartbeatAckMsg (required (as_time lib) ''serverTime'' kvs)
          else if tag = ''decommission'' then Some DecommissionMsg
          else if tag = ''error'' then do {
            code \<leftarrow> required as_string ''code'' kvs;
            msg \<leftarrow> required as_string ''message'' kvs;
            Some (ErrorMsg code msg)
          }
          else None
        }
      | _ \<Rightarrow> None)"

text \<open>The library of the connection task, with texts that are strings.\<close>

definition json_ws_lib :: "string json_lib \<Rightarrow> (string \<Rightarrow> bool) \<Rightarrow> (string \<Rightarrow> bool) \<Rightarrow> string \<Rightarrow> ws_lib" where
  "json_ws_lib lib url_ok value_ok version =
     \<lparr>parse_message = (\<lambda>txt. Option.bind (parse_json lib txt) (server_message_of_json lib)),
      request_ok = url_ok, header_ok = value_ok, agent_version = version\<rparr>"

subsection \<open>Enrollment\<close>

text \<open>The answer to an enrollment, and the reason in an error envelope: \<open>Value::get\<close> on an object, where a
  key given twice has its last value, and \<open>as_str\<close>.\<close>

definition enrolled_of_json :: "json \<Rightarrow> (string \<times> string) option" where
  "enrolled_of_json v =
     (case v of
        JObj kvs \<Rightarrow> do {
          mid \<leftarrow> required as_string ''machineId'' kvs;
          secret \<leftarrow> required as_string ''machineSecret'' kvs;
          Some (mid, secret)
        }
      | _ \<Rightarrow> None)"

definition message_of_json :: "json \<Rightarrow> string option" where
  "message_of_json v =
     (case v of JObj kvs \<Rightarrow> Option.bind (map_of (rev kvs) ''message'') as_string | _ \<Rightarrow> None)"

definition json_enroll_lib :: "string json_lib \<Rightarrow> enroll_lib" where
  "json_enroll_lib lib =
     \<lparr>parse_enrolled = (\<lambda>txt. Option.bind (parse_json lib txt) enrolled_of_json),
      json_message = (\<lambda>txt. Option.bind (parse_json lib txt) message_of_json)\<rparr>"

section \<open>Lemmas\<close>

lemma json_ok_laws:
  "json_ok lib \<Longrightarrow> parse_json lib (print_json lib v) = Some v"
  "json_ok lib \<Longrightarrow> parse_time lib (print_time lib t) = Some t"
  by (simp_all add: json_ok_def)

lemma no_key: "k \<notin> fst ` set kvs \<Longrightarrow> filter (\<lambda>kv. fst kv = k) kvs = []"
  by (induction kvs) auto

lemma field_simps [simp]:
  "field k [] = Some None"
  "field k ((k', v) # kvs) = (if k' = k then (if k \<in> fst ` set kvs then None else Some (Some v)) else field k kvs)"
proof -
  have "filter (\<lambda>kv. fst kv = k) kvs = [] \<longleftrightarrow> k \<notin> fst ` set kvs" by (auto simp: filter_empty_conv)
  then show "field k ((k', v) # kvs) = (if k' = k then (if k \<in> fst ` set kvs then None else Some (Some v)) else field k kvs)"
    by (cases "filter (\<lambda>kv. fst kv = k) kvs") (auto simp: field_def)
qed (simp add: field_def)

text \<open>Only how often a key occurs, and with which value, counts: neither the order nor other keys do.\<close>

lemma field_other: "k \<notin> fst ` set extra \<Longrightarrow> field k (extra @ kvs) = field k kvs \<and> field k (kvs @ extra) = field k kvs"
proof -
  assume "k \<notin> fst ` set extra"
  then show ?thesis using no_key [of k extra] by (simp add: field_def)
qed

lemma single_key: "distinct (map fst kvs) \<Longrightarrow> length (filter (\<lambda>kv. fst kv = k) kvs) \<le> 1"
proof (induction kvs)
  case (Cons kv kvs)
  show ?case
  proof (cases "fst kv = k")
    case True
    then have "filter (\<lambda>kv. fst kv = k) kvs = []" using Cons.prems by (intro no_key) auto
    then show ?thesis using True by simp
  qed (use Cons in simp)
qed simp

lemma field_shuffled:
  assumes "distinct (map fst kvs)" and "k \<notin> fst ` set extra" and "mset kvs' = mset (kvs @ extra)"
  shows "field k kvs' = field k kvs"
proof -
  let ?P = "\<lambda>kv :: string \<times> json. fst kv = k"
  have "mset (filter ?P kvs') = mset (filter ?P (kvs @ extra))" using assms(3) by (simp only: mset_filter)
  then have m: "mset (filter ?P kvs') = mset (filter ?P kvs)" using no_key [OF assms(2)] by simp
  have "filter ?P kvs' = filter ?P kvs"
  proof (cases "filter ?P kvs")
    case Nil
    then have "mset (filter ?P kvs') = {#}" unfolding m by simp
    then show ?thesis unfolding Nil by (simp only: mset_zero_iff)
  next
    case (Cons x xs)
    then have x: "filter ?P kvs = [x]" using single_key [OF assms(1), of k] by simp
    then have "mset (filter ?P kvs') = {#x#}" unfolding m by simp
    then show ?thesis unfolding x by (simp only: mset_single_iff)
  qed
  then show ?thesis by (simp add: field_def)
qed

lemmas reading = required_def defaulted_def optional_def nullable_def as_time_def

lemma status_roundtrip [simp]: "status_named (status_name s) = Some s"
  by (cases s) (simp_all add: status_named_def)

text \<open>An object is read by its known fields.\<close>

definition agree :: "string list \<Rightarrow> (string \<times> json) list \<Rightarrow> (string \<times> json) list \<Rightarrow> bool" where
  "agree ks kvs kvs' \<longleftrightarrow> list_all (\<lambda>k. field k kvs = field k kvs') ks"

lemma agree_refl [simp]: "agree ks kvs kvs"
  by (simp add: agree_def list_all_iff)

lemma snapshot_read:
  assumes "json_ok lib" and "agree [''id'', ''startedAt'', ''expiresAt'', ''status'', ''updatedAt''] kvs (snapshot_fields lib s)"
  shows "snapshot_of_json lib (JObj kvs) = Some s"
  using assms by (simp add: snapshot_of_json_def agree_def snapshot_fields_def reading json_ok_laws)

lemma credentials_read:
  assumes "agree [''server_url'', ''machine_id'', ''machine_secret''] kvs (credentials_fields c)"
  shows "credentials_of_json (JObj kvs) = Some c"
  using assms by (simp add: credentials_of_json_def agree_def credentials_fields_def reading)

lemma nullable_read: "(\<And>a. dec (enc a) = Some a) \<Longrightarrow> (\<And>a. enc a \<noteq> JNull) \<Longrightarrow> nullable dec (or_null enc x) = Some x"
  by (cases x) (simp_all add: nullable_def)

definition state_keys :: "string list" where
  "state_keys = [''credentials'', ''decommissioned'', ''session'', ''last_applied_at'', ''trusted_high_water_mark'']"

lemma state_read:
  assumes "json_ok lib" and "agree state_keys kvs (state_fields lib st)"
  shows "state_of_json lib (JObj kvs) = Some st"
proof -
  have c: "nullable credentials_of_json (or_null (\<lambda>c. JObj (credentials_fields c)) x) = Some x" for x
    by (rule nullable_read) (simp_all add: credentials_read)
  have s: "nullable (snapshot_of_json lib) (or_null (\<lambda>s. JObj (snapshot_fields lib s)) x) = Some x" for x
    by (rule nullable_read) (simp_all add: snapshot_read assms(1))
  show ?thesis
    using assms by (simp add: state_of_json_def agree_def state_keys_def state_fields_def required_def defaulted_def
        optional_def as_time_def c s json_ok_laws)
qed

lemma json_codec_ok: "json_ok lib \<Longrightarrow> codec_ok (json_codec lib)"
  by (simp add: codec_ok_def json_codec_def json_ok_laws state_read)

text \<open>A file without the flag, as older builds wrote it.\<close>

lemma state_read_default:
  assumes "json_ok lib" and "agree (remove1 ''decommissioned'' state_keys) kvs (state_fields lib st)"
    and "''decommissioned'' \<notin> fst ` set kvs"
  shows "state_of_json lib (JObj kvs) = Some (st\<lparr>st_decommissioned := False\<rparr>)"
proof -
  have "agree state_keys ((''decommissioned'', JBool False) # kvs) (state_fields lib (st\<lparr>st_decommissioned := False\<rparr>))"
    using assms(2,3) by (simp add: agree_def state_keys_def state_fields_def)
  from state_read [OF assms(1) this]
  have "state_of_json lib (JObj ((''decommissioned'', JBool False) # kvs)) = Some (st\<lparr>st_decommissioned := False\<rparr>)" .
  moreover have "field ''decommissioned'' kvs = Some None"
    using field_other [of "''decommissioned''" kvs "[]"] assms(3) by simp
  ultimately show ?thesis using assms(3) by (simp add: state_of_json_def reading)
qed

lemma agree_shuffled:
  assumes "distinct (map fst kvs)" and "fst ` set extra \<inter> set ks = {}" and "mset kvs' = mset (kvs @ extra)"
  shows "agree ks kvs' kvs"
proof -
  have "k \<notin> fst ` set extra" if "k \<in> set ks" for k using assms(2) that by blast
  then show ?thesis using field_shuffled [OF assms(1) _ assms(3)] by (simp only: agree_def list_all_iff) blast
qed

lemma state_fields_distinct: "distinct (map fst (state_fields lib st))"
  by (simp add: state_fields_def)

subsection \<open>What the server sends\<close>

text \<open>
  The messages of the server, \<open>src/api/src/modules/realtime/protocol.ts\<close>: the fields of each, with times
  as \<open>Date.toISOString\<close> prints them, to the millisecond. That form is one of RFC 3339, which the agent
  reads.
\<close>

definition stamps_ok :: "'c json_lib \<Rightarrow> (datetime \<Rightarrow> string) \<Rightarrow> bool" where
  "stamps_ok lib stamp \<longleftrightarrow> (\<forall>t. t mod 1000000 = 0 \<longrightarrow> parse_time lib (stamp t) = Some t)"

definition session_dto :: "(datetime \<Rightarrow> string) \<Rightarrow> session_snapshot \<Rightarrow> json" where
  "session_dto stamp s =
     JObj [(''id'', JStr (snap_id s)), (''startedAt'', JStr (stamp (started_at s))), (''expiresAt'', JStr (stamp (expires_at s))),
           (''status'', JStr (status_name (status s))), (''updatedAt'', JStr (stamp (updated_at s)))]"

fun message_fields :: "(datetime \<Rightarrow> string) \<Rightarrow> datetime \<Rightarrow> server_to_agent \<Rightarrow> (string \<times> json) list" where
  "message_fields stamp now (SessionStateMsg session t) =
     [(''type'', JStr ''session_state''), (''session'', or_null (session_dto stamp) session), (''serverTime'', JStr (stamp t))]"
| "message_fields stamp now (HeartbeatAckMsg t) = [(''type'', JStr ''heartbeat_ack''), (''serverTime'', JStr (stamp t))]"
| "message_fields stamp now DecommissionMsg = [(''type'', JStr ''decommission''), (''serverTime'', JStr (stamp now))]"
| "message_fields stamp now (ErrorMsg code msg) = [(''type'', JStr ''error''), (''code'', JStr code), (''message'', JStr msg)]"

text \<open>Times of the server are whole milliseconds.\<close>

definition in_millis :: "datetime \<Rightarrow> bool" where
  "in_millis t \<longleftrightarrow> t mod 1000000 = 0"

fun message_in_millis :: "server_to_agent \<Rightarrow> bool" where
  "message_in_millis (SessionStateMsg session t) =
     (in_millis t \<and> pred_option (\<lambda>s. in_millis (started_at s) \<and> in_millis (expires_at s) \<and> in_millis (updated_at s)) session)"
| "message_in_millis (HeartbeatAckMsg t) = in_millis t"
| "message_in_millis m = True"

definition message_keys :: "string list" where
  "message_keys = [''type'', ''session'', ''serverTime'', ''code'', ''message'']"

lemma dto_read:
  assumes "stamps_ok lib stamp" and "in_millis (started_at s)" "in_millis (expires_at s)" "in_millis (updated_at s)"
  shows "snapshot_of_json lib (session_dto stamp s) = Some s"
  using assms by (simp add: snapshot_of_json_def session_dto_def reading stamps_ok_def in_millis_def)

lemma message_read:
  assumes "stamps_ok lib stamp" and "message_in_millis m" and "agree message_keys kvs (message_fields stamp now m)"
  shows "server_message_of_json lib (JObj kvs) = Some m"
proof (cases m)
  case (SessionStateMsg session t)
  have "nullable (snapshot_of_json lib) (or_null (session_dto stamp) session) = Some session"
    using assms(2) SessionStateMsg dto_read [OF assms(1)] by (cases session) (simp_all add: nullable_def session_dto_def)
  then show ?thesis using assms SessionStateMsg
    by (simp add: server_message_of_json_def agree_def message_keys_def required_def optional_def defaulted_def as_time_def
        stamps_ok_def in_millis_def)
qed (use assms in \<open>auto simp: server_message_of_json_def agree_def message_keys_def reading stamps_ok_def in_millis_def\<close>)

section \<open>Properties\<close>

text \<open>C28. A state file is read back as the state it was written from, also when its fields come in another
  order and with fields this build does not know, a newer one's say; and a file in which only the flag
  \<open>decommissioned\<close> is missing, an older build's, as the same state still managed.\<close>

theorem state_file_roundtrip:
  assumes "json_ok lib" and "fst ` set extra \<inter> set state_keys = {}"
    and "mset kvs = mset (state_fields lib st @ extra)"
    and "mset old = mset (filter (\<lambda>kv. fst kv \<noteq> ''decommissioned'') (state_fields lib st) @ extra)"
  shows "from_json (json_codec lib) (print_json lib (JObj kvs)) = Some st
     \<and> from_json (json_codec lib) (print_json lib (JObj old)) = Some (st\<lparr>st_decommissioned := False\<rparr>)"
proof
  have "agree state_keys kvs (state_fields lib st)" using agree_shuffled state_fields_distinct assms(2,3) by blast
  then show "from_json (json_codec lib) (print_json lib (JObj kvs)) = Some st"
    using assms(1) by (simp add: json_codec_def json_ok_laws state_read)
  let ?fs = "filter (\<lambda>kv. fst kv \<noteq> ''decommissioned'') (state_fields lib st)"
  have o: "fst ` set old = fst ` set ?fs \<union> fst ` set extra" using mset_eq_setD [OF assms(4)] by (simp add: image_Un)
  have "agree (remove1 ''decommissioned'' state_keys) old ?fs"
    by (rule agree_shuffled [OF _ _ assms(4)])
      (use assms(2) set_remove1_subset [of "''decommissioned''" state_keys] in \<open>auto simp: state_fields_def\<close>)
  then have "agree (remove1 ''decommissioned'' state_keys) old (state_fields lib st)"
    by (simp add: agree_def state_keys_def state_fields_def)
  moreover have "''decommissioned'' \<notin> fst ` set old"
    using o assms(2) by (auto simp: state_keys_def)
  ultimately show "from_json (json_codec lib) (print_json lib (JObj old)) = Some (st\<lparr>st_decommissioned := False\<rparr>)"
    using assms(1) by (simp add: json_codec_def json_ok_laws state_read_default)
qed

text \<open>C29. Every message of the server's protocol, in any order of its fields and with others the agent does
  not know, is taken for what it is and handed on as the event it stands for: a session with its own
  time, no session with the server's, a decommission whatever its time, an error as nothing.\<close>

theorem server_messages_understood:
  assumes "stamps_ok lib stamp" and "message_in_millis m"
    and "fst ` set extra \<inter> set message_keys = {}" and "mset kvs = mset (message_fields stamp now m @ extra)"
    and "parse_json lib txt = Some (JObj kvs)"
  shows "handle_message (json_ws_lib lib url_ok value_ok version) txt =
     (case m of
        SessionStateMsg None t \<Rightarrow> [SessionState None t]
      | SessionStateMsg (Some s) t \<Rightarrow> [SessionState (Some s) (updated_at s)]
      | HeartbeatAckMsg t \<Rightarrow> [ServerTime t]
      | DecommissionMsg \<Rightarrow> [Decommission]
      | ErrorMsg code msg \<Rightarrow> [])"
proof -
  have "distinct (map fst (message_fields stamp now m))" by (cases m) simp_all
  then have "agree message_keys kvs (message_fields stamp now m)" using agree_shuffled assms(3,4) by blast
  then have "parse_message (json_ws_lib lib url_ok value_ok version) txt = Some m"
    using assms(1,2,5) by (simp add: json_ws_lib_def message_read)
  then show ?thesis by (simp add: handle_message_def event_of_def Let_def split: server_to_agent.splits option.splits)
qed

section \<open>Examples\<close>

text \<open>Times as decimal numbers of nanoseconds, read back.\<close>

definition read_int :: "string \<Rightarrow> int option" where
  "read_int s =
     (if s \<noteq> [] \<and> hd s = CHR ''-'' then map_option (\<lambda>n. - int n) (parse_digits (tl s))
      else map_option int (parse_digits s))"

lemma digits_unsigned: "hd (nat_digits n) \<noteq> CHR ''-''"
proof -
  obtain c cs where "nat_digits n = c # cs" by (cases "nat_digits n") auto
  then show ?thesis using nat_digits_are_digits [of n] by (auto simp: is_digit_def)
qed

lemma read_show_int: "read_int (show_int t) = Some t"
  by (simp add: read_int_def show_int_def parse_digits_show digits_unsigned)

text \<open>Files that hold JSON values, and a text that stands for one.\<close>

definition value_lib :: "json json_lib" where
  "value_lib = \<lparr>print_json = (\<lambda>v. v), parse_json = Some, print_time = show_int, parse_time = read_int\<rparr>"

lemma value_lib_ok: "json_ok value_lib"
  by (simp add: json_ok_def value_lib_def read_show_int)

definition text_lib :: "json \<Rightarrow> string json_lib" where
  "text_lib v = \<lparr>print_json = (\<lambda>_. ''{}''), parse_json = (\<lambda>txt. if txt = ''{}'' then Some v else None),
     print_time = show_int, parse_time = read_int\<rparr>"

theorem state_file_roundtrip_witness:
  "from_json (json_codec value_lib)
     (print_json value_lib (JObj ((''note'', JNull) # rev (state_fields value_lib (agent_state_default 7)))))
   = Some (agent_state_default 7)"
proof -
  have "fst ` set [(''note'', JNull)] \<inter> set state_keys = {}" by (simp add: state_keys_def)
  from state_file_roundtrip [OF value_lib_ok this, of "(''note'', JNull) # rev (state_fields value_lib (agent_state_default 7))"
      "agent_state_default 7" "filter (\<lambda>kv. fst kv \<noteq> ''decommissioned'') (state_fields value_lib (agent_state_default 7)) @ [(''note'', JNull)]"]
  show ?thesis by simp
qed

theorem server_messages_understood_witness:
  "handle_message (json_ws_lib (text_lib (JObj [(''serverTime'', JStr ''0''), (''type'', JStr ''session_state''), (''session'', JNull), (''v'', JNum 2)]))
      (\<lambda>_. True) (\<lambda>_. True) ''1'') ''{}'' = [SessionState None 0]"
proof -
  let ?kvs = "[(''serverTime'', JStr ''0''), (''type'', JStr ''session_state''), (''session'', JNull), (''v'', JNum 2)]"
  have s: "stamps_ok (text_lib (JObj ?kvs)) show_int" by (simp add: stamps_ok_def text_lib_def read_show_int)
  have m: "message_in_millis (SessionStateMsg None 0)" by (simp add: in_millis_def)
  have e: "fst ` set [(''v'', JNum 2)] \<inter> set message_keys = {}" by (simp add: message_keys_def)
  have "show_int 0 = ''0''" by code_simp
  then have k: "mset ?kvs = mset (message_fields show_int 0 (SessionStateMsg None 0) @ [(''v'', JNum 2)])" by simp
  have p: "parse_json (text_lib (JObj ?kvs)) ''{}'' = Some (JObj ?kvs)" by (simp add: text_lib_def)
  show ?thesis using server_messages_understood [OF s m e k p, of "\<lambda>_. True" "\<lambda>_. True" "''1''"] by simp
qed

end
