(* ===== verification/Storage_Tests.thy ===== *)
theory Storage_Tests imports Storage Session_Tests begin

text \<open>
  The unit tests of \<open>agent/src/storage.rs\<close> (its \<open>mod tests\<close>), run on the model. The clock tests take
  the readings the code takes and pass for every reading that is not earlier than the one before
  it; the store tests run in a fresh directory, for every codec that parses back what it prints,
  every directory name and both kinds of platform.
\<close>

section \<open>The trusted clock\<close>

definition trusts_a_wall_clock_that_advances_normally ::
  "datetime \<Rightarrow> instant \<Rightarrow> clock_reading \<Rightarrow> datetime \<Rightarrow> bool" where
  "trusts_a_wall_clock_that_advances_normally now1 m r now2 =
     (let start = now1 - secs 10
      in case guard_now (guard_new start m) r of
           None \<Rightarrow> False
         | Some (now, _) \<Rightarrow> start \<le> now \<and> now \<le> now2)"

definition ignores_a_wall_clock_rollback_and_extrapolates_via_monotonic_time ::
  "datetime \<Rightarrow> instant \<Rightarrow> clock_reading \<Rightarrow> clock_reading \<Rightarrow> bool" where
  "ignores_a_wall_clock_rollback_and_extrapolates_via_monotonic_time mark m r1 r2 =
     (case guard_now (guard_new mark m) r1 of
        None \<Rightarrow> False
      | Some (first, guard) \<Rightarrow>
          (case guard_now guard r2 of
             None \<Rightarrow> False
           | Some (second, _) \<Rightarrow> first \<le> second \<and> mark \<le> first))"

fun mark_loop :: "clock_guard \<Rightarrow> datetime \<Rightarrow> clock_reading list \<Rightarrow> bool" where
  "mark_loop guard previous [] = True"
| "mark_loop guard previous (r # rs) =
     (case guard_now guard r of
        None \<Rightarrow> False
      | Some (_, guard') \<Rightarrow>
          previous \<le> high_water_mark guard' \<and> mark_loop guard' (high_water_mark guard') rs)"

definition high_water_mark_never_goes_backward_across_calls ::
  "datetime \<Rightarrow> instant \<Rightarrow> clock_reading list \<Rightarrow> bool" where
  "high_water_mark_never_goes_backward_across_calls now m rs =
     (let guard = guard_new now m in mark_loop guard (high_water_mark guard) rs)"

definition resync_from_server_only_moves_forward :: "datetime \<Rightarrow> instant \<Rightarrow> instant \<Rightarrow> instant \<Rightarrow> bool" where
  "resync_from_server_only_moves_forward base m0 m1 m2 =
     (let guard = resync_from_server (guard_new base m0) (base - secs 30) m1;
          future = base + secs 30;
          guard' = resync_from_server guard future m2
      in high_water_mark guard = base \<and> high_water_mark guard' = future)"

section \<open>The store\<close>

text \<open>\<open>Store::new(Some(dir))\<close> in a temporary directory that is there: creating it is not refused.\<close>

definition temp_store :: "string \<Rightarrow> bool \<Rightarrow> nat \<Rightarrow> 'c codec \<Rightarrow> io_kind + 'c store" where
  "temp_store dir unix cmode codec = store_new (Some dir) '''' (\<lambda>_. None) unix cmode codec"

definition test_credentials :: credentials where
  "test_credentials =
     \<lparr>server_url = ''https://example.com'', machine_id = ''machine-1'', machine_secret = ''secret''\<rparr>"

text \<open>\<open>store.save(&state).unwrap()\<close> and then \<open>load().unwrap()\<close>, with the clock \<open>load\<close> would read.\<close>

definition saved_and_loaded :: "io_kind + 'c store \<Rightarrow> io_kind + 'c store \<Rightarrow> agent_state \<Rightarrow> datetime \<Rightarrow> agent_state option" where
  "saved_and_loaded writer reader state now =
     (case (writer, reader) of
        (Inr s, Inr s') \<Rightarrow>
          (case save s state None Map.empty of
             (Inl _, _) \<Rightarrow> None
           | (Inr _, fs) \<Rightarrow> (case load s' now False fs of Inl _ \<Rightarrow> None | Inr st \<Rightarrow> Some st))
      | _ \<Rightarrow> None)"

definition state_round_trips_through_disk_atomically ::
  "io_kind + 'c store \<Rightarrow> datetime list \<Rightarrow> bool" where
  "state_round_trips_through_disk_atomically store now =
     (let session = \<lparr>snap_id = ''session-1'', started_at = now ! 0, expires_at = now ! 1 + minutes 30,
                     status = Active, updated_at = now ! 2\<rparr>;
          state = (agent_state_default (now ! 3))\<lparr>st_credentials := Some test_credentials,
                     st_session := Some session\<rparr>
      in saved_and_loaded store store state (now ! 4) = Some state)"

definition decommissioned_flag_round_trips_through_disk ::
  "io_kind + 'c store \<Rightarrow> datetime list \<Rightarrow> bool" where
  "decommissioned_flag_round_trips_through_disk store now =
     (let state = (agent_state_default (now ! 0))\<lparr>st_credentials := Some test_credentials,
                     st_decommissioned := True, st_session := None\<rparr>
      in map_option st_decommissioned (saved_and_loaded store store state (now ! 1)) = Some True)"

text \<open>The file an older build wrote, without the field \<open>decommissioned\<close>, is given by its contents \<open>old\<close>.\<close>

definition a_pre_upgrade_state_file_without_the_field_loads_as_still_managed ::
  "io_kind + 'c store \<Rightarrow> 'c \<Rightarrow> datetime \<Rightarrow> bool" where
  "a_pre_upgrade_state_file_without_the_field_loads_as_still_managed store old now =
     (case store of
        Inl _ \<Rightarrow> False
      | Inr s \<Rightarrow>
          (case load s now False (fs_write s (state_path s) old Map.empty) of
             Inl _ \<Rightarrow> False
           | Inr loaded \<Rightarrow> \<not> st_decommissioned loaded \<and> st_credentials loaded \<noteq> None))"

definition loading_with_no_file_yet_returns_defaults_not_an_error ::
  "io_kind + 'c store \<Rightarrow> datetime \<Rightarrow> bool" where
  "loading_with_no_file_yet_returns_defaults_not_an_error store now =
     (case store of
        Inl _ \<Rightarrow> False
      | Inr s \<Rightarrow>
          (case load s now False Map.empty of
             Inl _ \<Rightarrow> False
           | Inr loaded \<Rightarrow> st_credentials loaded = None \<and> st_session loaded = None))"

definition a_corrupt_state_file_is_an_error_never_a_silent_blank_slate ::
  "io_kind + 'c store \<Rightarrow> 'c \<Rightarrow> datetime \<Rightarrow> bool" where
  "a_corrupt_state_file_is_an_error_never_a_silent_blank_slate store junk now =
     (case store of
        Inl _ \<Rightarrow> False
      | Inr s \<Rightarrow> load s now False (fs_write s (state_path s) junk Map.empty) = Inl InvalidData)"

definition enroll_recovers_from_a_corrupt_state_file_by_setting_it_aside ::
  "io_kind + 'c store \<Rightarrow> 'c \<Rightarrow> datetime \<Rightarrow> bool" where
  "enroll_recovers_from_a_corrupt_state_file_by_setting_it_aside store junk now =
     (case store of
        Inl _ \<Rightarrow> False
      | Inr s \<Rightarrow>
          (case load_for_enroll s now False True (fs_write s (state_path s) junk Map.empty) of
             (Inl _, _) \<Rightarrow> False
           | (Inr recovered, fs) \<Rightarrow>
               st_credentials recovered = None
               \<and> fs (join (store_unix s) (store_dir s) ''state.json.corrupt'') \<noteq> None
               \<and> fs (state_path s) = None))"

definition restart_recovery_reads_back_exactly_what_was_persisted ::
  "io_kind + 'c store \<Rightarrow> io_kind + 'c store \<Rightarrow> datetime list \<Rightarrow> bool" where
  "restart_recovery_reads_back_exactly_what_was_persisted store store_after now =
     (let session = \<lparr>snap_id = ''session-restart'', started_at = now ! 0 - minutes 10,
                     expires_at = now ! 1 + minutes 20, status = Active, updated_at = now ! 2\<rparr>;
          state = (agent_state_default (now ! 3))\<lparr>st_session := Some session\<rparr>
      in map_option st_session (saved_and_loaded store store_after state (now ! 4)) = Some (Some session))"

section \<open>The tests pass\<close>

lemma trusts_a_wall_clock_that_advances_normally_passes:
  "now1 \<le> os_now r \<Longrightarrow> os_now r \<le> now2 \<Longrightarrow> trusts_a_wall_clock_that_advances_normally now1 m r now2"
  by (simp add: trusts_a_wall_clock_that_advances_normally_def guard_now_def guard_new_def durations Let_def)

lemma ignores_a_wall_clock_rollback_passes:
  "mark \<le> os_now r1 \<Longrightarrow> os_now r1 \<le> os_now r2 \<Longrightarrow>
     ignores_a_wall_clock_rollback_and_extrapolates_via_monotonic_time mark m r1 r2"
  by (simp add: ignores_a_wall_clock_rollback_and_extrapolates_via_monotonic_time_def guard_now_def guard_new_def)

lemma mark_loop_passes:
  "high_water_mark g = t \<Longrightarrow> sorted (t # map os_now rs) \<Longrightarrow> mark_loop g t rs"
proof (induction rs arbitrary: g t)
  case (Cons r rs)
  have "mark_loop \<lparr>high_water_mark = os_now r, anchor = mono_anchor r\<rparr> (os_now r) rs"
    using Cons.prems(2) by (intro Cons.IH) auto
  then show ?case using Cons.prems guard_now_honest [of g r] by simp
qed simp

lemma high_water_mark_never_goes_backward_passes:
  "sorted (now # map os_now rs) \<Longrightarrow> high_water_mark_never_goes_backward_across_calls now m rs"
  using mark_loop_passes [of "guard_new now m" now rs]
  by (simp add: high_water_mark_never_goes_backward_across_calls_def guard_new_def)

lemma resync_from_server_only_moves_forward_passes: "resync_from_server_only_moves_forward base m0 m1 m2"
  by (simp add: resync_from_server_only_moves_forward_def guard_new_def durations Let_def)

text \<open>A temporary store opens, and what is saved in it is what a store on the same directory loads.\<close>

lemma temp_store_opens:
  "temp_store dir unix cmode codec =
     Inr \<lparr>store_dir = dir, store_unix = unix, store_create_mode = cmode, store_codec = codec\<rparr>"
  by (simp add: temp_store_def store_new_def)

lemma saved_and_loaded_back:
  "codec_ok codec \<Longrightarrow>
     saved_and_loaded (temp_store dir unix cmode codec) (temp_store dir unix cmode codec) state now = Some state"
  by (simp add: saved_and_loaded_def temp_store_opens save_ok_fault_free load_recorded recorded_save_at
      del: save_at.simps)

lemmas store_tests = temp_store_opens load_def load_for_enroll_def read_file_def fs_write_def

lemma state_round_trips_through_disk_passes:
  "codec_ok codec \<Longrightarrow> state_round_trips_through_disk_atomically (temp_store dir unix cmode codec) now"
  by (simp add: state_round_trips_through_disk_atomically_def saved_and_loaded_back)

lemma decommissioned_flag_round_trips_passes:
  "codec_ok codec \<Longrightarrow> decommissioned_flag_round_trips_through_disk (temp_store dir unix cmode codec) now"
  by (simp add: decommissioned_flag_round_trips_through_disk_def saved_and_loaded_back)

text \<open>The field has a serde default: a text without it parses to a state that is not decommissioned.\<close>

lemma a_pre_upgrade_state_file_passes:
  assumes "from_json codec old = Some \<lparr>st_credentials = Some c, st_decommissioned = False,
     st_session = None, st_last_applied_at = t, st_high_water_mark = t\<rparr>"
  shows "a_pre_upgrade_state_file_without_the_field_loads_as_still_managed (temp_store dir unix cmode codec) old now"
  using assms by (simp add: a_pre_upgrade_state_file_without_the_field_loads_as_still_managed_def store_tests)

lemma loading_with_no_file_yet_passes:
  "loading_with_no_file_yet_returns_defaults_not_an_error (temp_store dir unix cmode codec) now"
  by (simp add: loading_with_no_file_yet_returns_defaults_not_an_error_def store_tests agent_state_default_def)

lemma a_corrupt_state_file_passes:
  "from_json codec junk = None \<Longrightarrow>
     a_corrupt_state_file_is_an_error_never_a_silent_blank_slate (temp_store dir unix cmode codec) junk now"
  by (simp add: a_corrupt_state_file_is_an_error_never_a_silent_blank_slate_def store_tests)

lemma enroll_recovers_passes:
  assumes "from_json codec junk = None"
  shows "enroll_recovers_from_a_corrupt_state_file_by_setting_it_aside (temp_store dir unix cmode codec) junk now"
proof -
  define s where "s = \<lparr>store_dir = dir, store_unix = unix, store_create_mode = cmode, store_codec = codec\<rparr>"
  have "load s now False (fs_write s (state_path s) junk Map.empty) = Inl InvalidData"
    using assms by (simp add: load_def read_file_def fs_write_def s_def)
  then show ?thesis
    using corrupt_path_join [of s] paths_distinct [of s] assms
    by (simp add: enroll_recovers_from_a_corrupt_state_file_by_setting_it_aside_def temp_store_opens
        load_for_enroll_def fs_rename_def fs_write_def agent_state_default_def flip: s_def)
qed

lemma restart_recovery_passes:
  "codec_ok codec \<Longrightarrow>
     restart_recovery_reads_back_exactly_what_was_persisted
       (temp_store dir unix cmode codec) (temp_store dir unix cmode codec) now"
  by (simp add: restart_recovery_reads_back_exactly_what_was_persisted_def saved_and_loaded_back)

end
