(* ===== verification/Agent_Tests.thy ===== *)
theory Agent_Tests imports World Wire Storage_Tests begin

text \<open>
  The unit tests of \<open>agent/src/client.rs\<close> and \<open>agent/src/main.rs\<close> (their \<open>mod tests\<close>), run on the
  model. Parsing and printing JSON text is a parameter, so two tests are relative to what it says of the
  test's text: that it stands for the JSON value one sees in it. At the end the tests of the store are
  run with the codec of the theory Wire.
\<close>

section \<open>The connection task\<close>

definition decommission_text :: string where
  "decommission_text = ''{\"type\":\"decommission\",\"serverTime\":\"2026-01-01T00:00:00Z\"}''"

definition parses_a_decommission_message_into_an_event :: "ws_lib \<Rightarrow> bool" where
  "parses_a_decommission_message_into_an_event lib =
     (case handle_message lib decommission_text of e # _ \<Rightarrow> e = Decommission | [] \<Rightarrow> False)"

definition decommission_ack_serializes_to_the_expected_wire_shape :: "string json_lib \<Rightarrow> bool" where
  "decommission_ack_serializes_to_the_expected_wire_shape lib =
     (print_json lib (to_server_json DecommissionAck) = ''{\"type\":\"decommission_ack\"}'')"

definition converts_https_to_wss :: bool where
  "converts_https_to_wss \<longleftrightarrow> to_ws_url ''https://taymna.example.com'' = ''wss://taymna.example.com/ws''"

definition converts_http_to_ws :: bool where
  "converts_http_to_ws \<longleftrightarrow> to_ws_url ''http://localhost:3000'' = ''ws://localhost:3000/ws''"

definition strips_a_trailing_slash :: bool where
  "strips_a_trailing_slash \<longleftrightarrow> to_ws_url ''http://localhost:3000/'' = ''ws://localhost:3000/ws''"

definition defaults_to_wss_when_no_scheme_is_given :: bool where
  "defaults_to_wss_when_no_scheme_is_given \<longleftrightarrow> to_ws_url ''taymna.example.com'' = ''wss://taymna.example.com/ws''"

section \<open>The run loop\<close>

text \<open>What performing a plan leaves: the files, what the warnings' channel got, what the commands' got.
  A refused save ends it, as the \<open>?\<close> of \<open>accept_decommission\<close> does.\<close>

fun carry_out ::
  "'c store \<Rightarrow> action list \<Rightarrow> 'c fs \<Rightarrow> io_kind + 'c fs \<times> warning_effect list \<times> client_command list" where
  "carry_out s [] fs = Inr (fs, [], [])"
| "carry_out s (SaveState st # plan) fs =
     (case save s st None fs of (Inl e, _) \<Rightarrow> Inl e | (Inr _, fs') \<Rightarrow> carry_out s plan fs')"
| "carry_out s (Warn effect # plan) fs =
     map_sum (\<lambda>e. e) (\<lambda>(fs', effects, cmds). (fs', effect # effects, cmds)) (carry_out s plan fs)"
| "carry_out s (Command cmd # plan) fs =
     map_sum (\<lambda>e. e) (\<lambda>(fs', effects, cmds). (fs', effects, cmd # cmds)) (carry_out s plan fs)"
| "carry_out s (a # plan) fs = carry_out s plan fs"

definition decommission_fixture :: "datetime list \<Rightarrow> agent_state" where
  "decommission_fixture now =
     (agent_state_default (now ! 3))\<lparr>
        st_credentials := Some \<lparr>server_url = ''https://example.com'', machine_id = ''m1'', machine_secret = ''s''\<rparr>,
        st_session := Some \<lparr>snap_id = ''session-1'', started_at = now ! 0,
          expires_at = now ! 1 + minutes 30, status = Active, updated_at = now ! 2\<rparr>\<rparr>"

definition accept_decommission_persists_the_terminal_state_before_acking ::
  "io_kind + 'c store \<Rightarrow> loop_state \<Rightarrow> datetime list \<Rightarrow> bool" where
  "accept_decommission_persists_the_terminal_state_before_acking store ls now =
     (case store of
        Inl _ \<Rightarrow> False
      | Inr s \<Rightarrow>
          let state = decommission_fixture now;
              (saved, fs) = save s state None Map.empty;
              (plan, ls') = accept_decommission (ls\<lparr>ls_state := state\<rparr>)
          in saved = Inr () \<and>
             (case carry_out s plan fs of
                Inl _ \<Rightarrow> False
              | Inr (fs', effects, cmds) \<Rightarrow>
                  (case load s (now ! 4) False fs' of
                     Inl _ \<Rightarrow> False
                   | Inr persisted \<Rightarrow>
                       st_decommissioned persisted \<and> st_session persisted = None
                       \<and> st_credentials persisted \<noteq> None)
                  \<and> st_decommissioned (ls_state ls') \<and> st_session (ls_state ls') = None
                  \<and> effects \<noteq> [] \<and> hd effects = DismissFinalWarning
                  \<and> cmds \<noteq> [] \<and> hd cmds = AckDecommission))"

section \<open>The tests pass\<close>

lemma parses_a_decommission_message_passes:
  assumes "parse_json lib decommission_text =
     Some (JObj [(''type'', JStr ''decommission''), (''serverTime'', JStr ''2026-01-01T00:00:00Z'')])"
  shows "parses_a_decommission_message_into_an_event (json_ws_lib lib url_ok value_ok version)"
  using assms by (simp add: parses_a_decommission_message_into_an_event_def handle_message_def event_of_def
      json_ws_lib_def server_message_of_json_def required_def)

lemma decommission_ack_serializes_passes:
  "print_json lib (JObj [(''type'', JStr ''decommission_ack'')]) = ''{\"type\":\"decommission_ack\"}'' \<Longrightarrow>
     decommission_ack_serializes_to_the_expected_wire_shape lib"
  by (simp add: decommission_ack_serializes_to_the_expected_wire_shape_def)

lemma converts_https_to_wss_passes: converts_https_to_wss
  by code_simp

lemma converts_http_to_ws_passes: converts_http_to_ws
  by code_simp

lemma strips_a_trailing_slash_passes: strips_a_trailing_slash
  by code_simp

lemma defaults_to_wss_when_no_scheme_is_given_passes: defaults_to_wss_when_no_scheme_is_given
  by code_simp

lemma accept_decommission_persists_passes:
  "codec_ok codec \<Longrightarrow>
     accept_decommission_persists_the_terminal_state_before_acking (temp_store dir unix cmode codec) ls now"
  by (simp add: accept_decommission_persists_the_terminal_state_before_acking_def temp_store_opens
      accept_decommission_def decommission_fixture_def save_ok_fault_free load_recorded recorded_save_at
      Let_def del: save_at.simps)

section \<open>The store with the agent's JSON\<close>

text \<open>The file of an older build, as the test writes it.\<close>

definition pre_upgrade_file :: "string \<Rightarrow> json" where
  "pre_upgrade_file now =
     JObj [(''credentials'', JObj [(''server_url'', JStr ''https://example.com''), (''machine_id'', JStr ''m1''),
                                   (''machine_secret'', JStr ''s'')]),
           (''session'', JNull),
           (''last_applied_at'', JStr now),
           (''trusted_high_water_mark'', JStr now)]"

lemma pre_upgrade_file_passes:
  assumes "json_ok lib" and "parse_json lib old = Some (pre_upgrade_file (print_time lib t))"
  shows "a_pre_upgrade_state_file_without_the_field_loads_as_still_managed
     (temp_store dir unix cmode (json_codec lib)) old now"
  using assms by (intro a_pre_upgrade_state_file_passes)
    (simp add: json_codec_def pre_upgrade_file_def state_of_json_def credentials_of_json_def reading json_ok_laws)

lemma corrupt_json_passes:
  "parse_json lib junk = None \<Longrightarrow>
     a_corrupt_state_file_is_an_error_never_a_silent_blank_slate (temp_store dir unix cmode (json_codec lib)) junk now
     \<and> enroll_recovers_from_a_corrupt_state_file_by_setting_it_aside (temp_store dir unix cmode (json_codec lib)) junk now"
  by (simp add: a_corrupt_state_file_passes enroll_recovers_passes json_codec_def)

lemma json_round_trips_pass:
  "json_ok lib \<Longrightarrow>
     state_round_trips_through_disk_atomically (temp_store dir unix cmode (json_codec lib)) now
     \<and> decommissioned_flag_round_trips_through_disk (temp_store dir unix cmode (json_codec lib)) now
     \<and> restart_recovery_reads_back_exactly_what_was_persisted
         (temp_store dir unix cmode (json_codec lib)) (temp_store dir unix cmode (json_codec lib)) now
     \<and> accept_decommission_persists_the_terminal_state_before_acking (temp_store dir unix cmode (json_codec lib)) ls now"
  by (simp add: json_codec_ok state_round_trips_through_disk_passes decommissioned_flag_round_trips_passes
      restart_recovery_passes accept_decommission_persists_passes)

end
