(* ===== verification/Windows_Tests.thy ===== *)
theory Windows_Tests imports Windows begin

text \<open>
  The unit tests of \<open>agent/src/platform/windows.rs\<close> (its \<open>mod tests\<close>), run on the model: the
  vectors of the hand-written encodings, PowerShell literals, and the filled templates.
\<close>

definition bytes_of :: "string \<Rightarrow> 8 word list" where
  "bytes_of s = map (\<lambda>c. of_nat (of_char c)) s"

definition base64_matches_the_rfc_test_vectors :: bool where
  "base64_matches_the_rfc_test_vectors \<longleftrightarrow>
     base64 (bytes_of '''') = ''''
     \<and> base64 (bytes_of ''f'') = ''Zg==''
     \<and> base64 (bytes_of ''fo'') = ''Zm8=''
     \<and> base64 (bytes_of ''foo'') = ''Zm9v''
     \<and> base64 (bytes_of ''foob'') = ''Zm9vYg==''
     \<and> base64 (bytes_of ''fooba'') = ''Zm9vYmE=''
     \<and> base64 (bytes_of ''foobar'') = ''Zm9vYmFy''"

definition scripts_are_encoded_as_utf16le_base64_like_powershell_expects :: bool where
  "scripts_are_encoded_as_utf16le_base64_like_powershell_expects \<longleftrightarrow>
     utf16le ''A'' = [0x41, 0x00] \<and> base64 (utf16le ''A'') = ''QQA=''"

definition powershell_literals_cannot_be_broken_out_of :: bool where
  "powershell_literals_cannot_be_broken_out_of \<longleftrightarrow>
     powershell_string ''5 minutes remaining'' = [quote] @ ''5 minutes remaining'' @ [quote]
     \<and> powershell_string (''it'' @ [quote] @ ''s'') =
         [quote] @ ''it'' @ [quote, quote] @ ''s'' @ [quote]
     \<and> powershell_string ([quote] @ ''; Start-Process calc; '' @ [quote]) =
         [quote, quote, quote] @ ''; Start-Process calc; '' @ [quote, quote, quote]"

text \<open>\<open>str::contains\<close>.\<close>

fun contains :: "string \<Rightarrow> string \<Rightarrow> bool" where
  "contains [] pat = (pat = [])"
| "contains (c # s) pat = (strip_prefix pat (c # s) \<noteq> None \<or> contains s pat)"

definition every_placeholder_is_substituted :: bool where
  "every_placeholder_is_substituted =
     (let notice = \<lparr>title = ''5 minutes remaining'', body = ''Save your work.'', urgency_of = Normal\<rparr>;
          balloon = replace_all ''%%ICON%%'' ''Info''
                      (replace_all ''%%BODY%%'' (powershell_string (body notice))
                        (replace_all ''%%TITLE%%'' (powershell_string (title notice)) BALLOON_SCRIPT));
          final_warning = replace_all ''%%BODY%%'' (powershell_string FINAL_WARNING_BODY)
                      (replace_all ''%%HEADLINE%%'' (powershell_string FINAL_WARNING_HEADLINE)
                        (replace_all ''%%BRAND%%'' (powershell_string APP_NAME)
                          (replace_all ''%%SECONDS%%'' ''30'' FINAL_WARNING_SCRIPT)))
      in \<not> contains balloon ''%%'' \<and> \<not> contains final_warning ''%%'')"

section \<open>The tests pass\<close>

lemma powershell_literals_cannot_be_broken_out_of_passes: powershell_literals_cannot_be_broken_out_of
  by code_simp

lemma sextet_values:
  "sextet w n = ALPHABET ! (unat w div 2 ^ n mod 64)"
  by (simp add: sextet_def sextet_index)

lemma base64_matches_the_rfc_test_vectors_passes: base64_matches_the_rfc_test_vectors
  by (simp add: base64_matches_the_rfc_test_vectors_def bytes_of_def sextet_values block_value ALPHABET_def of_char_def)

lemma scripts_are_encoded_passes: scripts_are_encoded_as_utf16le_base64_like_powershell_expects
  by (simp add: scripts_are_encoded_as_utf16le_base64_like_powershell_expects_def utf16le_def encode_utf16_def
      to_le_bytes_def sextet_values block_value ALPHABET_def)

text \<open>A text with two percent signs in a row is one that is not free of placeholders.\<close>

lemma contains_percents: "contains s [percent, percent] \<longleftrightarrow> \<not> no_placeholder s"
  by (induction s rule: no_placeholder.induct) auto

lemma no_placeholder_Cons [simp]: "c \<noteq> percent \<Longrightarrow> no_placeholder (c # t) \<longleftrightarrow> no_placeholder t"
  by (cases t) auto

lemma no_placeholder_append:
  "percent \<notin> set s \<Longrightarrow> no_placeholder (s @ t) \<longleftrightarrow> no_placeholder t"
  by (induction s) auto

lemma every_placeholder_is_substituted_passes: every_placeholder_is_substituted
proof -
  let ?n = "\<lparr>title = ''5 minutes remaining'', body = ''Save your work.'', urgency_of = Normal\<rparr>"
  have "no_placeholder (balloon_script ?n)"
    by (simp add: balloon_filled no_placeholder_append powershell_string_percent icon_of_def)
  moreover have "no_placeholder (countdown_script 30)"
    by (simp add: countdown_filled no_placeholder_append powershell_string_percent APP_NAME_def
        FINAL_WARNING_HEADLINE_def FINAL_WARNING_BODY_def)
  moreover have "show_int (clamp 1 600 30) = ''30''" by code_simp
  ultimately show ?thesis
    by (simp add: every_placeholder_is_substituted_def Let_def contains_percents balloon_script_def countdown_script_def)
qed

end
