(* ===== verification/Spec2Isabelle.thy ===== *)
theory Spec2Isabelle imports Countdown Lifecycle States Progress Timeout Service
  Delivery Durability Skew Handshake Removal Agreement
  Registry Pacing Warning_Tests Agent_Tests Windows_Tests begin

text \<open>
  \<^bold>\<open>The Taymna machine agent, verified in Isabelle/HOL.\<close>

  Taymna limits the time a computer can be used. Its agent, the Rust program under \<open>src/agent/src\<close>,
  runs as a system service: it keeps a WebSocket to the server, receives the session of the machine
  (an absolute deadline), and every two seconds decides from local state alone whether the machine may
  be used; if not it locks the desktop. It warns the user before the deadline, survives outages,
  restarts and a clock set back, and lets the machine go for good when the server decommissions it.
  This development models all of the agent's own logic and proves what makes it correct.

  \<^bold>\<open>Parts and how they interact.\<close> The run loop (\<open>main.rs\<close>) owns the state and is the only one to write the
  state file (\<open>storage.rs\<close>). It is fed by the connection task (\<open>client.rs\<close>) through a channel of
  events, sends it commands through another, asks the session state machine (\<open>session.rs\<close>) at the
  time of the trusted clock (\<open>ClockGuard\<close>, \<open>storage.rs\<close>), calls the platform's enforcement
  (\<open>platform/\<close>), and hands the decisions of \<open>warning.rs\<close> to a thread that delivers them through the
  platform's notifier. Enrollment writes the state file from the command line.

  \<^bold>\<open>Theories.\<close> Each has the definitions of one part in the order of the code, then lemmas, then the
  properties (numbered C1, C2, ... over the development) with a witness at a concrete input.
  \<^item> \<open>Prelude\<close>: runs of a step function, paths of a step relation, and the interfaces \<open>forward_mark\<close> (a mark
    that never goes back; interpreted by the gate, the clock and the run loop) and \<open>simulation\<close>
    (a specification implemented by a step relation; interpreted by the whole agent).
  \<^item> \<open>Chrono\<close>: times of \<open>chrono\<close> as integers of nanoseconds in their range, durations, instants.
  \<^item> \<open>Session\<close> (\<open>session.rs\<close>): \<open>session_snapshot\<close>, the gate for stale messages \<open>apply_server_message\<close>, local
    expiry and the verdict \<open>advance\<close>.
  \<^item> \<open>Clock\<close> (\<open>storage.rs\<close>, \<open>ClockGuard\<close>): \<open>guard_new\<close>, \<open>guard_now\<close>, \<open>resync_from_server\<close>; reading past
    the last representable time is the panic \<open>None\<close>.
  \<^item> \<open>Platform\<close> (\<open>platform/mod.rs\<close>): the notice, the texts, and the trait of the notifier as the locale
    \<open>user_notifier\<close>, interpreted on the three platforms.
  \<^item> \<open>Warning\<close> (\<open>warning.rs\<close>): \<open>expiry_warnings\<close>, \<open>reconcile\<close> and its parts, \<open>notice_for\<close>, \<open>apply_effect\<close>, and
    the thread that applies the effects (\<open>main.rs\<close>).
  \<^item> \<open>Storage\<close> (\<open>storage.rs\<close>): \<open>agent_state\<close>, \<open>store\<close>, \<open>load\<close>, \<open>load_for_enroll\<close>, \<open>save\<close> over a map from paths
    to files; a save may be refused at each of its calls (\<open>save_fault\<close>) or stopped by a crash at each
    point (\<open>save_point\<close>).
  \<^item> \<open>Client\<close> (\<open>client.rs\<close>): \<open>connect\<close> and \<open>serve_step\<close> (\<open>connect_and_serve\<close>) and the reconnecting loop
    \<open>client_step\<close> (\<open>run\<close>) as one state machine over what the network answers.
  \<^item> \<open>Agent\<close> (\<open>main.rs\<close>): the loop's variables \<open>loop_state\<close>, the branches of its select as functions to a
    plan of calls (\<open>on_event\<close>, \<open>on_tick\<close>, \<open>accept_decommission\<close>, \<open>handle\<close>), \<open>run_start\<close>, \<open>enroll\<close>.
  \<^item> \<open>Countdown\<close>: a session from its grant to the lock, over the loop, the clock, the session and the
    warnings together.
  \<^item> \<open>World\<close>: the agent on a machine as the step relation \<open>world_step\<close>: the loop performs its plan call by
    call, interleaved with the connection task, failing saves, panics, crashes at any moment (in the
    middle of a save too), restarts and enrollments. Its invariant \<open>world_ok\<close> and the properties of
    every reachable state.
  \<^item> \<open>Lifecycle\<close>: the specification (unenrolled, managed, released) and the simulation that shows the agent
    implements it.
  \<^item> \<open>States\<close>: what holds of every state recorded or run with, through the interface \<open>state_property\<close>: their
    shape, and the deadline of the session.
  \<^item> \<open>Delivery\<close>: the steps of \<open>World\<close> interleaved with those of the thread that delivers the warnings; the
    thread can be slow, die, and do anything to the desktop. An orderly exit waits for it, as the code
    joins it; what a shutdown leaves behind is therefore stated here.
  \<^item> \<open>Wire\<close>: the JSON of the state file and of the protocol as the serde attributes lay it out, up to the
    text; the codec of \<open>Storage\<close> and the parser of \<open>Client\<close> as instances.
  \<^item> \<open>Durability\<close>: a save as the file operations it issues, and what a power loss leaves of them.
  \<^item> \<open>Skew\<close>: a machine enrolled while its clock is ahead.
  \<^item> \<open>Handshake\<close> (\<open>machines.service.ts\<close>): the server's row of a machine, the acknowledgements on their way and
    the steps of \<open>World\<close> together, over any network: the safety of a decommission across the two programs,
    and how enrolling anew before a late acknowledgement defeats it.
  \<^item> \<open>Removal\<close> (\<open>realtime.gateway.ts\<close>, \<open>connection-registry.service.ts\<close>): the same with the connection modelled,
    so that nothing is read that was not sent before: a requested removal can complete, and an
    acknowledgement sent before the server listens is never made up for.
  \<^item> \<open>Agreement\<close> (\<open>sessions.service.ts\<close>): the session on the server, the messages under way and the run
    loop together: when the two sides agree, what two changes of the same millisecond do, and the race
    after which they never agree.
  \<^item> \<open>Registry\<close> (\<open>machines.service.ts\<close>, \<open>realtime.gateway.ts\<close>): the server's enrollment tokens and credentials,
    and the agent's \<open>enroll\<close> against them, up to the connection that is let in.
  \<^item> \<open>Pacing\<close>: the run loop in time, with a ticker that is served up to a given lateness, and the locks run
    on the platforms through the interface \<open>prompt_machine\<close> of \<open>Machine\<close>.
  \<^item> \<open>Progress\<close>: a branch of the select taken with its plan performed, the events of the channel taken up,
    what a process that leaves its loop has saved; granted sessions release.
  \<^item> \<open>Host\<close>, \<open>Linux\<close>, \<open>Macos\<close>, \<open>Windows\<close> (\<open>platform/linux.rs\<close>, \<open>macos.rs\<close>, \<open>windows.rs\<close>): the commands and
    Win32 calls made, text handling of the standard library, quoting and encodings, and the handles
    and processes kept.
  \<^item> \<open>Machine\<close>: the run loop and the warnings thread on each platform, in any interleaving, through the
    interfaces \<open>machine\<close> (what is run on the computer at all) and \<open>notifying_machine\<close> (what is left on
    the screen at the end).
  \<^item> \<open>Timeout\<close>: the time after which the final warning goes by itself, read back from what each platform is
    told.
  \<^item> \<open>Service\<close> (\<open>main.rs\<close>): the choice of path at start, the diagnostic files and the Windows service
    handshake.
  \<^item> \<open>Session_Tests\<close>, \<open>Warning_Tests\<close>, \<open>Storage_Tests\<close>, \<open>Agent_Tests\<close>, \<open>Windows_Tests\<close>: the unit tests of the
    crate, each a definition with its name, run on the model and proved to pass: those with a clock for
    all readings in order, those of the store for every codec and directory.

  \<^bold>\<open>What is shown.\<close> Safety of the decommission: it is acknowledged only when durable, and then final;
  the server never deletes a machine under an agent that enforces, unless the machine is enrolled anew
  while an acknowledgement of its earlier life is in flight; a requested removal can complete over an
  open connection.
  Agreement: once its messages arrive, the agent allows what the session on the server allows, if no two
  changes bear the same date and no empty answer was late.
  Enrollment: an agent that reports success is let in by the server, and a token serves once.
  Time: past the deadline a lock is run every two seconds and what the ticker is late.
  Offline enforcement: a machine past its deadline is blocked by the loop alone, whatever the network,
  restarts and clock do; only a server message releases it. Equivalence: the warnings never influence
  enforcement; messages in any order lead to the same session. Crash safety of the state file, and
  errors that never turn into a blank slate. The ladder of warnings, complete and each level once.
  The thread that delivers the warnings does not delay what the agent does, but for an orderly exit, and
  delivers them in order; such an exit leaves the loop's state on disk. The state file and the server's messages are read as what was written, by older and
  newer builds too.
  Confinement: no command is run whose text does not come from the agent. Round trips of the encodings
  and bounds of the reconnect schedule. Some theorems record behaviour that differs from the
  documentation (small rollbacks of the clock, the end of the final warning, an enrollment under a
  running agent, a refused save on Windows, a power loss after a save, an enrollment with the clock
  ahead, a session started while a connection is being answered, two overlapping redemptions of one
  token, an acknowledgement that arrives after the machine was enrolled anew, one that arrives before
  the server listens).

  \<^bold>\<open>Integers, fuel and bounds.\<close> Seconds and nanoseconds are unbounded integers, with \<open>chrono\<close>'s limits written
  out where the code can reach them (\<open>dt_add\<close>, \<open>from_std_or_default\<close>); uids, notification ids, close
  codes and the base64 blocks are machine words. Loops are structural recursions over what the
  environment supplies (sessions listed, inputs received), so no fuel is used; the endless loops of
  the program are steps of relations or of runs over input lists of any length.

  \<^bold>\<open>Parameters.\<close> What is not under \<open>src/\<close> is an argument: JSON (\<open>codec\<close>, assumed to read back what it wrote,
  \<open>codec_ok\<close>; \<open>parse_message\<close>, \<open>parse_enrolled\<close>), of which \<open>Wire\<close> leaves only the text of a JSON value and of a
  time, URL and header parsing, HTTP,
  the programs run on a host (\<open>exec\<close>), the macOS and Win32 calls. A crash keeps the file system calls
  completed before it and nothing is lost from them; what a power loss does besides is the subject of
  \<open>Durability\<close> alone. Texts are strings of 8-bit characters.

  \<^bold>\<open>Not modelled.\<close> Log lines and the set-up of tracing (\<open>main.rs\<close> 85--91 and 163--176: every failure there is
  ignored by the code); the pacing of \<open>tokio\<close>'s timers but in \<open>Pacing\<close> (elsewhere a tick may come at any time);
  what a notification helper does once it runs; the server
  (\<open>src/api\<close>), but for the shape of its messages, the row of a machine (\<open>Handshake\<close>), its connection (\<open>Removal\<close>), its session
  (\<open>Agreement\<close>) and the enrollment of agents (\<open>Registry\<close>), and the dashboard (\<open>src/web\<close>), which are TypeScript, and the installers.
\<close>

end
